(* ===== verification/Prelude.thy ===== *)
theory Prelude
  imports Main "HOL-Library.Word" "HOL-Library.AList" "HOL-Library.Multiset"
begin

text \<open>
  The shared part of the library: machine integers, the outcome of a C++ call (a value, a
  thrown exception, or a fault the language gives no meaning to), actions that thread a state
  through such calls, and the rules for two-state properties of actions. Nothing here is
  specific to the broker.
\<close>

unbundle bit_operations_syntax

type_synonym u8 = "8 word"
type_synonym u16 = "16 word"
type_synonym u64 = "64 word"
type_synonym bytes = "u8 list"

section \<open>Rule collections\<close>

named_theorems act_simps \<open>definitions that evaluate an action on a state\<close>
named_theorems always_intros \<open>two-state rules of the operations, one per operation\<close>
named_theorems frame_simps \<open>what an operation leaves alone\<close>

section \<open>Association lists\<close>

lemma set_AList_update:
  "distinct (map fst A) \<Longrightarrow> set (AList.update k v A) = {p \<in> set A. fst p \<noteq> k} \<union> {(k, v)}"
  by (induction A) (auto simp: image_iff)

lemma set_AList_delete: "set (AList.delete k A) = {p \<in> set A. fst p \<noteq> k}"
  by (auto simp: AList.delete_eq)

section \<open>Outcomes of a call\<close>

text \<open>
  \<open>exn\<close> lists the exception classes the sources throw; \<open>fault\<close> the ways a call has no
  defined result: locking a \<open>std::mutex\<close> the thread already holds, an exception that leaves
  a destructor or a thread (\<open>std::terminate\<close>), the use of an object after its destruction, and
  a call through a null pointer.
\<close>

datatype exn = RuntimeError string | ZmqError | ConfigError string | HelpRequested
  | InvalidArgument | OutOfRange

datatype fault = SelfDeadlock | Terminate | UseAfterFree | NullPointer

datatype 'a outcome = Ok 'a | Throw exn | Fault fault

definition no_fault :: "'a outcome \<Rightarrow> bool" where
  "no_fault r = (case r of Fault _ \<Rightarrow> False | _ \<Rightarrow> True)"

lemma no_fault_simps [simp]:
  "no_fault (Ok a)" "no_fault (Throw e)" "\<not> no_fault (Fault f)"
  by (simp_all add: no_fault_def)

section \<open>Actions\<close>

text \<open>An action maps a state to an outcome and the state after the call. A throw keeps the
  state reached so far, as C++ does.\<close>

type_synonym ('s, 'a) action = "'s \<Rightarrow> 'a outcome \<times> 's"

definition ret :: "'a \<Rightarrow> ('s, 'a) action" where
  "ret a = (\<lambda>s. (Ok a, s))"

definition throw :: "exn \<Rightarrow> ('s, 'a) action" where
  "throw e = (\<lambda>s. (Throw e, s))"

definition fail_with :: "fault \<Rightarrow> ('s, 'a) action" where
  "fail_with f = (\<lambda>s. (Fault f, s))"

definition ask :: "('s \<Rightarrow> 'a) \<Rightarrow> ('s, 'a) action" where
  "ask f = (\<lambda>s. (Ok (f s), s))"

definition update :: "('s \<Rightarrow> 's) \<Rightarrow> ('s, unit) action" where
  "update f = (\<lambda>s. (Ok (), f s))"

definition bind :: "('s, 'a) action \<Rightarrow> ('a \<Rightarrow> ('s, 'b) action) \<Rightarrow> ('s, 'b) action" where
  "bind m f = (\<lambda>s. case m s of
       (Ok a, t) \<Rightarrow> f a t
     | (Throw e, t) \<Rightarrow> (Throw e, t)
     | (Fault x, t) \<Rightarrow> (Fault x, t))"

definition seq :: "('s, 'a) action \<Rightarrow> ('s, 'b) action \<Rightarrow> ('s, 'b) action" where
  "seq m n = bind m (\<lambda>_. n)"

text \<open>\<open>try { m } catch (const std::exception&) { h }\<close>: every exception of the sources derives
  from \<open>std::exception\<close>, so each is caught; a fault is not.\<close>

definition try_catch :: "('s, 'a) action \<Rightarrow> (exn \<Rightarrow> ('s, 'a) action) \<Rightarrow> ('s, 'a) action" where
  "try_catch m h = (\<lambda>s. case m s of
       (Ok a, t) \<Rightarrow> (Ok a, t)
     | (Throw e, t) \<Rightarrow> h e t
     | (Fault x, t) \<Rightarrow> (Fault x, t))"

text \<open>A function that may not throw (a destructor): an exception that leaves it terminates the
  process.\<close>

definition no_except :: "('s, 'a) action \<Rightarrow> ('s, 'a) action" where
  "no_except m = try_catch m (\<lambda>_. fail_with Terminate)"

text \<open>A result that does not touch the state, as a call that returns or throws.\<close>

definition of_sum :: "exn + 'a \<Rightarrow> ('s, 'a) action" where
  "of_sum r = (case r of Inl e \<Rightarrow> throw e | Inr a \<Rightarrow> ret a)"

text \<open>\<open>std::lock_guard\<close> on a mutex kept as a flag of the state: released on return and on
  throw. A thread that already holds it can not go on.\<close>

definition locked :: "('s \<Rightarrow> bool) \<Rightarrow> (bool \<Rightarrow> 's \<Rightarrow> 's) \<Rightarrow> ('s, 'a) action \<Rightarrow> ('s, 'a) action" where
  "locked held set_held m = (\<lambda>s. if held s then (Fault SelfDeadlock, s) else
     (case m (set_held True s) of
        (Fault x, t) \<Rightarrow> (Fault x, t)
      | (r, t) \<Rightarrow> (r, set_held False t)))"

text \<open>A range loop whose body says whether to go on (\<open>True\<close>) or to \<open>break\<close>.\<close>

fun for_each :: "('b \<Rightarrow> ('s, bool) action) \<Rightarrow> 'b list \<Rightarrow> ('s, unit) action" where
  "for_each f [] = ret ()"
| "for_each f (x # xs) = bind (f x) (\<lambda>go. if go then for_each f xs else ret ())"

lemmas action_defs = ret_def throw_def fail_with_def ask_def update_def bind_def seq_def
  try_catch_def of_sum_def locked_def no_except_def

lemma ret_apply [simp, act_simps]: "ret a s = (Ok a, s)"
  by (simp add: ret_def)

lemma throw_apply [simp, act_simps]: "throw e s = (Throw e, s)"
  by (simp add: throw_def)

lemma fail_with_apply [simp, act_simps]: "fail_with f s = (Fault f, s)"
  by (simp add: fail_with_def)

lemma ask_apply [simp, act_simps]: "ask f s = (Ok (f s), s)"
  by (simp add: ask_def)

lemma update_apply [simp, act_simps]: "update f s = (Ok (), f s)"
  by (simp add: update_def)

lemma of_sum_apply [simp, act_simps]:
  "of_sum (Inl e) s = (Throw e, s)" "of_sum (Inr a) s = (Ok a, s)"
  by (simp_all add: of_sum_def)

lemma bind_Ok: "m s = (Ok a, t) \<Longrightarrow> bind m f s = f a t"
  by (simp add: bind_def)

lemma bind_Throw: "m s = (Throw e, t) \<Longrightarrow> bind m f s = (Throw e, t)"
  by (simp add: bind_def)

lemma bind_Fault: "m s = (Fault x, t) \<Longrightarrow> bind m f s = (Fault x, t)"
  by (simp add: bind_def)

lemma bind_simple [simp]:
  "bind (ret a) f1 = f1 a" "bind (throw e) f2 = throw e" "bind (ask g) f3 = (\<lambda>s. f3 (g s) s)"
  "bind (update u) f4 = (\<lambda>s. f4 () (u s))"
  by (auto simp: action_defs fun_eq_iff)

lemma seq_simple [simp]:
  "seq (ret a) n1 = n1" "seq (throw e) n2 = throw e" "seq (update u) n3 = (\<lambda>s. n3 (u s))"
  by (auto simp: action_defs fun_eq_iff)

text \<open>The same rules on a state.\<close>

lemma run_act:
  "bind (ret a) f1 s = f1 a s" "bind (throw e) f2 s = (Throw e, s)" "bind (ask g) f3 s = f3 (g s) s"
  "bind (update u) f4 s = f4 () (u s)" "seq (ret b) n1 s = n1 s" "seq (throw e) n2 s = (Throw e, s)"
  "seq (ask h) n3 s = n3 s" "seq (update v) n4 s = n4 (v s)"
  by (simp_all add: action_defs)

lemma bind_ret [simp]: "bind m ret = m"
proof
  fix s
  obtain r t where "m s = (r, t)" by (cases "m s")
  then show "bind m ret s = m s" by (cases r) (simp_all add: bind_def)
qed

lemma bind_assoc: "bind (bind m f) g = bind m (\<lambda>a. bind (f a) g)"
proof
  fix s
  obtain r t where "m s = (r, t)" by (cases "m s")
  then show "bind (bind m f) g s = bind m (\<lambda>a. bind (f a) g) s" by (cases r) (simp_all add: bind_def)
qed

lemma bind_split:
  "P (bind m f s) \<longleftrightarrow>
     (\<forall>a t. m s = (Ok a, t) \<longrightarrow> P (f a t)) \<and>
     (\<forall>e t. m s = (Throw e, t) \<longrightarrow> P (Throw e, t)) \<and>
     (\<forall>x t. m s = (Fault x, t) \<longrightarrow> P (Fault x, t))"
  by (auto simp: bind_def split: prod.splits outcome.splits)

lemma try_catch_split:
  "P (try_catch m h s) \<longleftrightarrow>
     (\<forall>a t. m s = (Ok a, t) \<longrightarrow> P (Ok a, t)) \<and>
     (\<forall>e t. m s = (Throw e, t) \<longrightarrow> P (h e t)) \<and>
     (\<forall>x t. m s = (Fault x, t) \<longrightarrow> P (Fault x, t))"
  by (auto simp: try_catch_def split: prod.splits outcome.splits)

section \<open>Two-state properties\<close>

text \<open>\<open>always R m\<close>: whatever the outcome of \<open>m\<close>, the states before and after are related by
  \<open>R\<close>. For an invariant \<open>I\<close> take \<open>R s t = (I s \<longrightarrow> I t)\<close>.\<close>

definition always :: "('s \<Rightarrow> 's \<Rightarrow> bool) \<Rightarrow> ('s, 'a) action \<Rightarrow> bool" where
  "always R m = (\<forall>s. R s (snd (m s)))"

lemma alwaysI: "(\<And>s. R s (snd (m s))) \<Longrightarrow> always R m"
  by (simp add: always_def)

lemma alwaysD: "always R m \<Longrightarrow> m s = (r, t) \<Longrightarrow> R s t"
  by (metis always_def snd_conv)

lemma always_mono: "always R m \<Longrightarrow> (\<And>s t. R s t \<Longrightarrow> Q s t) \<Longrightarrow> always Q m"
  by (auto simp: always_def)

lemma always_conj: "always R m \<Longrightarrow> always Q m \<Longrightarrow> always (\<lambda>s t. R s t \<and> Q s t) m"
  by (auto simp: always_def)

text \<open>The relations of interest are reflexive and transitive, so they compose over any
  program built from the action combinators.\<close>

locale two_state =
  fixes R :: "'s \<Rightarrow> 's \<Rightarrow> bool"
  assumes refl_R: "R s s"
    and trans_R: "R s t \<Longrightarrow> R t u \<Longrightarrow> R s u"
begin

lemma ret_always: "always R (ret a)"
  by (simp add: always_def refl_R)

lemma throw_always: "always R (throw e)"
  by (simp add: always_def refl_R)

lemma fail_with_always: "always R (fail_with f)"
  by (simp add: always_def refl_R)

lemma ask_always: "always R (ask f)"
  by (simp add: always_def refl_R)

lemma of_sum_always: "always R (of_sum r)"
  by (cases r) (simp_all add: always_def refl_R)

lemma update_always: "(\<And>s. R s (f s)) \<Longrightarrow> always R (update f)"
  by (simp add: always_def)

lemma bind_always:
  assumes m: "always R m" and f: "\<And>a. always R (f a)"
  shows "always R (bind m f)"
proof (rule alwaysI)
  fix s
  obtain r t where ms: "m s = (r, t)" by (cases "m s")
  have st: "R s t" using m ms by (rule alwaysD)
  show "R s (snd (bind m f s))"
  proof (cases r)
    case (Ok a)
    have "R t (snd (f a t))" using f [of a] by (simp add: always_def)
    with st ms Ok show ?thesis by (simp add: bind_def trans_R [OF st])
  qed (use st ms in \<open>simp_all add: bind_def\<close>)
qed

lemma seq_always: "always R m \<Longrightarrow> always R n \<Longrightarrow> always R (seq m n)"
  unfolding seq_def by (rule bind_always)

lemma try_always:
  assumes m: "always R m" and h: "\<And>e. always R (h e)"
  shows "always R (try_catch m h)"
proof (rule alwaysI)
  fix s
  obtain r t where ms: "m s = (r, t)" by (cases "m s")
  have st: "R s t" using m ms by (rule alwaysD)
  show "R s (snd (try_catch m h s))"
  proof (cases r)
    case (Throw e)
    have "R t (snd (h e t))" using h [of e] by (simp add: always_def)
    with st ms Throw show ?thesis by (simp add: try_catch_def trans_R [OF st])
  qed (use st ms in \<open>simp_all add: try_catch_def\<close>)
qed

lemma no_except_always: "always R m \<Longrightarrow> always R (no_except m)"
  unfolding no_except_def by (rule try_always) (simp_all add: fail_with_always)

lemma locked_always:
  assumes m: "always R m" and u: "\<And>b s. R s (set_held b s)"
  shows "always R (locked held set_held m)"
proof (rule alwaysI)
  fix s
  obtain r t where ms: "m (set_held True s) = (r, t)" by (cases "m (set_held True s)")
  have st: "R s t" using trans_R [OF u alwaysD [OF m ms]] .
  show "R s (snd (locked held set_held m s))"
    using ms st trans_R [OF st u] by (cases r) (simp_all add: locked_def refl_R)
qed

lemma if_always: "always R m \<Longrightarrow> always R n \<Longrightarrow> always R (if b then m else n)"
  by simp

lemma for_each_always: "(\<And>x. always R (f x)) \<Longrightarrow> always R (for_each f xs)"
  by (induction xs) (auto intro!: bind_always ret_always)

lemma at_state_always:
  "(\<And>x. always R (f x)) \<Longrightarrow> always R (\<lambda>s. f (g s) s)"
  by (simp add: always_def)

lemmas combinators = ret_always throw_always fail_with_always ask_always of_sum_always
  bind_always seq_always try_always no_except_always if_always for_each_always

end

section \<open>Contracts of actions\<close>

text \<open>\<open>triple P m Q E\<close>: started where \<open>P\<close> holds, \<open>m\<close> has no fault; if it returns \<open>a\<close> then
  \<open>Q a\<close> holds, and if it throws then \<open>E\<close> does.\<close>

definition triple :: "('s \<Rightarrow> bool) \<Rightarrow> ('s, 'a) action \<Rightarrow> ('a \<Rightarrow> 's \<Rightarrow> bool) \<Rightarrow> ('s \<Rightarrow> bool) \<Rightarrow> bool" where
  "triple P m Q E = (\<forall>s. P s \<longrightarrow> (case m s of (Ok a, t) \<Rightarrow> Q a t | (Throw e, t) \<Rightarrow> E t
     | (Fault x, t) \<Rightarrow> False))"

abbreviation keeps :: "('s \<Rightarrow> bool) \<Rightarrow> ('s, 'a) action \<Rightarrow> bool" where
  "keeps I m \<equiv> triple I m (\<lambda>_. I) I"

lemma tripleI:
  assumes "\<And>s. P s \<Longrightarrow> (case m s of (Ok a, t) \<Rightarrow> Q a t | (Throw e, t) \<Rightarrow> E t | (Fault x, t) \<Rightarrow> False)"
  shows "triple P m Q E"
  using assms by (simp add: triple_def)

lemma tripleE:
  assumes "triple P m Q E" "P s"
  obtains a t where "m s = (Ok a, t)" "Q a t" | e t where "m s = (Throw e, t)" "E t"
  using assms by (cases "m s"; cases "fst (m s)") (auto simp: triple_def)

lemma keeps_Ok: "keeps I m \<Longrightarrow> I w \<Longrightarrow> m w = (Ok a, t) \<Longrightarrow> I t"
  by (auto simp: triple_def)

lemma triple_conseq:
  assumes "triple P' m Q' E'" "\<And>s. P s \<Longrightarrow> P' s" "\<And>a s. Q' a s \<Longrightarrow> Q a s" "\<And>s. E' s \<Longrightarrow> E s"
  shows "triple P m Q E"
  by (rule tripleI, rule tripleE [OF assms(1) assms(2)]) (auto intro: assms(3,4))

lemma triple_pre: "triple P' m Q E \<Longrightarrow> (\<And>s. P s \<Longrightarrow> P' s) \<Longrightarrow> triple P m Q E"
  by (erule triple_conseq)

lemma triple_ret: "(\<And>s. P s \<Longrightarrow> Q a s) \<Longrightarrow> triple P (ret a) Q E"
  by (simp add: triple_def)

lemma triple_throw: "(\<And>s. P s \<Longrightarrow> E s) \<Longrightarrow> triple P (throw e) Q E"
  by (simp add: triple_def)

lemma triple_of_sum:
  "(\<And>s. P s \<Longrightarrow> E s) \<Longrightarrow> (\<And>a s. P s \<Longrightarrow> Q a s) \<Longrightarrow> triple P (of_sum r) Q E"
  by (cases r) (simp_all add: triple_def)

lemma triple_ask: "(\<And>s. P s \<Longrightarrow> Q (f s) s) \<Longrightarrow> triple P (ask f) Q E"
  by (simp add: triple_def)

lemma triple_update: "(\<And>s. P s \<Longrightarrow> Q () (f s)) \<Longrightarrow> triple P (update f) Q E"
  by (simp add: triple_def)

lemma triple_bind:
  assumes m: "triple P m M E" and f: "\<And>a. triple (M a) (f a) Q E"
  shows "triple P (bind m f) Q E"
proof (rule tripleI)
  fix s assume "P s"
  with m show "case bind m f s of (Ok a, t) \<Rightarrow> Q a t | (Throw e, t) \<Rightarrow> E t | (Fault x, t) \<Rightarrow> False"
    by (rule tripleE) (use f in \<open>auto simp: bind_def triple_def\<close>)
qed

lemma triple_seq: "triple P m (\<lambda>_. M) E \<Longrightarrow> triple M n Q E \<Longrightarrow> triple P (seq m n) Q E"
  unfolding seq_def by (rule triple_bind)

lemma triple_try:
  assumes m: "triple P m Q M" and h: "\<And>e. triple M (h e) Q E"
  shows "triple P (try_catch m h) Q E"
proof (rule tripleI)
  fix s assume "P s"
  with m show "case try_catch m h s of (Ok a, t) \<Rightarrow> Q a t | (Throw e, t) \<Rightarrow> E t | (Fault x, t) \<Rightarrow> False"
    by (rule tripleE) (use h in \<open>auto simp: try_catch_def triple_def\<close>)
qed

lemma triple_no_except: "triple P m Q (\<lambda>_. False) \<Longrightarrow> triple P (no_except m) Q E"
  unfolding no_except_def by (rule triple_try) (auto simp: triple_def)

lemma triple_locked:
  assumes m: "triple P' m (\<lambda>a s. Q a (set_held False s)) (\<lambda>s. E (set_held False s))"
    and P: "\<And>s. P s \<Longrightarrow> \<not> held s \<and> P' (set_held True s)"
  shows "triple P (locked held set_held m) Q E"
proof (rule tripleI)
  fix s assume "P s"
  then have s: "\<not> held s" "P' (set_held True s)" using P by simp_all
  from m s(2) show "case locked held set_held m s of (Ok a, t) \<Rightarrow> Q a t | (Throw e, t) \<Rightarrow> E t
      | (Fault x, t) \<Rightarrow> False"
    by (rule tripleE) (use s(1) in \<open>simp_all add: locked_def\<close>)
qed

lemma triple_if: "(b \<Longrightarrow> triple P m Q E) \<Longrightarrow> (\<not> b \<Longrightarrow> triple P n Q E) \<Longrightarrow> triple P (if b then m else n) Q E"
  by simp

lemma triple_for_each:
  "(\<And>x. x \<in> set xs \<Longrightarrow> keeps I (f x)) \<Longrightarrow> keeps I (for_each f xs)"
proof (induction xs)
  case (Cons x xs)
  have "keeps I (if go then for_each f xs else ret ())" for go
    using Cons by (auto intro: triple_ret)
  then show ?case using Cons.prems by (auto intro!: triple_bind)
qed (simp add: triple_ret)

lemma triple_at_state:
  "(\<And>s. P s \<Longrightarrow> triple P (f (g s)) Q E) \<Longrightarrow> triple P (\<lambda>s. f (g s) s) Q E"
  by (simp add: triple_def)

text \<open>A contract and a two-state property together.\<close>

lemma triple_always:
  assumes "triple P m Q E" "always R m" "\<And>s t. R s t \<Longrightarrow> X s \<Longrightarrow> X t"
  shows "triple (\<lambda>s. P s \<and> X s) m (\<lambda>a t. Q a t \<and> X t) (\<lambda>t. E t \<and> X t)"
proof (rule tripleI, elim conjE)
  fix s assume "P s" and x: "X s"
  obtain r t where rt: "m s = (r, t)" by (cases "m s")
  have "X t" using assms(3) [OF alwaysD [OF assms(2) rt] x] .
  with assms(1) \<open>P s\<close> rt show "case m s of (Ok a, t) \<Rightarrow> Q a t \<and> X t
      | (Throw e, t) \<Rightarrow> E t \<and> X t | (Fault x, t) \<Rightarrow> False"
    by (auto simp: triple_def dest!: spec [of _ s] split: outcome.splits)
qed

text \<open>The same rules for an invariant kept on every way out.\<close>

lemma keeps_ret: "keeps I (ret a)"
  by (rule triple_ret)

lemma keeps_throw: "keeps I (throw e)"
  by (rule triple_throw)

lemma keeps_of_sum: "keeps I (of_sum r)"
  by (rule triple_of_sum)

lemma keeps_ask: "keeps I (ask f)"
  by (rule triple_ask)

lemma keeps_bind: "keeps I m \<Longrightarrow> (\<And>a. keeps I (f a)) \<Longrightarrow> keeps I (bind m f)"
  by (rule triple_bind)

lemma keeps_seq: "keeps I m \<Longrightarrow> keeps I n \<Longrightarrow> keeps I (seq m n)"
  by (rule triple_seq)

lemma keeps_try: "keeps I m \<Longrightarrow> (\<And>e. keeps I (h e)) \<Longrightarrow> keeps I (try_catch m h)"
  by (rule triple_try)

lemma keeps_if: "(b \<Longrightarrow> keeps I m) \<Longrightarrow> (\<not> b \<Longrightarrow> keeps I n) \<Longrightarrow> keeps I (if b then m else n)"
  by simp

lemma keeps_option: "(p = None \<Longrightarrow> keeps I m) \<Longrightarrow> (\<And>a. p = Some a \<Longrightarrow> keeps I (f a))
    \<Longrightarrow> keeps I (case p of None \<Rightarrow> m | Some a \<Rightarrow> f a)"
  by (cases p) simp_all

lemma keeps_at_state: "(\<And>x. keeps I (f x)) \<Longrightarrow> keeps I (\<lambda>s. f (g s) s)"
  by (simp add: triple_def)

lemmas keeps_intros = keeps_ret keeps_throw keeps_of_sum keeps_ask keeps_bind keeps_seq keeps_try
  keeps_if keeps_option triple_for_each

section \<open>Contracts that allow some faults\<close>

text \<open>\<open>tolerates F I m\<close>: \<open>m\<close> keeps \<open>I\<close> however it returns, and its only faults are those in
  \<open>F\<close>.\<close>

definition tolerates :: "fault set \<Rightarrow> ('s \<Rightarrow> bool) \<Rightarrow> ('s, 'a) action \<Rightarrow> bool" where
  "tolerates F I m = (\<forall>s. I s \<longrightarrow> (case m s of (Ok a, t) \<Rightarrow> I t | (Throw e, t) \<Rightarrow> I t
     | (Fault x, t) \<Rightarrow> x \<in> F))"

lemma tolerates_keeps: "keeps I m \<Longrightarrow> tolerates F I m"
  by (fastforce simp: triple_def tolerates_def split: outcome.splits prod.splits)

lemma tolerates_bind:
  assumes "tolerates F I m" "\<And>a. tolerates F I (f a)"
  shows "tolerates F I (bind m f)"
  using assms unfolding tolerates_def bind_def by (fastforce split: outcome.splits prod.splits)

lemma tolerates_seq: "tolerates F I m \<Longrightarrow> tolerates F I n \<Longrightarrow> tolerates F I (seq m n)"
  unfolding seq_def by (rule tolerates_bind)

lemma tolerates_try:
  assumes "tolerates F I m" "\<And>e. tolerates F I (h e)"
  shows "tolerates F I (try_catch m h)"
  using assms unfolding tolerates_def try_catch_def by (fastforce split: outcome.splits prod.splits)

lemma tolerates_if: "tolerates F I m \<Longrightarrow> tolerates F I n \<Longrightarrow> tolerates F I (if b then m else n)"
  by simp

lemma tolerates_option: "tolerates F I m \<Longrightarrow> (\<And>a. tolerates F I (f a))
    \<Longrightarrow> tolerates F I (case p of None \<Rightarrow> m | Some a \<Rightarrow> f a)"
  by (cases p) simp_all

lemma tolerates_for_each:
  "(\<And>x. x \<in> set xs \<Longrightarrow> tolerates F I (f x)) \<Longrightarrow> tolerates F I (for_each f xs)"
proof (induction xs)
  case (Cons x xs)
  have "tolerates F I (if go then for_each f xs else ret ())" for go
    using Cons by (auto intro: tolerates_keeps [OF keeps_ret])
  then show ?case using Cons.prems by (auto intro!: tolerates_bind)
qed (simp add: tolerates_keeps [OF keeps_ret])

lemma tolerates_no_except:
  "tolerates F I m \<Longrightarrow> Terminate \<in> F \<Longrightarrow> tolerates F I (no_except m)"
  unfolding no_except_def by (rule tolerates_try) (simp_all add: tolerates_def)

lemma tolerates_mono: "tolerates F I m \<Longrightarrow> F \<subseteq> G \<Longrightarrow> tolerates G I m"
  unfolding tolerates_def by (fastforce split: outcome.splits prod.splits)

lemma tolerates_Ok: "tolerates F I m \<Longrightarrow> I s \<Longrightarrow> m s = (Ok a, t) \<Longrightarrow> I t"
  by (auto simp: tolerates_def)

lemma tolerates_Fault: "tolerates F I m \<Longrightarrow> I s \<Longrightarrow> m s = (Fault x, t) \<Longrightarrow> x \<in> F"
  by (auto simp: tolerates_def)

lemma toleratesE:
  assumes "tolerates F I m" "I s"
  obtains a t where "m s = (Ok a, t)" "I t" | e t where "m s = (Throw e, t)" "I t"
    | x t where "m s = (Fault x, t)" "x \<in> F"
  using assms by (cases "m s"; cases "fst (m s)") (auto simp: tolerates_def)

lemmas tolerates_intros = tolerates_bind tolerates_seq tolerates_try tolerates_if tolerates_option

section \<open>Actions that never throw\<close>

definition nothrow :: "('s, 'a) action \<Rightarrow> bool" where
  "nothrow m = (\<forall>s e t. m s \<noteq> (Throw e, t))"

lemma nothrow_simple: "nothrow (ret a)" "nothrow (ask f)" "nothrow (update u)" "nothrow (fail_with x)"
  by (simp_all add: nothrow_def)

lemma nothrow_bind: "nothrow m \<Longrightarrow> (\<And>a. nothrow (f a)) \<Longrightarrow> nothrow (bind m f)"
  unfolding nothrow_def bind_def by (auto split: prod.splits outcome.splits)

lemma nothrow_seq: "nothrow m \<Longrightarrow> nothrow n \<Longrightarrow> nothrow (seq m n)"
  unfolding seq_def by (rule nothrow_bind)

lemma nothrow_try: "(\<And>e. nothrow (h e)) \<Longrightarrow> nothrow (try_catch m h)"
  unfolding nothrow_def try_catch_def by (auto split: prod.splits outcome.splits)

lemma nothrow_no_except: "nothrow (no_except m)"
  unfolding no_except_def by (intro nothrow_try nothrow_simple)

lemma nothrow_locked: "nothrow m \<Longrightarrow> nothrow (locked held set_held m)"
  unfolding nothrow_def locked_def by (auto split: prod.splits outcome.splits)

lemma nothrow_if: "nothrow m \<Longrightarrow> nothrow n \<Longrightarrow> nothrow (if b then m else n)"
  by simp

lemma nothrow_option:
  "nothrow m \<Longrightarrow> (\<And>a. nothrow (f a)) \<Longrightarrow> nothrow (case p of None \<Rightarrow> m | Some a \<Rightarrow> f a)"
  by (cases p) simp_all

lemmas nothrow_rules = nothrow_simple nothrow_bind nothrow_seq nothrow_try nothrow_no_except
  nothrow_locked nothrow_if nothrow_option

lemma keeps_nothrow:
  assumes "keeps I m" "nothrow m" "I s"
  obtains a t where "m s = (Ok a, t)" "I t"
  using assms(1,3) by (rule tripleE) (use assms(2) that in \<open>auto simp: nothrow_def\<close>)

end
