(* ===== verification/Message.thy ===== *)
theory Message
  imports Prelude
begin

text \<open>
  The message type and its wire format: include/message.hpp and src/message.cpp. A
  \<open>std::string\<close> is the list of its bytes as characters, a \<open>std::vector<uint8_t>\<close> a list of
  8-bit words. The object representation read through \<open>reinterpret_cast\<close> and \<open>memcpy\<close> is the
  little-endian one of the platforms the project builds for.
\<close>

section \<open>Bytes\<close>

definition byte_of_char :: "char \<Rightarrow> u8" where
  "byte_of_char c = of_char c"

definition char_of_byte :: "u8 \<Rightarrow> char" where
  "char_of_byte b = char_of (unat b)"

text \<open>The object representation of an unsigned integer of \<open>n\<close> bytes, and back.\<close>

fun le_bytes :: "nat \<Rightarrow> 'a::len word \<Rightarrow> bytes" where
  "le_bytes 0 w = []"
| "le_bytes (Suc n) w = ucast w # le_bytes n (drop_bit 8 w)"

fun le_word :: "bytes \<Rightarrow> 'a::len word" where
  "le_word [] = 0"
| "le_word (b # bs) = ucast b OR push_bit 8 (le_word bs)"

definition HostToNetwork16 :: "u16 \<Rightarrow> u16" where
  "HostToNetwork16 host = le_word (rev (le_bytes 2 host))"

definition NetworkToHost16 :: "u16 \<Rightarrow> u16" where
  "NetworkToHost16 net = le_word (rev (le_bytes 2 net))"

definition HostToNetwork64 :: "u64 \<Rightarrow> u64" where
  "HostToNetwork64 host = le_word (rev (le_bytes 8 host))"

definition NetworkToHost64 :: "u64 \<Rightarrow> u64" where
  "NetworkToHost64 net = le_word (rev (le_bytes 8 net))"

lemma char_of_byte_of_char [simp]: "char_of_byte (byte_of_char c) = c"
proof -
  have "unat (of_char c :: u8) = of_char c"
  proof -
    have "(of_char c :: u8) = of_nat (of_char c)" by (simp add: of_nat_of_char)
    then show ?thesis by (simp add: unat_of_nat)
  qed
  then show ?thesis by (simp add: char_of_byte_def byte_of_char_def)
qed

lemma byte_of_char_of_byte [simp]: "byte_of_char (char_of_byte b) = b"
proof -
  have "unat b < 256" using unsigned_less [of b, where 'a = nat] by simp
  then have "(of_nat (of_char (char_of (unat b) :: char)) :: u8) = b" by simp
  then have "of_char (char_of (unat b)) = b" by (simp only: of_nat_of_char)
  then show ?thesis by (simp add: byte_of_char_def char_of_byte_def)
qed

lemma comp_char_byte [simp]:
  "char_of_byte \<circ> byte_of_char = id" "byte_of_char \<circ> char_of_byte = id"
  by (simp_all add: fun_eq_iff)

declare le_word.simps [simp del]

lemma length_le_bytes [simp]: "length (le_bytes n w) = n"
  by (induction n arbitrary: w) auto

lemma le_word_le_bytes: "le_word (le_bytes n w) = take_bit (8 * n) w"
proof (induction n arbitrary: w)
  case (Suc n)
  show ?case
    by (simp add: Suc.IH le_word.simps, rule bit_word_eqI)
       (auto simp: bit_or_iff bit_push_bit_iff bit_take_bit_iff bit_drop_bit_eq bit_ucast_iff)
qed (simp add: le_word.simps)

lemma le_bytes_le_word:
  "8 * length bs \<le> LENGTH('a) \<Longrightarrow> le_bytes (length bs) (le_word bs :: 'a::len word) = bs"
proof (induction bs)
  case (Cons b bs)
  have len: "8 + 8 * length bs \<le> LENGTH('a)" using Cons.prems by simp
  have low: "ucast (ucast b OR push_bit 8 (le_word bs) :: 'a word) = b"
    using len by (intro bit_word_eqI)
      (auto simp: bit_or_iff bit_push_bit_iff bit_ucast_iff dest: bit_imp_le_length)
  have high: "drop_bit 8 (ucast b OR push_bit 8 (le_word bs) :: 'a word)
      = take_bit (LENGTH('a) - 8) (le_word bs)"
    by (intro bit_word_eqI)
      (auto simp: bit_or_iff bit_push_bit_iff bit_ucast_iff bit_drop_bit_eq bit_take_bit_iff
        dest: bit_imp_le_length)
  have cut: "le_bytes n (take_bit k w) = le_bytes n w" if "8 * n \<le> k" for n k and w :: "'a word"
    using that
  proof (induction n arbitrary: k w)
    case (Suc n)
    have "ucast (take_bit k w) = (ucast w :: u8)"
      using Suc.prems by (intro bit_word_eqI) (auto simp: bit_ucast_iff bit_take_bit_iff)
    then show ?case using Suc.IH [of "k - 8" "drop_bit 8 w"] Suc.prems
      by (simp add: drop_bit_take_bit)
  qed simp
  show ?case
    using low high cut [of "length bs" "LENGTH('a) - 8" "le_word bs"] Cons.IH len
    by (simp add: le_word.simps)
qed simp


lemma host_network_64:
  "le_bytes 8 (HostToNetwork64 w) = rev (le_bytes 8 w)"
  "NetworkToHost64 (le_word (rev (le_bytes 8 w))) = w"
proof -
  have swap: "le_bytes 8 (le_word (rev (le_bytes 8 v)) :: u64) = rev (le_bytes 8 v)" for v :: u64
    using le_bytes_le_word [of "rev (le_bytes 8 v)", where 'a = 64] by simp
  show "le_bytes 8 (HostToNetwork64 w) = rev (le_bytes 8 w)"
    by (simp add: HostToNetwork64_def swap)
  show "NetworkToHost64 (le_word (rev (le_bytes 8 w))) = w"
    using le_word_le_bytes [of 8 w] by (simp add: NetworkToHost64_def swap take_bit_word_eq_self)
qed

lemma host_network_16:
  "le_bytes 2 (HostToNetwork16 w) = rev (le_bytes 2 w)"
  "NetworkToHost16 (le_word (rev (le_bytes 2 w))) = w"
proof -
  have swap: "le_bytes 2 (le_word (rev (le_bytes 2 v)) :: u16) = rev (le_bytes 2 v)" for v :: u16
    using le_bytes_le_word [of "rev (le_bytes 2 v)", where 'a = 16] by simp
  show "le_bytes 2 (HostToNetwork16 w) = rev (le_bytes 2 w)"
    by (simp add: HostToNetwork16_def swap)
  show "NetworkToHost16 (le_word (rev (le_bytes 2 w))) = w"
    using le_word_le_bytes [of 2 w] by (simp add: NetworkToHost16_def swap take_bit_word_eq_self)
qed

text \<open>Reading the network order of \<open>n\<close> bytes back gives those bytes again.\<close>

lemma network_bytes_64:
  assumes "length bs = 8"
  shows "rev (le_bytes 8 (NetworkToHost64 (le_word bs))) = bs"
proof -
  have "le_bytes 8 (le_word bs :: u64) = bs" "le_bytes 8 (le_word (rev bs) :: u64) = rev bs"
    using le_bytes_le_word [of bs, where 'a = 64] le_bytes_le_word [of "rev bs", where 'a = 64] assms
    by simp_all
  then show ?thesis by (simp add: NetworkToHost64_def)
qed

lemma network_bytes_16:
  assumes "length bs = 2"
  shows "rev (le_bytes 2 (NetworkToHost16 (le_word bs))) = bs"
proof -
  have "le_bytes 2 (le_word bs :: u16) = bs" "le_bytes 2 (le_word (rev bs) :: u16) = rev bs"
    using le_bytes_le_word [of bs, where 'a = 16] le_bytes_le_word [of "rev bs", where 'a = 16] assms
    by simp_all
  then show ?thesis by (simp add: NetworkToHost16_def)
qed

section \<open>Message types, flags and the message object\<close>

text \<open>\<open>enum class MessageType : uint8_t\<close>: the five enumerators, and the other values the
  underlying byte can hold after a \<open>static_cast\<close>.\<close>

datatype MessageType = Register | Message | Reply | Ack | Unregister | OtherType u8

definition type_byte :: "MessageType \<Rightarrow> u8" where
  "type_byte t = (case t of Register \<Rightarrow> 1 | Message \<Rightarrow> 2 | Reply \<Rightarrow> 3 | Ack \<Rightarrow> 4
     | Unregister \<Rightarrow> 5 | OtherType b \<Rightarrow> b)"

definition type_of_byte :: "u8 \<Rightarrow> MessageType" where
  "type_of_byte b = (if b = 1 then Register else if b = 2 then Message else if b = 3 then Reply
     else if b = 4 then Ack else if b = 5 then Unregister else OtherType b)"

definition proper_type :: "MessageType \<Rightarrow> bool" where
  "proper_type t = (type_of_byte (type_byte t) = t)"

lemma type_byte_of_byte [simp]: "type_byte (type_of_byte b) = b"
  by (simp add: type_byte_def type_of_byte_def)

lemma proper_type_of_byte [simp]: "proper_type (type_of_byte b)"
  by (simp add: proper_type_def)

lemma proper_types [simp]:
  "proper_type Register" "proper_type Message" "proper_type Reply" "proper_type Ack"
  "proper_type Unregister"
  by (simp_all add: proper_type_def type_byte_def type_of_byte_def)

lemma type_of_byte_byte: "proper_type t \<Longrightarrow> type_of_byte (type_byte t) = t"
  by (simp add: proper_type_def)

lemma type_byte_eq_iff:
  "proper_type t \<Longrightarrow> proper_type u \<Longrightarrow> type_byte t = type_byte u \<longleftrightarrow> t = u"
  by (metis type_of_byte_byte)

definition FlagNone :: u8 where "FlagNone = 0"
definition FlagNeedsReply :: u8 where "FlagNeedsReply = push_bit 0 1"
definition FlagNeedsAck :: u8 where "FlagNeedsAck = push_bit 1 1"

record message =
  msg_type :: MessageType
  flags :: u8
  correlation_id :: u64
  sender :: string
  destination :: string
  payload :: bytes

definition default_message :: message where
  "default_message = \<lparr>msg_type = Message, flags = FlagNone, correlation_id = 0, sender = [],
     destination = [], payload = []\<rparr>"

definition HasFlag :: "u8 \<Rightarrow> message \<Rightarrow> bool" where
  "HasFlag flag m = (flags m AND flag \<noteq> 0)"

definition SetFlag :: "u8 \<Rightarrow> message \<Rightarrow> message" where
  "SetFlag flag m = m\<lparr>flags := flags m OR flag\<rparr>"

definition ClearFlag :: "u8 \<Rightarrow> message \<Rightarrow> message" where
  "ClearFlag flag m = m\<lparr>flags := flags m AND NOT flag\<rparr>"

definition NeedsReply :: "message \<Rightarrow> bool" where
  "NeedsReply m = HasFlag FlagNeedsReply m"

definition SetNeedsReply :: "bool \<Rightarrow> message \<Rightarrow> message" where
  "SetNeedsReply value m = (if value then SetFlag FlagNeedsReply m else ClearFlag FlagNeedsReply m)"

definition NeedsAck :: "message \<Rightarrow> bool" where
  "NeedsAck m = HasFlag FlagNeedsAck m"

definition SetNeedsAck :: "bool \<Rightarrow> message \<Rightarrow> message" where
  "SetNeedsAck value m = (if value then SetFlag FlagNeedsAck m else ClearFlag FlagNeedsAck m)"

lemma flag_values: "FlagNone = 0" "FlagNeedsReply = 1" "FlagNeedsAck = 2"
  by (simp_all add: FlagNone_def FlagNeedsReply_def FlagNeedsAck_def)

lemma bit_flags:
  "bit FlagNeedsReply n \<longleftrightarrow> n = 0" "bit FlagNeedsAck n \<longleftrightarrow> n = 1"
  using bit_exp_iff [of 1 n, where 'a = u8] by (auto simp: flag_values bit_1_iff dest: bit_imp_le_length)

lemma and_bit:
  fixes w f :: u8
  assumes f: "\<And>n. bit f n \<longleftrightarrow> n = k"
  shows "(w AND f \<noteq> 0) = bit w k"
proof
  assume "w AND f \<noteq> 0"
  then obtain n where "bit (w AND f) n" using bit_word_eqI [of "w AND f" 0] by auto
  then show "bit w k" by (auto simp add: bit_and_iff f)
next
  assume "bit w k"
  then have "bit (w AND f) k" by (simp add: bit_and_iff f)
  then show "w AND f \<noteq> 0" by auto
qed

lemmas and_flag = and_bit [OF bit_flags(1)] and_bit [OF bit_flags(2)]

lemma needs_bits: "NeedsReply m = bit (flags m) 0" "NeedsAck m = bit (flags m) 1"
  by (simp_all add: NeedsReply_def NeedsAck_def HasFlag_def and_flag)

section \<open>Serialization\<close>

definition PROTOCOL_VERSION :: u8 where "PROTOCOL_VERSION = 1"
definition HEADER_SIZE :: nat where "HEADER_SIZE = 15"

definition Serialize :: "message \<Rightarrow> exn + bytes" where
  "Serialize m =
    (if length (sender m) > 255
     then Inl (RuntimeError ''Sender name too long (max 255 bytes)'')
     else if length (destination m) > 255
     then Inl (RuntimeError ''Destination name too long (max 255 bytes)'')
     else if length (payload m) > 65535
     then Inl (RuntimeError ''Payload too large (max 65535 bytes)'')
     else let
       buffer = [PROTOCOL_VERSION, type_byte (msg_type m), flags m];
       net_corr = HostToNetwork64 (correlation_id m);
       buffer = buffer @ le_bytes 8 net_corr;
       buffer = buffer @ [word_of_nat (length (sender m))];
       buffer = buffer @ [word_of_nat (length (destination m))];
       net_payload_len = HostToNetwork16 (word_of_nat (length (payload m)));
       buffer = buffer @ le_bytes 2 net_payload_len;
       buffer = buffer @ map byte_of_char (sender m);
       buffer = buffer @ map byte_of_char (destination m);
       buffer = buffer @ payload m
     in Inr buffer)"

fun decimal :: "nat \<Rightarrow> string" where
  "decimal n = (if n < 10 then [char_of (48 + n)] else decimal (n div 10) @ [char_of (48 + n mod 10)])"

declare decimal.simps [simp del]

definition Deserialize :: "bytes \<Rightarrow> exn + message" where
  "Deserialize data =
    (if length data < HEADER_SIZE then Inl (RuntimeError ''Message too short'')
     else let
       pos = 0;
       version = data ! pos; pos = pos + 1
     in if version \<noteq> PROTOCOL_VERSION
     then Inl (RuntimeError (''Unsupported protocol version: '' @ decimal (unat version)))
     else let
       t = type_of_byte (data ! pos); pos = pos + 1;
       f = data ! pos; pos = pos + 1;
       net_corr = le_word (take 8 (drop pos data));
       corr = NetworkToHost64 net_corr; pos = pos + 8;
       sender_len = unat (data ! pos); pos = pos + 1;
       dest_len = unat (data ! pos); pos = pos + 1;
       net_payload_len = le_word (take 2 (drop pos data));
       payload_len = unat (NetworkToHost16 net_payload_len); pos = pos + 2
     in if length data \<noteq> HEADER_SIZE + sender_len + dest_len + payload_len
     then Inl (RuntimeError ''Message size mismatch'')
     else let
       snd = map char_of_byte (take sender_len (drop pos data)); pos = pos + sender_len;
       dst = map char_of_byte (take dest_len (drop pos data)); pos = pos + dest_len;
       pay = take payload_len (drop pos data)
     in Inr \<lparr>msg_type = t, flags = f, correlation_id = corr, sender = snd,
          destination = dst, payload = pay\<rparr>)"

definition type_name :: "MessageType \<Rightarrow> string" where
  "type_name t = (case t of Register \<Rightarrow> ''Register'' | Message \<Rightarrow> ''Message'' | Reply \<Rightarrow> ''Reply''
     | Ack \<Rightarrow> ''Ack'' | Unregister \<Rightarrow> ''Unregister'' | OtherType b \<Rightarrow> decimal (unat b))"

definition ToString :: "message \<Rightarrow> string" where
  "ToString m = ''Message{type='' @ type_name (msg_type m) @ '', flags='' @ decimal (unat (flags m))
     @ '', corr_id='' @ decimal (unat (correlation_id m)) @ '', sender='' @ sender m
     @ '', dest='' @ destination m @ '', payload_size='' @ decimal (length (payload m)) @ ''}''"

section \<open>The documented wire format\<close>

text \<open>The frame of docs/api-documentation.md: a 15-byte header with multi-byte fields in
  network (big-endian) order, then sender, destination and payload.\<close>

definition big_endian :: "nat \<Rightarrow> 'a::len word \<Rightarrow> bytes" where
  "big_endian n w = rev (le_bytes n w)"

definition wire_format :: "message \<Rightarrow> bytes" where
  "wire_format m = [1, type_byte (msg_type m), flags m] @ big_endian 8 (correlation_id m)
     @ [word_of_nat (length (sender m)), word_of_nat (length (destination m))]
     @ big_endian 2 (word_of_nat (length (payload m)) :: u16)
     @ map byte_of_char (sender m) @ map byte_of_char (destination m) @ payload m"

definition fits_frame :: "message \<Rightarrow> bool" where
  "fits_frame m = (length (sender m) \<le> 255 \<and> length (destination m) \<le> 255
     \<and> length (payload m) \<le> 65535)"

lemma Serialize_fits: "fits_frame m \<Longrightarrow> Serialize m = Inr (wire_format m)"
  by (simp add: Serialize_def fits_frame_def wire_format_def big_endian_def Let_def
      host_network_64 host_network_16 PROTOCOL_VERSION_def)

lemma Serialize_Inr_iff: "Serialize m = Inr bs \<longleftrightarrow> fits_frame m \<and> bs = wire_format m"
proof (cases "fits_frame m")
  case True
  then show ?thesis by (auto simp: Serialize_fits)
next
  case False
  then show ?thesis by (auto simp: Serialize_def fits_frame_def)
qed

lemma length_wire_format [simp]:
  "length (wire_format m) = 15 + length (sender m) + length (destination m) + length (payload m)"
  by (simp add: wire_format_def big_endian_def)

lemma length_bytes:
  "n \<le> 255 \<Longrightarrow> unat (word_of_nat n :: u8) = n" "n \<le> 65535 \<Longrightarrow> unat (word_of_nat n :: u16) = n"
  by (simp_all add: unat_of_nat)

lemma drop_header: "drop (15 + n) xs = drop n (drop 15 xs)" for xs :: "'a list"
  by (simp add: add.commute)

lemma header_cases:
  assumes "15 \<le> length bs"
  obtains b0 b1 b2 b3 b4 b5 b6 b7 b8 b9 b10 b11 b12 b13 b14 rest
  where "bs = [b0, b1, b2, b3, b4, b5, b6, b7, b8, b9, b10, b11, b12, b13, b14] @ rest"
  using assms by (auto simp: numeral_eq_Suc Suc_le_length_iff)

lemma Deserialize_wire_format:
  assumes "fits_frame m" "proper_type (msg_type m)"
  shows "Deserialize (wire_format m) = Inr m"
proof -
  obtain c0 c1 c2 c3 c4 c5 c6 c7 where c: "big_endian 8 (correlation_id m) = [c0, c1, c2, c3, c4, c5, c6, c7]"
    by (simp add: big_endian_def numeral_eq_Suc)
  obtain l0 l1 where l: "big_endian 2 (word_of_nat (length (payload m)) :: u16) = [l0, l1]"
    by (simp add: big_endian_def numeral_eq_Suc)
  have corr: "NetworkToHost64 (le_word [c0, c1, c2, c3, c4, c5, c6, c7]) = correlation_id m"
    using host_network_64(2) [of "correlation_id m"] c by (simp add: big_endian_def)
  have len: "unat (NetworkToHost16 (le_word [l0, l1])) = length (payload m)"
    using host_network_16(2) [of "word_of_nat (length (payload m))"] l assms(1)
    by (simp add: big_endian_def length_bytes fits_frame_def)
  show ?thesis
    using assms length_wire_format [of m]
    by (simp add: Deserialize_def wire_format_def c l corr len Let_def HEADER_SIZE_def
        PROTOCOL_VERSION_def type_of_byte_byte length_bytes fits_frame_def drop_header add.assoc
        del: drop_drop)
qed

lemma Deserialize_Inr:
  assumes "Deserialize bs = Inr m"
  shows "fits_frame m \<and> proper_type (msg_type m) \<and> bs = wire_format m"
proof -
  have "15 \<le> length bs" using assms by (auto simp: Deserialize_def HEADER_SIZE_def split: if_splits)
  then obtain b0 b1 b2 b3 b4 b5 b6 b7 b8 b9 b10 b11 b12 b13 b14 rest
    where bs: "bs = [b0, b1, b2, b3, b4, b5, b6, b7, b8, b9, b10, b11, b12, b13, b14] @ rest"
    by (rule header_cases)
  have corr: "rev (le_bytes 8 (NetworkToHost64 (le_word [b3, b4, b5, b6, b7, b8, b9, b10])))
      = [b3, b4, b5, b6, b7, b8, b9, b10]"
    by (rule network_bytes_64) simp
  have len: "rev (le_bytes 2 (NetworkToHost16 (le_word [b13, b14]))) = [b13, b14]"
    by (rule network_bytes_16) simp
  have bound: "unat b11 \<le> 255" "unat b12 \<le> 255" "unat (NetworkToHost16 (le_word [b13, b14])) \<le> 65535"
    using unsigned_less [of b11, where 'a = nat] unsigned_less [of b12, where 'a = nat]
      unsigned_less [of "NetworkToHost16 (le_word [b13, b14])", where 'a = nat] by simp_all
  have split: "rest = take a rest @ take b (drop a rest) @ drop (a + b) rest" for a b
    by (metis append_take_drop_id drop_drop add.commute)
  show ?thesis
    using assms corr len bound split
    by (auto simp: bs Deserialize_def wire_format_def big_endian_def Let_def HEADER_SIZE_def
        PROTOCOL_VERSION_def fits_frame_def drop_header add.assoc
        split: if_splits)
qed

end
