(* ===== verification/Codec.thy ===== *)
theory Codec
  imports Message
begin

text \<open>
  The contract of the wire codec, as the server and its clients rely on it: decoding inverts
  encoding, and a frame that decodes is the encoding of what it decodes to. \<open>Serialize\<close> and
  \<open>Deserialize\<close> of src/message.cpp meet it.
\<close>

section \<open>The contract\<close>

locale wire_codec =
  fixes encode :: "'m \<Rightarrow> 'e + bytes"
    and decode :: "bytes \<Rightarrow> 'e + 'm"
    and valid :: "'m \<Rightarrow> bool"
  assumes decode_encode: "valid m \<Longrightarrow> encode m = Inr bs \<Longrightarrow> decode bs = Inr m"
    and encode_decode: "decode bs = Inr m \<Longrightarrow> valid m \<and> encode m = Inr bs"
begin

lemma decode_unique: "decode bs = Inr m \<Longrightarrow> decode cs = Inr m \<Longrightarrow> bs = cs"
  using encode_decode [of bs m] encode_decode [of cs m] by simp

lemma encode_unique:
  "valid m \<Longrightarrow> valid n \<Longrightarrow> encode m = Inr bs \<Longrightarrow> encode n = Inr bs \<Longrightarrow> m = n"
  using decode_encode [of m bs] decode_encode [of n bs] by simp

lemma accepted_iff: "(\<exists>m. decode bs = Inr m) \<longleftrightarrow> (\<exists>m. valid m \<and> encode m = Inr bs)"
  using decode_encode encode_decode by blast

end

interpretation codec: wire_codec Serialize Deserialize "\<lambda>m. proper_type (msg_type m)"
  by unfold_locales (auto simp: Serialize_Inr_iff Deserialize_wire_format dest!: Deserialize_Inr)

lemma le_bytes_div:
  "le_bytes n w = map (\<lambda>i. word_of_nat (unat w div 256 ^ i)) [0..<n]" for w :: "'a::len word"
proof (induction n arbitrary: w)
  case (Suc n)
  have "drop_bit 8 (unat w) = unat w div 256" by (simp add: drop_bit_eq_div)
  then have "unat (drop_bit 8 w) = unat w div 256" by (simp only: unat_drop_bit_eq)
  moreover have "ucast w = (word_of_nat (unat w) :: u8)" by simp
  moreover have "[0..<Suc n] = 0 # map Suc [0..<n]" by (simp add: map_Suc_upt upt_conv_Cons del: upt_Suc)
  ultimately show ?case by (simp add: Suc.IH div_mult2_eq del: upt_Suc)
qed simp

lemma big_endian_div:
  "big_endian n w = map (\<lambda>i. word_of_nat (unat w div 256 ^ (n - 1 - i))) [0..<n]" for w :: "'a::len word"
  by (rule nth_equalityI) (simp_all add: big_endian_def le_bytes_div rev_nth)

lemma read_network16: "unat (NetworkToHost16 (le_word [a, b])) = 256 * unat a + unat b"
proof -
  define n where "n = 256 * unat a + unat b"
  have lt: "unat a < 256" "unat b < 256"
    using unsigned_less [of a, where 'a = nat] unsigned_less [of b, where 'a = nat] by simp_all
  then have n: "unat (word_of_nat n :: u16) = n" by (intro length_bytes) (simp add: n_def)
  have "n div 256 = unat a" using lt by (simp add: n_def)
  moreover have "256 * c = 0" for c :: u8
  proof -
    have "(256 :: u8) = 0" by simp
    then show ?thesis by (simp only: mult_zero_left)
  qed
  then have "(word_of_nat n :: u8) = b" by (simp add: n_def)
  ultimately have "le_bytes 2 (word_of_nat n :: u16) = [b, a]"
    by (simp add: le_bytes_div n numeral_2_eq_2)
  then have "(le_word [b, a] :: u16) = word_of_nat n"
    using le_word_le_bytes [of 2 "word_of_nat n :: u16"] by (simp add: take_bit_word_eq_self)
  moreover have "le_bytes 2 (le_word [a, b] :: u16) = [a, b]"
    using le_bytes_le_word [of "[a, b]", where 'a = 16] by (simp add: numeral_2_eq_2)
  ultimately show ?thesis using n by (simp add: NetworkToHost16_def n_def)
qed

section \<open>Properties\<close>

definition sample_message :: message where
  "sample_message = \<lparr>msg_type = Reply, flags = FlagNeedsAck, correlation_id = 258, sender = ''al'',
     destination = ''bob'', payload = [1, 2, 255]\<rparr>"

definition sample_frame :: bytes where
  "sample_frame = [1, 3, 2, 0, 0, 0, 0, 0, 0, 1, 2, 2, 3, 0, 3, 97, 108, 98, 111, 98, 1, 2, 255]"

lemma sample_serialized: "Serialize sample_message = Inr sample_frame"
  by (simp add: sample_message_def sample_frame_def Serialize_fits fits_frame_def wire_format_def
      big_endian_div upt_rec flag_values type_byte_def byte_of_char_def)

text \<open>C11. Round trip of a message: what \<open>Serialize\<close> produces for a message of a defined type,
  \<open>Deserialize\<close> reads back as the same message, every field included.\<close>

theorem message_roundtrip:
  assumes "proper_type (msg_type m)" "Serialize m = Inr bs"
  shows "Deserialize bs = Inr m"
  by (rule codec.decode_encode [OF assms])

theorem message_roundtrip_witness: "Deserialize sample_frame = Inr sample_message"
  by (rule message_roundtrip [OF _ sample_serialized]) (simp add: sample_message_def)

text \<open>C12. Frames are canonical: a frame that \<open>Deserialize\<close> accepts is byte for byte what
  \<open>Serialize\<close> produces for the message read from it, and no other frame reads as that message.\<close>

theorem frame_canonical:
  assumes "Deserialize bs = Inr m"
  shows "Serialize m = Inr bs \<and> (\<forall>cs. Deserialize cs = Inr m \<longrightarrow> cs = bs)"
  using codec.encode_decode [OF assms] codec.decode_unique [OF _ assms] by blast

theorem frame_canonical_witness:
  "Serialize sample_message = Inr sample_frame \<and> Deserialize (sample_frame @ [0]) \<noteq> Inr sample_message"
proof -
  have "Deserialize sample_frame = Inr sample_message"
    by (rule codec.decode_encode [OF _ sample_serialized]) (simp add: sample_message_def)
  then show ?thesis using frame_canonical [of sample_frame sample_message] by auto
qed

text \<open>C13. The frame is the documented one: version 1, type, flags, the correlation id in big-endian
  order, the two name lengths, the payload length in big-endian order, then the two names and
  the payload; it is refused with the documented error exactly when a name is longer than 255
  bytes or the payload longer than 65535.\<close>

theorem serialize_layout:
  "Serialize m =
    (if length (sender m) > 255 then Inl (RuntimeError ''Sender name too long (max 255 bytes)'')
     else if length (destination m) > 255
     then Inl (RuntimeError ''Destination name too long (max 255 bytes)'')
     else if length (payload m) > 65535 then Inl (RuntimeError ''Payload too large (max 65535 bytes)'')
     else Inr ([1, type_byte (msg_type m), flags m]
        @ map (\<lambda>i. word_of_nat (unat (correlation_id m) div 256 ^ (7 - i))) [0..<8]
        @ [word_of_nat (length (sender m)), word_of_nat (length (destination m)),
           word_of_nat (length (payload m) div 256), word_of_nat (length (payload m))]
        @ map byte_of_char (sender m) @ map byte_of_char (destination m) @ payload m))"
proof -
  have "big_endian 2 (word_of_nat n :: u16) = [word_of_nat (n div 256), word_of_nat n]" if "n \<le> 65535" for n
    using length_bytes(2) [OF that] by (simp add: big_endian_div numeral_2_eq_2)
  then have "fits_frame m \<Longrightarrow> ?thesis"
    by (simp add: Serialize_fits) (simp add: fits_frame_def wire_format_def big_endian_div)
  moreover have "\<not> fits_frame m \<Longrightarrow> ?thesis" by (auto simp: fits_frame_def Serialize_def)
  ultimately show ?thesis by blast
qed

text \<open>C14. What \<open>Deserialize\<close> refuses and why: a frame shorter than the header, then any version
  but 1, then a size that differs from the header plus the three lengths it announces (the
  names at bytes 11 and 12, the payload big-endian at 13 and 14); everything else is accepted.\<close>

theorem deserialize_refusals:
  "(case Deserialize bs of
      Inl e \<Rightarrow> e = RuntimeError (if length bs < 15 then ''Message too short''
        else if bs ! 0 \<noteq> 1 then ''Unsupported protocol version: '' @ decimal (unat (bs ! 0))
        else ''Message size mismatch'')
    | Inr m \<Rightarrow> True)
   \<and> ((\<exists>m. Deserialize bs = Inr m) \<longleftrightarrow> 15 \<le> length bs \<and> bs ! 0 = 1
      \<and> length bs = 15 + unat (bs ! 11) + unat (bs ! 12) + (256 * unat (bs ! 13) + unat (bs ! 14)))"
proof (cases "15 \<le> length bs")
  case True
  then obtain b0 b1 b2 b3 b4 b5 b6 b7 b8 b9 b10 b11 b12 b13 b14 rest
    where bs: "bs = [b0, b1, b2, b3, b4, b5, b6, b7, b8, b9, b10, b11, b12, b13, b14] @ rest"
    by (rule header_cases)
  show ?thesis unfolding bs
    by (auto simp: Deserialize_def Let_def HEADER_SIZE_def PROTOCOL_VERSION_def read_network16)
qed (auto simp: Deserialize_def HEADER_SIZE_def)

text \<open>The flag setters change one bit: after \<open>SetNeedsAck\<close> the message needs an
  acknowledgement just when asked to, the other flag and the rest of the message are as
  before; the same for \<open>SetNeedsReply\<close>.\<close>

theorem flag_setters:
  "NeedsAck (SetNeedsAck b m) = b \<and> NeedsReply (SetNeedsAck b m) = NeedsReply m
   \<and> NeedsReply (SetNeedsReply b m) = b \<and> NeedsAck (SetNeedsReply b m) = NeedsAck m
   \<and> (SetNeedsAck b m)\<lparr>flags := flags m\<rparr> = m \<and> (SetNeedsReply b m)\<lparr>flags := flags m\<rparr> = m"
  by (simp add: needs_bits SetNeedsAck_def SetNeedsReply_def SetFlag_def ClearFlag_def bit_or_iff
      bit_and_iff bit_not_iff bit_flags)

end
