(* ===== verification/Client_Codec.thy ===== *)
theory Client_Codec
  imports Codec
begin

text \<open>
  The codec of the example client, examples/universal_client.cpp. The client has its own class
  \<open>Message\<close> with the fields, enumerators and flags of the broker's, so the type \<^typ>\<open>message\<close> stands
  for both; its \<open>Serialize\<close> and \<open>Deserialize\<close> are a second implementation of the wire format.
\<close>

section \<open>The client's code\<close>

text \<open>\<open>__builtin_bswap64\<close>.\<close>

definition bswap64 :: "u64 \<Rightarrow> u64" where
  "bswap64 w = le_word (rev (le_bytes 8 w))"

definition client_HostToNetwork64 :: "u64 \<Rightarrow> u64" where
  "client_HostToNetwork64 host = bswap64 host"

definition client_NetworkToHost64 :: "u64 \<Rightarrow> u64" where
  "client_NetworkToHost64 net = bswap64 net"

definition client_HostToNetwork16 :: "u16 \<Rightarrow> u16" where
  "client_HostToNetwork16 host = le_word (rev (le_bytes 2 host))"

definition client_NetworkToHost16 :: "u16 \<Rightarrow> u16" where
  "client_NetworkToHost16 net = le_word (rev (le_bytes 2 net))"

definition client_Serialize :: "message \<Rightarrow> exn + bytes" where
  "client_Serialize m =
    (if length (sender m) > 255 \<or> length (destination m) > 255 then Inl (RuntimeError ''Name too long'')
     else let
       buffer = [1, type_byte (msg_type m), flags m];
       net_corr = client_HostToNetwork64 (correlation_id m);
       buffer = buffer @ le_bytes 8 net_corr;
       buffer = buffer @ [word_of_nat (length (sender m))];
       buffer = buffer @ [word_of_nat (length (destination m))];
       net_payload_len = client_HostToNetwork16 (word_of_nat (length (payload m)));
       buffer = buffer @ le_bytes 2 net_payload_len;
       buffer = buffer @ map byte_of_char (sender m);
       buffer = buffer @ map byte_of_char (destination m);
       buffer = buffer @ payload m
     in Inr buffer)"

definition client_Deserialize :: "bytes \<Rightarrow> exn + message" where
  "client_Deserialize data =
    (if length data < 15 then Inl (RuntimeError ''Message too short'')
     else let
       pos = 0;
       version = data ! pos; pos = pos + 1
     in if version \<noteq> 1 then Inl (RuntimeError ''Wrong protocol version'')
     else let
       t = type_of_byte (data ! pos); pos = pos + 1;
       f = data ! pos; pos = pos + 1;
       net_corr = le_word (take 8 (drop pos data));
       corr = client_NetworkToHost64 net_corr; pos = pos + 8;
       sender_len = unat (data ! pos); pos = pos + 1;
       dest_len = unat (data ! pos); pos = pos + 1;
       net_payload_len = le_word (take 2 (drop pos data));
       payload_len = unat (client_NetworkToHost16 net_payload_len); pos = pos + 2
     in if length data \<noteq> 15 + sender_len + dest_len + payload_len
     then Inl (RuntimeError ''Message size mismatch'')
     else let
       snd = map char_of_byte (take sender_len (drop pos data)); pos = pos + sender_len;
       dst = map char_of_byte (take dest_len (drop pos data)); pos = pos + dest_len;
       pay = take payload_len (drop pos data)
     in Inr \<lparr>msg_type = t, flags = f, correlation_id = corr, sender = snd,
          destination = dst, payload = pay\<rparr>)"

definition PayloadToString :: "message \<Rightarrow> string" where
  "PayloadToString m = map char_of_byte (payload m)"

definition client_ToString :: "message \<Rightarrow> string" where
  "client_ToString m = ''Message{type='' @ (case msg_type m of Register \<Rightarrow> ''Register'' | Message \<Rightarrow> ''Message''
       | Reply \<Rightarrow> ''Reply'' | Ack \<Rightarrow> ''Ack'' | Unregister \<Rightarrow> ''Unregister'' | OtherType b \<Rightarrow> decimal (unat b))
     @ '', flags='' @ decimal (unat (flags m)) @ '', corr_id='' @ decimal (unat (correlation_id m))
     @ '', sender='' @ sender m @ '', dest='' @ destination m
     @ '', payload_size='' @ decimal (length (payload m)) @ ''}''"

section \<open>Against the broker's codec\<close>

lemma client_network:
  "client_HostToNetwork64 = HostToNetwork64" "client_NetworkToHost64 = NetworkToHost64"
  "client_HostToNetwork16 = HostToNetwork16" "client_NetworkToHost16 = NetworkToHost16"
  by (simp_all add: fun_eq_iff client_HostToNetwork64_def client_NetworkToHost64_def bswap64_def
      client_HostToNetwork16_def client_NetworkToHost16_def HostToNetwork64_def NetworkToHost64_def
      HostToNetwork16_def NetworkToHost16_def)

definition names_fit :: "message \<Rightarrow> bool" where
  "names_fit m = (length (sender m) \<le> 255 \<and> length (destination m) \<le> 255)"

lemma client_Serialize_eq:
  "client_Serialize m = (if names_fit m then Inr (wire_format m) else Inl (RuntimeError ''Name too long''))"
  by (simp add: client_Serialize_def client_network names_fit_def wire_format_def big_endian_def Let_def
      host_network_64 host_network_16)

lemma client_Deserialize_eq:
  "client_Deserialize bs = (case Deserialize bs of Inr m \<Rightarrow> Inr m
     | Inl e \<Rightarrow> if length bs \<ge> 15 \<and> bs ! 0 \<noteq> 1 then Inl (RuntimeError ''Wrong protocol version'') else Inl e)"
proof (cases "15 \<le> length bs")
  case True
  then obtain b0 b1 b2 b3 b4 b5 b6 b7 b8 b9 b10 b11 b12 b13 b14 rest
    where bs: "bs = [b0, b1, b2, b3, b4, b5, b6, b7, b8, b9, b10, b11, b12, b13, b14] @ rest"
    by (rule header_cases)
  show ?thesis unfolding bs
    by (cases "b0 = 1") (simp_all add: client_Deserialize_def Deserialize_def client_network HEADER_SIZE_def
        PROTOCOL_VERSION_def Let_def)
qed (simp add: client_Deserialize_def Deserialize_def HEADER_SIZE_def)

lemma client_Deserialize_Inr: "client_Deserialize bs = Inr m \<longleftrightarrow> Deserialize bs = Inr m"
  by (simp add: client_Deserialize_eq split: sum.split)

text \<open>The client's codec meets the contract for payloads whose length fits its field.\<close>

interpretation client_codec: wire_codec client_Serialize client_Deserialize
  "\<lambda>m. proper_type (msg_type m) \<and> length (payload m) \<le> 65535"
proof
  fix m bs assume "proper_type (msg_type m) \<and> length (payload m) \<le> 65535" "client_Serialize m = Inr bs"
  then show "client_Deserialize bs = Inr m"
    by (auto simp: client_Deserialize_Inr client_Serialize_eq names_fit_def fits_frame_def split: if_splits
        intro!: Deserialize_wire_format)
next
  fix m bs assume "client_Deserialize bs = Inr m"
  then show "(proper_type (msg_type m) \<and> length (payload m) \<le> 65535) \<and> client_Serialize m = Inr bs"
    by (auto simp: client_Deserialize_Inr client_Serialize_eq names_fit_def fits_frame_def dest!: Deserialize_Inr)
qed

text \<open>A payload that is too long leaves a frame whose announced length is short.\<close>

lemma oversized_frame:
  assumes "names_fit m" "length (payload m) > 65535"
  shows "Deserialize (wire_format m) = Inl (RuntimeError ''Message size mismatch'')"
proof -
  obtain c0 c1 c2 c3 c4 c5 c6 c7 where c: "big_endian 8 (correlation_id m) = [c0, c1, c2, c3, c4, c5, c6, c7]"
    by (simp add: big_endian_def numeral_eq_Suc)
  obtain l0 l1 where l: "big_endian 2 (word_of_nat (length (payload m)) :: u16) = [l0, l1]"
    by (simp add: big_endian_def numeral_eq_Suc)
  have "unat (NetworkToHost16 (le_word [l0, l1])) < 65536"
    using unsigned_less [of "NetworkToHost16 (le_word [l0, l1])", where 'a = nat] by simp
  then have "length (payload m) \<noteq> unat (NetworkToHost16 (le_word [l0, l1]))" using assms(2) by simp
  then show ?thesis using assms(1) length_wire_format [of m]
    by (simp add: Deserialize_def wire_format_def c l Let_def HEADER_SIZE_def PROTOCOL_VERSION_def
        length_bytes names_fit_def)
qed

section \<open>Properties\<close>

text \<open>C34. Client and broker speak the same format: what the client serializes, the broker reads as the
  client's message, and what the broker serializes, the client reads as the broker's, for every
  message of a defined type whose payload is at most 65535 bytes; both accept the same frames.\<close>

theorem client_speaks_format:
  assumes "proper_type (msg_type m)" "length (payload m) \<le> 65535"
  shows "(case client_Serialize m of Inr bs \<Rightarrow> Deserialize bs = Inr m | Inl e \<Rightarrow> length (sender m) > 255 \<or> length (destination m) > 255)
    \<and> (case Serialize m of Inr bs \<Rightarrow> client_Deserialize bs = Inr m | Inl e \<Rightarrow> length (sender m) > 255 \<or> length (destination m) > 255)
    \<and> (client_Deserialize cs = Inr m \<longleftrightarrow> Deserialize cs = Inr m)"
proof (cases "names_fit m")
  case True
  then have fits: "fits_frame m" using assms(2) by (simp add: names_fit_def fits_frame_def)
  then have "Deserialize (wire_format m) = Inr m" using assms(1) by (rule Deserialize_wire_format)
  then show ?thesis using True fits by (simp add: client_Serialize_eq Serialize_fits client_Deserialize_Inr)
next
  case False
  then have "\<not> fits_frame m" by (auto simp: names_fit_def fits_frame_def)
  then show ?thesis using False
    by (cases "Serialize m") (auto simp: assms(2) client_Serialize_eq client_Deserialize_Inr names_fit_def Serialize_Inr_iff)
qed

theorem client_speaks_format_witness:
  "Deserialize sample_frame = Inr sample_message \<and> client_Deserialize sample_frame = Inr sample_message"
proof -
  have m: "proper_type (msg_type sample_message)" "length (payload sample_message) \<le> 65535"
    by (simp_all add: sample_message_def)
  show ?thesis using client_speaks_format [OF m, of sample_frame] unfolding sample_serialized sum.case by blast
qed

text \<open>A payload of more than 65535 bytes, which the broker refuses to serialize, the client sends:
  the frame announces a length modulo 65536, and the broker refuses it, so the message is lost
  without an error at its sender.\<close>

theorem oversized_payload_lost:
  assumes "length (payload m) > 65535" "length (sender m) \<le> 255" "length (destination m) \<le> 255"
  shows "client_Serialize m = Inr (wire_format m)
    \<and> Serialize m = Inl (RuntimeError ''Payload too large (max 65535 bytes)'')
    \<and> Deserialize (wire_format m) = Inl (RuntimeError ''Message size mismatch'')"
  using assms oversized_frame [of m] by (simp add: client_Serialize_eq names_fit_def Serialize_def)

theorem oversized_payload_lost_witness:
  "Deserialize (wire_format (sample_message\<lparr>payload := replicate 65536 0\<rparr>)) = Inl (RuntimeError ''Message size mismatch'')"
  using oversized_payload_lost [of "sample_message\<lparr>payload := replicate 65536 0\<rparr>"]
  by (simp add: sample_message_def)

end
