(* ===== verification/Text_Input.thy ===== *)
theory Text_Input
  imports Message
begin

text \<open>
  Reading text the way the sources do: words of a line with \<open>operator>>\<close> and \<open>std::getline\<close>,
  numbers with \<open>std::stoi\<close> and \<open>std::stoull\<close>, in the \<open>C\<close> locale.
\<close>

section \<open>Words\<close>

definition is_space :: "char \<Rightarrow> bool" where
  "is_space c = (c = CHR '' '' \<or> (9 \<le> (of_char c :: nat) \<and> of_char c \<le> (13 :: nat)))"

text \<open>\<open>iss >> word\<close>: the word and what is left of the stream.\<close>

definition extract_word :: "string \<Rightarrow> string \<times> string" where
  "extract_word input = (let s = dropWhile is_space input in
     (takeWhile (\<lambda>c. \<not> is_space c) s, dropWhile (\<lambda>c. \<not> is_space c) s))"

lemma extract_word_word:
  assumes "\<not> list_ex is_space w" "w \<noteq> []" "r = [] \<or> is_space (hd r)"
  shows "extract_word (w @ r) = (w, r)"
proof -
  have all: "\<And>c. c \<in> set w \<Longrightarrow> \<not> is_space c" using assms(1) by (auto simp: list_ex_iff)
  have "dropWhile is_space (w @ r) = w @ r" using assms(2) all by (cases w) simp_all
  moreover have "takeWhile (\<lambda>c. \<not> is_space c) (w @ r) = w" "dropWhile (\<lambda>c. \<not> is_space c) (w @ r) = r"
    using all assms(3) by (cases r; auto simp: takeWhile_append2 dropWhile_append2)+
  ultimately show ?thesis by (simp add: extract_word_def)
qed

lemma extract_word_spaces: "is_space c \<Longrightarrow> extract_word (c # s) = extract_word s"
  by (simp add: extract_word_def)

section \<open>Numbers\<close>

definition is_digit :: "char \<Rightarrow> bool" where
  "is_digit c = (48 \<le> (of_char c :: nat) \<and> of_char c \<le> (57 :: nat))"

definition digits_value :: "string \<Rightarrow> nat" where
  "digits_value ds = foldl (\<lambda>v c. 10 * v + (of_char c - 48)) 0 ds"

text \<open>What \<open>strtol\<close> and \<open>strtoull\<close> read in base ten: white space, a sign, digits; \<open>None\<close> when there
  is no digit. What follows the digits is ignored.\<close>

definition scan_number :: "string \<Rightarrow> (bool \<times> string) option" where
  "scan_number s = (let
     t = dropWhile is_space s;
     negative = (t \<noteq> [] \<and> hd t = CHR ''-'');
     u = (if t \<noteq> [] \<and> (hd t = CHR ''-'' \<or> hd t = CHR ''+'') then tl t else t);
     ds = takeWhile is_digit u
   in if ds = [] then None else Some (negative, ds))"

definition stoi :: "string \<Rightarrow> exn + int" where
  "stoi s = (case scan_number s of None \<Rightarrow> Inl InvalidArgument
     | Some (negative, ds) \<Rightarrow> let v = (if negative then - int (digits_value ds) else int (digits_value ds)) in
         if v < -2147483648 \<or> 2147483647 < v then Inl OutOfRange else Inr v)"

definition stoull :: "string \<Rightarrow> exn + u64" where
  "stoull s = (case scan_number s of None \<Rightarrow> Inl InvalidArgument
     | Some (negative, ds) \<Rightarrow> let v = digits_value ds in
         if v \<ge> 2 ^ 64 then Inl OutOfRange
         else Inr (if negative then - word_of_nat v else word_of_nat v))"

subsection \<open>Reading what was printed\<close>

lemma of_char_digit: "n < 10 \<Longrightarrow> (of_char (char_of (48 + n) :: char) :: nat) = 48 + n"
  by (simp add: of_char_of)

lemma decimal_digits: "decimal n \<noteq> [] \<and> list_all is_digit (decimal n)"
proof (induction n rule: decimal.induct)
  case (1 n)
  have digit: "is_digit (char_of (48 + k))" if "k < 10" for k :: nat
    using that by (simp add: is_digit_def of_char_digit)
  show ?case using 1 digit [of n] digit [of "n mod 10"] by (subst (1 2) decimal.simps) simp
qed

lemma digits_value_decimal [simp]: "digits_value (decimal n) = n"
proof (induction n rule: decimal.induct)
  case (1 n)
  show ?case
  proof (cases "n < 10")
    case True
    then show ?thesis by (subst decimal.simps) (simp add: digits_value_def of_char_digit)
  next
    case False
    have "(of_char (char_of (48 + n mod 10) :: char) :: nat) = 48 + n mod 10" by (rule of_char_digit) simp
    then show ?thesis using 1 [OF False] False by (subst decimal.simps) (simp add: digits_value_def)
  qed
qed

lemma digit_plain: "is_digit c \<Longrightarrow> \<not> is_space c \<and> c \<noteq> CHR ''-'' \<and> c \<noteq> CHR ''+''"
  by (auto simp: is_digit_def is_space_def)

lemma scan_decimal:
  assumes "r = [] \<or> \<not> is_digit (hd r)"
  shows "scan_number (decimal n @ r) = Some (False, decimal n)"
    and "scan_number (CHR ''-'' # decimal n @ r) = Some (True, decimal n)"
proof -
  obtain c cs where d: "decimal n = c # cs" using decimal_digits [of n] by (cases "decimal n") auto
  have all: "\<And>x. x \<in> set (decimal n) \<Longrightarrow> is_digit x" using decimal_digits [of n] by (auto simp: list_all_iff)
  have c: "\<not> is_space c" "c \<noteq> CHR ''-''" "c \<noteq> CHR ''+''" using all [of c] d digit_plain by auto
  have t: "takeWhile is_digit (decimal n @ r) = decimal n"
    using all assms by (cases r) (auto simp: takeWhile_append2)
  show "scan_number (decimal n @ r) = Some (False, decimal n)"
    using c t by (simp add: scan_number_def d)
  show "scan_number (CHR ''-'' # decimal n @ r) = Some (True, decimal n)"
    using c t by (simp add: scan_number_def d is_space_def)
qed

definition show_int :: "int \<Rightarrow> string" where
  "show_int i = (if i < 0 then CHR ''-'' # decimal (nat (- i)) else decimal (nat i))"

lemma stoi_show: "-2147483648 \<le> i \<Longrightarrow> i \<le> 2147483647 \<Longrightarrow> stoi (show_int i) = Inr i"
  using scan_decimal [of "[]"] by (cases "i < 0") (simp_all add: stoi_def show_int_def Let_def)

lemma stoull_decimal: "stoull (decimal (unat w)) = Inr w"
proof -
  have "unat w < 2 ^ 64" using unsigned_less [of w, where 'a = nat] by simp
  then show ?thesis using scan_decimal(1) [of "[]"] by (simp add: stoull_def)
qed

lemma decimal_word: "\<not> list_ex is_space (decimal n)" "decimal n \<noteq> []"
  using decimal_digits [of n] digit_plain by (auto simp: list_ex_iff list_all_iff)

end
