(* ===== verification/Client.thy ===== *)
theory Client
  imports Client_Codec Text_Input
begin

text \<open>
  The example client, examples/universal_client.cpp: its commands, the frames it sends, the table of
  requests it waits for, and what it does with what it receives. The socket and the random numbers
  are the environment's. The main thread runs the commands, the receiver thread the loop; what they
  print is part of the state.
\<close>

section \<open>State\<close>

record client_env =
  rng :: "nat \<Rightarrow> u64"
  send_works :: "nat \<Rightarrow> bool"
  connects :: "string \<Rightarrow> string \<Rightarrow> bool"
  iteration :: "(u64 \<times> string) list \<Rightarrow> (u64 \<times> string) list"
  what_text :: "exn \<Rightarrow> string"

text \<open>\<open>UniversalClient\<close>, and what the process shares: the debug switch and the two output streams.\<close>

record client =
  client_name :: string
  client_running :: bool
  pending_requests :: "(u64 \<times> string) list"
  pending_mutex :: bool
  rng_drawn :: nat
  sends_tried :: nat
  sent_frames :: "bytes list"
  g_debug :: bool
  cout :: string
  cerr :: string

definition UniversalClient :: "client_env \<Rightarrow> string \<Rightarrow> string \<Rightarrow> (client, unit) action" where
  "UniversalClient env broker_address name =
     (if connects env broker_address name
      then update (\<lambda>c. c\<lparr>client_name := name, client_running := True, pending_requests := [],
             pending_mutex := False, rng_drawn := 0, sends_tried := 0, sent_frames := [],
             cout := cout c @ ''Connected to broker at '' @ broker_address @ [CHR 0x0A]\<rparr>)
      else throw ZmqError)"

definition what :: "client_env \<Rightarrow> exn \<Rightarrow> string" where
  "what env e = (case e of RuntimeError s \<Rightarrow> s | ConfigError s \<Rightarrow> s | HelpRequested \<Rightarrow> ''Help requested''
     | _ \<Rightarrow> what_text env e)"

definition print :: "string \<Rightarrow> (client, unit) action" where
  "print s = update (\<lambda>c. c\<lparr>cout := cout c @ s\<rparr>)"

definition print_error :: "string \<Rightarrow> (client, unit) action" where
  "print_error s = update (\<lambda>c. c\<lparr>cerr := cerr c @ s\<rparr>)"

definition println :: "string \<Rightarrow> (client, unit) action" where
  "println s = print (s @ [CHR 0x0A])"

definition prompt :: "(client, unit) action" where
  "prompt = bind (ask client_name) (\<lambda>name. print (''['' @ name @ ''] > ''))"

definition pending_requests_locked :: "(client, 'a) action \<Rightarrow> (client, 'a) action" where
  "pending_requests_locked = locked pending_mutex (\<lambda>b c. c\<lparr>pending_mutex := b\<rparr>)"

section \<open>Sending\<close>

definition socket_send :: "client_env \<Rightarrow> bytes \<Rightarrow> (client, unit) action" where
  "socket_send env data = (\<lambda>c. let c' = c\<lparr>sends_tried := Suc (sends_tried c)\<rparr> in
     if send_works env (sends_tried c) then (Ok (), c'\<lparr>sent_frames := sent_frames c @ [data]\<rparr>)
     else (Throw ZmqError, c'))"

definition SendRawMessage :: "client_env \<Rightarrow> message \<Rightarrow> (client, unit) action" where
  "SendRawMessage env msg = bind (ask g_debug) (\<lambda>debug.
     seq (if debug then println (''[DEBUG] Sending: '' @ client_ToString msg) else ret ())
     (bind (of_sum (client_Serialize msg)) (socket_send env)))"

definition client_Register :: "client_env \<Rightarrow> (client, unit) action" where
  "client_Register env = bind (ask client_name) (\<lambda>name.
     let msg = default_message\<lparr>msg_type := Register, sender := name, destination := [], correlation_id := 0\<rparr> in
     seq (SendRawMessage env msg) (println (''Registered as '' @ [CHR 0x27] @ name @ [CHR 0x27])))"

definition client_Unregister :: "client_env \<Rightarrow> (client, unit) action" where
  "client_Unregister env = bind (ask client_name) (\<lambda>name.
     let msg = default_message\<lparr>msg_type := Unregister, sender := name, destination := [], correlation_id := 0\<rparr> in
     seq (SendRawMessage env msg) (println ''Unregistered''))"

definition GenerateCorrelationId :: "client_env \<Rightarrow> (client, u64) action" where
  "GenerateCorrelationId env = bind (ask (\<lambda>c. rng env (rng_drawn c))) (\<lambda>id.
     seq (update (\<lambda>c. c\<lparr>rng_drawn := Suc (rng_drawn c)\<rparr>)) (ret id))"

definition client_SendMessage :: "client_env \<Rightarrow> string \<Rightarrow> string \<Rightarrow> bool \<Rightarrow> bool \<Rightarrow> (client, unit) action" where
  "client_SendMessage env dest text needs_reply needs_ack = bind (ask client_name) (\<lambda>name.
     bind (GenerateCorrelationId env) (\<lambda>id.
     let msg = default_message\<lparr>msg_type := Message, sender := name, destination := dest,
           correlation_id := id, payload := map byte_of_char text\<rparr>;
         msg = (if needs_reply then msg\<lparr>flags := flags msg OR FlagNeedsReply\<rparr> else msg);
         msg = (if needs_ack then msg\<lparr>flags := flags msg OR FlagNeedsAck\<rparr> else msg) in
     seq (if needs_reply
          then pending_requests_locked (update (\<lambda>c. c\<lparr>pending_requests := AList.update id dest (pending_requests c)\<rparr>))
          else ret ())
     (seq (SendRawMessage env msg)
          (println (''Sent to '' @ dest @ '' [id='' @ decimal (unat id) @ (if needs_reply then '', needs_reply'' else [])
             @ (if needs_ack then '', needs_ack'' else []) @ '']: '' @ text)))))"

definition client_SendReply :: "client_env \<Rightarrow> message \<Rightarrow> string \<Rightarrow> (client, unit) action" where
  "client_SendReply env original text = bind (ask client_name) (\<lambda>name.
     let reply = default_message\<lparr>msg_type := Reply, sender := name, destination := sender original,
           correlation_id := correlation_id original, payload := map byte_of_char text\<rparr> in
     seq (SendRawMessage env reply)
         (println (''Sent reply to '' @ sender original @ '' [id='' @ decimal (unat (correlation_id reply)) @ '']: '' @ text)))"

definition SendManualReply :: "client_env \<Rightarrow> u64 \<Rightarrow> string \<Rightarrow> (client, unit) action" where
  "SendManualReply env corr text = bind (ask client_name) (\<lambda>name.
     let reply = default_message\<lparr>msg_type := Reply, sender := name, destination := [],
           correlation_id := corr, payload := map byte_of_char text\<rparr> in
     seq (SendRawMessage env reply)
         (println (''Sent manual reply [id='' @ decimal (unat corr) @ '']: '' @ text)))"

definition SendAck :: "client_env \<Rightarrow> u64 \<Rightarrow> string \<Rightarrow> (client, unit) action" where
  "SendAck env corr original_sender = bind (ask client_name) (\<lambda>name.
     let ack = default_message\<lparr>msg_type := Ack, sender := name, destination := original_sender,
           correlation_id := corr\<rparr> in
     seq (SendRawMessage env ack) (println (''Sent ACK for id='' @ decimal (unat corr))))"

section \<open>Commands\<close>

definition client_help :: "string list" where
  "client_help = [[CHR 0x0A] @ ''=== Universal Client Commands ==='',
     ''  send <dest> <message>     - Send message to destination'',
     ''  send_ack <dest> <msg>     - Send message requiring ACK'',
     ''  request <dest> <message>  - Send request and wait for reply'',
     ''  reply <corr_id> <message> - Manually reply to a request'',
     ''  status                    - Show client status'',
     ''  help                      - Show this help'',
     ''  quit                      - Exit client'',
     ''==================================''  ]"

definition client_PrintHelp :: "(client, unit) action" where
  "client_PrintHelp = for_each (\<lambda>l. seq (println l) (ret True)) client_help"

definition ShowStatus :: "client_env \<Rightarrow> (client, unit) action" where
  "ShowStatus env = seq (println ([CHR 0x0A] @ ''=== Client Status ==='')) (bind (ask client_name) (\<lambda>name.
     seq (println (''Name: '' @ name)) (seq (println ''Connected: Yes'')
     (pending_requests_locked (bind (ask pending_requests) (\<lambda>pending.
        seq (println (''Pending requests: '' @ decimal (length pending)))
        (seq (for_each (\<lambda>(id, dest). seq (println (''  - id='' @ decimal (unat id) @ '' -> '' @ dest)) (ret True))
               (iteration env pending))
             (println ''=====================''))))))))"

text \<open>The part the three sending commands share: the destination is the next word, the message the
  rest of the line without the blank after it.\<close>

definition send_command :: "client_env \<Rightarrow> string \<Rightarrow> string \<Rightarrow> bool \<Rightarrow> bool \<Rightarrow> (client, unit) action" where
  "send_command env usage input needs_reply needs_ack = (let (dest, message) = extract_word input in
     if dest \<noteq> [] \<and> message \<noteq> [] then client_SendMessage env dest (drop 1 message) needs_reply needs_ack
     else println usage)"

definition ProcessCommand :: "client_env \<Rightarrow> string \<Rightarrow> (client, unit) action" where
  "ProcessCommand env line = (let (cmd, input) = extract_word line in
     if cmd = ''send'' then send_command env ''Usage: send <destination> <message>'' input False False
     else if cmd = ''send_ack'' then send_command env ''Usage: send_ack <destination> <message>'' input False True
     else if cmd = ''request'' then send_command env ''Usage: request <destination> <message>'' input True False
     else if cmd = ''reply'' then (let (corr_id_str, message) = extract_word input in
       if corr_id_str \<noteq> [] \<and> message \<noteq> []
       then bind (of_sum (stoull corr_id_str)) (\<lambda>corr_id. SendManualReply env corr_id (drop 1 message))
       else println ''Usage: reply <correlation_id> <message>'')
     else if cmd = ''status'' then ShowStatus env
     else if cmd = ''help'' then client_PrintHelp
     else if cmd = ''quit'' \<or> cmd = ''exit'' then update (\<lambda>c. c\<lparr>client_running := False\<rparr>)
     else println (''Unknown command: '' @ cmd))"

section \<open>Receiving\<close>

definition HandleMessage :: "client_env \<Rightarrow> message \<Rightarrow> (client, unit) action" where
  "HandleMessage env msg = (let payload_str = PayloadToString msg in
     case msg_type msg of
       Message \<Rightarrow> seq (println ([CHR 0x0A] @ ''[RECEIVED] Message from '' @ sender msg @ '' [id=''
           @ decimal (unat (correlation_id msg)) @ '']: '' @ payload_str))
         (seq (if flags msg AND FlagNeedsAck \<noteq> 0 then SendAck env (correlation_id msg) (sender msg) else ret ())
              (if flags msg AND FlagNeedsReply \<noteq> 0
               then client_SendReply env msg (''Auto-reply to: '' @ payload_str) else ret ()))
     | Reply \<Rightarrow> seq (println ([CHR 0x0A] @ ''[REPLY] From '' @ sender msg @ '' [id=''
           @ decimal (unat (correlation_id msg)) @ '']: '' @ payload_str))
         (pending_requests_locked (update (\<lambda>c. c\<lparr>pending_requests := AList.delete (correlation_id msg) (pending_requests c)\<rparr>)))
     | Ack \<Rightarrow> println ([CHR 0x0A] @ ''[ACK] Message '' @ decimal (unat (correlation_id msg))
           @ '' delivered to '' @ sender msg)
     | _ \<Rightarrow> bind (ask g_debug) (\<lambda>debug. if debug
           then println ([CHR 0x0A] @ ''[DEBUG] Unknown message type: '' @ decimal (unat (type_byte (msg_type msg))))
           else ret ()))"

text \<open>What one \<open>recv\<close> returns: a frame, nothing, or an exception.\<close>

datatype client_recv = Arrived bytes | NothingYet | ReceiveError

definition receive_one :: "client_env \<Rightarrow> client_recv \<Rightarrow> (client, unit) action" where
  "receive_one env result = (case result of
     ReceiveError \<Rightarrow> throw ZmqError
   | NothingYet \<Rightarrow> ret ()
   | Arrived data \<Rightarrow> bind (ask g_debug) (\<lambda>debug.
       if data = [] then
         (if debug then seq (println ([CHR 0x0D] @ ''[DEBUG] Skipping empty delimiter frame'')) prompt else ret ())
       else try_catch
         (bind (of_sum (client_Deserialize data)) (\<lambda>msg.
          seq (if debug then println ([CHR 0x0D] @ ''[DEBUG] Received: '' @ client_ToString msg) else ret ())
          (seq (print ([CHR 0x0D] @ replicate 50 (CHR '' '') @ [CHR 0x0D]))
          (seq (HandleMessage env msg) prompt))))
         (\<lambda>e. if debug
           then seq (print_error ([CHR 0x0D] @ ''[DEBUG] Parse error: '' @ what env e @ '' (size=''
                  @ decimal (length data) @ '')'' @ [CHR 0x0A])) prompt
           else ret ())))"

fun ReceiverLoop :: "client_env \<Rightarrow> client_recv list \<Rightarrow> (client, unit) action" where
  "ReceiverLoop env [] = ret ()"
| "ReceiverLoop env (result # results) = bind (ask client_running) (\<lambda>go.
     if go then seq (receive_one env result) (ReceiverLoop env results) else ret ())"

section \<open>The main thread\<close>

text \<open>The loop over the lines of the standard input, to its end.\<close>

fun command_loop :: "client_env \<Rightarrow> string list \<Rightarrow> (client, unit) action" where
  "command_loop env lines = bind (ask client_running) (\<lambda>go. if \<not> go then ret ()
     else seq prompt (case lines of [] \<Rightarrow> ret ()
       | line # rest \<Rightarrow> seq (if line = [] then ret () else ProcessCommand env line) (command_loop env rest)))"

declare command_loop.simps [simp del]

definition client_Run :: "client_env \<Rightarrow> string list \<Rightarrow> (client, unit) action" where
  "client_Run env lines = seq (client_Register env) (seq client_PrintHelp
     (seq (command_loop env lines) (client_Unregister env)))"

definition client_Stop :: "(client, unit) action" where
  "client_Stop = update (\<lambda>c. c\<lparr>client_running := False\<rparr>)"

text \<open>The body of \<open>main\<close>: the value it returns. The destructor of the client runs on both ways out.\<close>

definition client_main :: "client_env \<Rightarrow> string list \<Rightarrow> string list \<Rightarrow> (client, int) action" where
  "client_main env argv lines =
    (if length argv < 3
     then seq (print_error (''Usage: '' @ hd argv @ '' <broker_address> <client_name> [--debug]'' @ [CHR 0x0A]
         @ ''Example: '' @ hd argv @ '' tcp://localhost:5555 alice'' @ [CHR 0x0A]
         @ ''         '' @ hd argv @ '' tcp://localhost:5555 bob --debug'' @ [CHR 0x0A])) (ret 1)
     else seq (for_each (\<lambda>arg. seq (if arg = ''--debug''
           then seq (update (\<lambda>c. c\<lparr>g_debug := True\<rparr>)) (println ''Debug mode enabled'') else ret ()) (ret True)) (drop 3 argv))
       (try_catch
         (seq (UniversalClient env (argv ! 1) (argv ! 2))
         (seq (try_catch (client_Run env lines) (\<lambda>e. seq client_Stop (throw e)))
         (seq client_Stop (ret 0))))
         (\<lambda>e. seq (print_error (''Error: '' @ what env e @ [CHR 0x0A])) (ret 1))))"

end
