(* ===== verification/Client_Properties.thy ===== *)
theory Client_Properties
  imports Client
begin

text \<open>
  What the example client does: which frames a command sends, how a received message is answered,
  and how the table of pending requests follows. \<open>emits\<close> is the contract the lemmas share: an
  operation returns, has sent exactly the given messages in order, and otherwise only printed.
\<close>

section \<open>Sent messages\<close>

definition after_sends :: "message list \<Rightarrow> client \<Rightarrow> client \<Rightarrow> bool" where
  "after_sends ms c d = (\<exists>out. d = c\<lparr>sends_tried := sends_tried c + length ms,
     sent_frames := sent_frames c @ map wire_format ms, cout := cout c @ out\<rparr>)"

definition emits :: "(client, unit) action \<Rightarrow> message list \<Rightarrow> client \<Rightarrow> bool" where
  "emits m ms c = (\<exists>d. m c = (Ok (), d) \<and> after_sends ms c d)"

lemma after_sends_trans: "after_sends ms c d \<Longrightarrow> after_sends ns d e \<Longrightarrow> after_sends (ms @ ns) c e"
  unfolding after_sends_def by (elim exE) (simp add: add.assoc, blast)

lemma after_sends_keeps:
  assumes "after_sends ms c d"
  shows "client_name d = client_name c" "pending_requests d = pending_requests c" "pending_mutex d = pending_mutex c"
    "client_running d = client_running c" "g_debug d = g_debug c" "rng_drawn d = rng_drawn c"
    "sent_frames d = sent_frames c @ map wire_format ms"
  using assms by (auto simp: after_sends_def)

lemma emits_ret: "emits (ret ()) [] c"
  by (simp add: emits_def after_sends_def exI [of _ "[]"])

lemma emits_print: "emits (print s) [] c" "emits (println s) [] c"
  by (simp_all add: emits_def after_sends_def print_def println_def)
     (rule exI [of _ s], simp, rule exI [of _ "s @ [CHR 0x0A]"], simp)

lemma emits_seq:
  assumes "emits m ms c" "\<And>d. after_sends ms c d \<Longrightarrow> emits n ns d"
  shows "emits (seq m n) (ms @ ns) c"
proof -
  obtain d where d: "m c = (Ok (), d)" "after_sends ms c d" using assms(1) by (auto simp: emits_def)
  obtain e where e: "n d = (Ok (), e)" "after_sends ns d e" using assms(2) [OF d(2)] by (auto simp: emits_def)
  have "seq m n c = (Ok (), e)" using d(1) e(1) by (simp add: seq_def bind_Ok)
  then show ?thesis using after_sends_trans [OF d(2) e(2)] by (auto simp: emits_def)
qed

lemma emits_then_print: "emits m ms c \<Longrightarrow> emits (seq m (println s)) ms c"
  using emits_seq [of m ms c "println s" "[]"] emits_print by simp

lemma emits_if: "emits m ms c \<Longrightarrow> emits (if b then m else ret ()) (if b then ms else []) c"
  using emits_ret by simp

lemma emits_SendRaw:
  assumes "names_fit m" "\<And>n. send_works env n"
  shows "emits (SendRawMessage env m) [m] c"
proof -
  have s: "emits (socket_send env (wire_format m)) [m] d" for d
    by (simp add: emits_def after_sends_def socket_send_def assms(2) Let_def exI [of _ "[]"])
  have "emits (seq (println t) (socket_send env (wire_format m))) ([] @ [m]) c" for t
    by (rule emits_seq [OF emits_print(2) s])
  then show ?thesis using assms(1) s [of c]
    by (simp add: SendRawMessage_def client_Serialize_eq emits_def run_act of_sum_def)
qed

subsection \<open>The messages the client composes\<close>

definition text_message :: "string \<Rightarrow> string \<Rightarrow> u64 \<Rightarrow> string \<Rightarrow> bool \<Rightarrow> bool \<Rightarrow> message" where
  "text_message name dest corr text r a = SetNeedsAck a (SetNeedsReply r (default_message\<lparr>sender := name,
     destination := dest, correlation_id := corr, payload := map byte_of_char text\<rparr>))"

definition reply_message :: "string \<Rightarrow> string \<Rightarrow> u64 \<Rightarrow> string \<Rightarrow> message" where
  "reply_message name dest corr text = default_message\<lparr>msg_type := Reply, sender := name, destination := dest,
     correlation_id := corr, payload := map byte_of_char text\<rparr>"

definition ack_message :: "string \<Rightarrow> string \<Rightarrow> u64 \<Rightarrow> message" where
  "ack_message name dest corr = default_message\<lparr>msg_type := Ack, sender := name, destination := dest, correlation_id := corr\<rparr>"

lemmas composed_defs = text_message_def reply_message_def ack_message_def SetNeedsAck_def SetNeedsReply_def
  SetFlag_def ClearFlag_def default_message_def

lemma composed_fits [simp]:
  "names_fit (text_message name dest corr text r a) \<longleftrightarrow> length name \<le> 255 \<and> length dest \<le> 255"
  "names_fit (reply_message name dest corr text) \<longleftrightarrow> length name \<le> 255 \<and> length dest \<le> 255"
  "names_fit (ack_message name dest corr) \<longleftrightarrow> length name \<le> 255 \<and> length dest \<le> 255"
  "payload (text_message name dest corr text r a) = map byte_of_char text"
  "payload (reply_message name dest corr text) = map byte_of_char text"
  "payload (ack_message name dest corr) = []"
  "msg_type (text_message name dest corr text r a) = Message"
  "msg_type (reply_message name dest corr text) = Reply"
  "msg_type (ack_message name dest corr) = Ack"
  by (simp_all add: names_fit_def composed_defs)

lemma text_message_flags: "NeedsReply (text_message name dest corr text r a) = r"
  "NeedsAck (text_message name dest corr text r a) = a"
  by (simp_all add: needs_bits composed_defs FlagNone_def bit_or_iff bit_and_iff bit_not_iff bit_flags)

lemma broker_reads: "names_fit m \<Longrightarrow> length (payload m) \<le> 65535 \<Longrightarrow> proper_type (msg_type m)
    \<Longrightarrow> Deserialize (wire_format m) = Inr m"
  by (rule Deserialize_wire_format) (simp_all add: names_fit_def fits_frame_def)

lemma emits_SendReply:
  assumes "length (client_name c) \<le> 255" "length (sender m) \<le> 255" "\<And>n. send_works env n"
  shows "emits (client_SendReply env m text) [reply_message (client_name c) (sender m) (correlation_id m) text] c"
  using emits_then_print [OF emits_SendRaw [of "reply_message (client_name c) (sender m) (correlation_id m) text" env c]] assms
  by (simp add: client_SendReply_def emits_def run_act Let_def reply_message_def composed_fits(2) [unfolded reply_message_def])

lemma emits_SendAck:
  assumes "length (client_name c) \<le> 255" "length dest \<le> 255" "\<And>n. send_works env n"
  shows "emits (SendAck env corr dest) [ack_message (client_name c) dest corr] c"
  using emits_then_print [OF emits_SendRaw [of "ack_message (client_name c) dest corr" env c]] assms
  by (simp add: SendAck_def emits_def run_act Let_def ack_message_def composed_fits(3) [unfolded ack_message_def])

lemma emits_ManualReply:
  assumes "length (client_name c) \<le> 255" "\<And>n. send_works env n"
  shows "emits (SendManualReply env corr text) [reply_message (client_name c) [] corr text] c"
  using emits_then_print [OF emits_SendRaw [of "reply_message (client_name c) [] corr text" env c]] assms
  by (simp add: SendManualReply_def emits_def run_act Let_def reply_message_def composed_fits(2) [unfolded reply_message_def])

section \<open>What a received message brings about\<close>

text \<open>The answers to a message, in the order they are sent.\<close>

definition answers :: "string \<Rightarrow> message \<Rightarrow> message list" where
  "answers name m = (if NeedsAck m then [ack_message name (sender m) (correlation_id m)] else [])
     @ (if NeedsReply m then [reply_message name (sender m) (correlation_id m)
          (''Auto-reply to: '' @ map char_of_byte (payload m))] else [])"

lemma needs_flags: "flags m AND FlagNeedsAck \<noteq> 0 \<longleftrightarrow> NeedsAck m" "flags m AND FlagNeedsReply \<noteq> 0 \<longleftrightarrow> NeedsReply m"
  by (simp_all add: NeedsAck_def NeedsReply_def HasFlag_def)

lemma emits_HandleMessage:
  assumes "msg_type m = Message" "length (client_name c) \<le> 255" "length (sender m) \<le> 255"
    and works: "\<And>n. send_works env n"
  shows "emits (HandleMessage env m) (answers (client_name c) m) c"
proof -
  let ?name = "client_name c"
  have ack: "emits (if NeedsAck m then SendAck env (correlation_id m) (sender m) else ret ())
      (if NeedsAck m then [ack_message ?name (sender m) (correlation_id m)] else []) d"
    and reply: "emits (if NeedsReply m then client_SendReply env m words else ret ())
      (if NeedsReply m then [reply_message ?name (sender m) (correlation_id m) words] else []) d"
    if "client_name d = ?name" for d words
    using emits_SendAck [of d "sender m" env "correlation_id m"] emits_SendReply [of d m env words] that assms(2,3) works
    by (simp_all add: emits_ret)
  have "emits (HandleMessage env m) ([] @ answers ?name m) c"
    unfolding HandleMessage_def Let_def assms(1) MessageType.case needs_flags answers_def PayloadToString_def
    by (intro emits_seq ack reply emits_print) (auto dest!: after_sends_keeps(1))
  then show ?thesis by simp
qed

text \<open>C32. A client answers a message as its flags ask: an acknowledgement first, then a reply, both
  under the correlation id of the message and addressed to its sender, in frames the broker reads
  as exactly these messages; nothing else of its state changes but what it printed.\<close>

theorem message_answered:
  assumes "msg_type m = Message" "length (client_name c) \<le> 255" "length (sender m) \<le> 255"
    and "length (payload m) \<le> 65520" "\<And>n. send_works env n"
  shows "\<exists>out frames. HandleMessage env m c = (Ok (), c\<lparr>sends_tried := sends_tried c + length frames,
      sent_frames := sent_frames c @ frames, cout := cout c @ out\<rparr>)
    \<and> map Deserialize frames = map Inr (answers (client_name c) m)"
proof -
  have "map Deserialize (map wire_format (answers (client_name c) m)) = map Inr (answers (client_name c) m)"
    using assms by (simp add: answers_def broker_reads)
  then show ?thesis using emits_HandleMessage [OF assms(1,2,3,5)]
    by (auto simp: emits_def after_sends_def intro!: exI [of _ "map wire_format (answers (client_name c) m)"])
qed

definition demo_client_env :: client_env where
  "demo_client_env = \<lparr>rng = word_of_nat, send_works = (\<lambda>_. True), connects = (\<lambda>_ _. True),
     iteration = (\<lambda>ps. ps), what_text = (\<lambda>_. [])\<rparr>"

definition demo_client :: client where
  "demo_client = \<lparr>client_name = ''al'', client_running = True, pending_requests = [], pending_mutex = False,
     rng_drawn = 7, sends_tried = 1, sent_frames = [], g_debug = False, cout = [], cerr = []\<rparr>"

lemma demo_client_sel [simp]:
  "client_name demo_client = ''al''" "pending_requests demo_client = []" "\<not> pending_mutex demo_client"
  "rng_drawn demo_client = 7" "sent_frames demo_client = []" "send_works demo_client_env n" "client_running demo_client"
  by (simp_all add: demo_client_def demo_client_env_def)

theorem message_answered_witness:
  "\<exists>c. HandleMessage demo_client_env (text_message ''bob'' ''al'' 5 ''hi'' False True) demo_client = (Ok (), c)
    \<and> map Deserialize (sent_frames c) = [Inr (ack_message ''al'' ''bob'' 5)]"
proof -
  let ?m = "text_message ''bob'' ''al'' 5 ''hi'' False True"
  have s: "sender ?m = ''bob''" "correlation_id ?m = 5" by (simp_all add: composed_defs)
  have "answers ''al'' ?m = [ack_message ''al'' ''bob'' 5]" by (simp add: answers_def text_message_flags s)
  then show ?thesis using message_answered [of ?m demo_client demo_client_env] by (auto simp: s)
qed

section \<open>What the commands send\<close>

lemma client_SendMessage_sends:
  assumes "length (client_name c) \<le> 255" "length dest \<le> 255" "\<And>n. send_works env n" "\<not> pending_mutex c"
  shows "\<exists>out. client_SendMessage env dest words r a c = (Ok (), c\<lparr>rng_drawn := Suc (rng_drawn c),
      pending_requests := if r then AList.update (rng env (rng_drawn c)) dest (pending_requests c) else pending_requests c,
      sends_tried := Suc (sends_tried c),
      sent_frames := sent_frames c @ [wire_format (text_message (client_name c) dest (rng env (rng_drawn c)) words r a)],
      cout := cout c @ out\<rparr>)"
proof -
  let ?c = "c\<lparr>rng_drawn := Suc (rng_drawn c),
      pending_requests := if r then AList.update (rng env (rng_drawn c)) dest (pending_requests c) else pending_requests c\<rparr>"
  let ?m = "text_message (client_name c) dest (rng env (rng_drawn c)) words r a"
  have m: "?m = (let msg = default_message\<lparr>msg_type := Message, sender := client_name c, destination := dest,
           correlation_id := rng env (rng_drawn c), payload := map byte_of_char words\<rparr>;
         msg = (if r then msg\<lparr>flags := flags msg OR FlagNeedsReply\<rparr> else msg)
       in if a then msg\<lparr>flags := flags msg OR FlagNeedsAck\<rparr> else msg)"
    by (cases r; cases a) (simp_all add: composed_defs flag_values)
  have c: "?c = (if r then c\<lparr>rng_drawn := Suc (rng_drawn c), pending_mutex := False,
      pending_requests := AList.update (rng env (rng_drawn c)) dest (pending_requests c)\<rparr> else c\<lparr>rng_drawn := Suc (rng_drawn c)\<rparr>)"
    using assms(4) by (cases c) simp
  have "\<exists>out. seq (SendRawMessage env ?m) (println l) d = (Ok (), d\<lparr>sends_tried := Suc (sends_tried d),
      sent_frames := sent_frames d @ [wire_format ?m], cout := cout d @ out\<rparr>)" for l d
  proof -
    have "emits (seq (SendRawMessage env ?m) (println l)) [?m] d"
      by (intro emits_then_print emits_SendRaw) (use assms in simp_all)
    then show ?thesis by (auto simp: emits_def after_sends_def)
  qed
  from this [of _ ?c] have "\<exists>out. seq (SendRawMessage env ?m) (println l) ?c = (Ok (), ?c\<lparr>sends_tried := Suc (sends_tried c),
      sent_frames := sent_frames c @ [wire_format ?m], cout := cout c @ out\<rparr>)" for l by simp
  moreover have "\<exists>l. client_SendMessage env dest words r a c = seq (SendRawMessage env ?m) (println l) ?c"
  proof -
    let ?store = "\<lambda>k. if r then pending_requests_locked (update (\<lambda>c. c\<lparr>pending_requests := AList.update k dest (pending_requests c)\<rparr>))
        else ret ()"
    have gen: "GenerateCorrelationId env c = (Ok (rng env (rng_drawn c)), c\<lparr>rng_drawn := Suc (rng_drawn c)\<rparr>)"
      by (simp add: GenerateCorrelationId_def run_act)
    have store: "?store k (c\<lparr>rng_drawn := n\<rparr>) = (Ok (), c\<lparr>rng_drawn := n,
        pending_requests := if r then AList.update k dest (pending_requests c) else pending_requests c\<rparr>)" for k n
      using assms(4) by (cases c) (simp add: pending_requests_locked_def locked_def)
    show ?thesis
      unfolding client_SendMessage_def run_act bind_Ok [where m = "GenerateCorrelationId env", OF gen] Let_def
        seq_def [where m = "?store _"] bind_Ok [where m = "?store (rng env (rng_drawn c))", OF store] m [unfolded Let_def]
      by (rule exI, rule refl)
  qed
  ultimately show ?thesis by (elim exE) (simp only:)
qed

text \<open>A word of a line: not empty, no white space.\<close>

definition is_word :: "string \<Rightarrow> bool" where
  "is_word w = (w \<noteq> [] \<and> \<not> list_ex is_space w)"

lemma extract_command:
  assumes "is_word w"
  shows "extract_word (w @ CHR '' '' # r) = (w, CHR '' '' # r)" "extract_word (CHR '' '' # w @ CHR '' '' # r) = (w, CHR '' '' # r)"
  using assms by (simp_all add: is_word_def extract_word_word extract_word_spaces is_space_def)

text \<open>C33. The sending commands: \<open>send\<close>, \<open>send_ack\<close> and \<open>request\<close> with a destination and a text send one
  frame, which the broker reads as the message with that text and the flags of the command under
  the next correlation id; \<open>request\<close>, and only it, records the id as pending.\<close>

theorem command_sends:
  assumes "(cmd, r, a) \<in> {(''send'', False, False), (''send_ack'', False, True), (''request'', True, False)}"
    and "is_word dest" "length dest \<le> 255" "length (client_name c) \<le> 255" "length words \<le> 65535"
    and "\<And>n. send_works env n" "\<not> pending_mutex c"
  shows "\<exists>out frame. ProcessCommand env (cmd @ '' '' @ dest @ '' '' @ words) c = (Ok (), c\<lparr>rng_drawn := Suc (rng_drawn c),
      pending_requests := if r then AList.update (rng env (rng_drawn c)) dest (pending_requests c) else pending_requests c,
      sends_tried := Suc (sends_tried c), sent_frames := sent_frames c @ [frame], cout := cout c @ out\<rparr>)
    \<and> Deserialize frame = Inr (text_message (client_name c) dest (rng env (rng_drawn c)) words r a)"
proof -
  let ?m = "text_message (client_name c) dest (rng env (rng_drawn c)) words r a"
  have "is_word cmd" using assms(1) by (auto simp: is_word_def is_space_def)
  then have w: "extract_word (cmd @ '' '' @ dest @ '' '' @ words) = (cmd, '' '' @ dest @ '' '' @ words)"
    "extract_word ('' '' @ dest @ '' '' @ words) = (dest, '' '' @ words)"
    using extract_command assms(2) by simp_all
  have "ProcessCommand env (cmd @ '' '' @ dest @ '' '' @ words) = client_SendMessage env dest words r a"
  proof -
    have "dest \<noteq> []" using assms(2) by (simp add: is_word_def)
    then have s: "send_command env usage ('' '' @ dest @ '' '' @ words) r a = client_SendMessage env dest words r a" for usage r a
      unfolding send_command_def w(2) Let_def prod.case by simp
    from assms(1) consider "cmd = ''send''" "r = False" "a = False" | "cmd = ''send_ack''" "r = False" "a = True"
      | "cmd = ''request''" "r = True" "a = False" by blast
    then show ?thesis unfolding ProcessCommand_def w(1) Let_def prod.case
      by cases (simp_all only: s if_True if_False refl list.inject char.inject list.distinct, simp_all)
  qed
  moreover have "Deserialize (wire_format ?m) = Inr ?m"
    using assms by (intro broker_reads) simp_all
  moreover obtain out where "client_SendMessage env dest words r a c = (Ok (), c\<lparr>rng_drawn := Suc (rng_drawn c),
      pending_requests := if r then AList.update (rng env (rng_drawn c)) dest (pending_requests c) else pending_requests c,
      sends_tried := Suc (sends_tried c), sent_frames := sent_frames c @ [wire_format ?m], cout := cout c @ out\<rparr>)"
    using client_SendMessage_sends [OF assms(4,3,6,7), of words r a] by (elim exE)
  ultimately show ?thesis by (intro exI conjI) (simp only:)
qed

theorem command_sends_witness:
  "\<exists>c frame. ProcessCommand demo_client_env ''request bob how are you'' demo_client = (Ok (), c)
    \<and> sent_frames c = [frame] \<and> Deserialize frame = Inr (text_message ''al'' ''bob'' 7 ''how are you'' True False)
    \<and> pending_requests c = [(7, ''bob'')]"
proof -
  have "is_word ''bob''" by (simp add: is_word_def is_space_def)
  moreover have "rng demo_client_env 7 = 7" by (simp add: demo_client_env_def)
  ultimately show ?thesis
    using command_sends [of "''request''" True False "''bob''" demo_client "''how are you''" demo_client_env] by auto
qed

text \<open>A request is pending until its reply: after \<open>request\<close> and a reply with its correlation id, whatever
  came in between left alone, the table of pending requests is what it was, provided the id was
  not pending before.\<close>

theorem request_answered:
  assumes "is_word dest" "length dest \<le> 255" "length (client_name c) \<le> 255" "length words \<le> 65535"
    and "\<And>n. send_works env n" "\<not> pending_mutex c" "rng env (rng_drawn c) \<notin> fst ` set (pending_requests c)"
    and "msg_type m = Reply" "correlation_id m = rng env (rng_drawn c)"
  shows "\<exists>d e. ProcessCommand env (''request '' @ dest @ '' '' @ words) c = (Ok (), d)
    \<and> map_of (pending_requests d) (correlation_id m) = Some dest
    \<and> HandleMessage env m d = (Ok (), e) \<and> pending_requests e = pending_requests c \<and> sent_frames e = sent_frames d"
proof -
  have "extract_word (''request '' @ dest @ '' '' @ words) = (''request'', '' '' @ dest @ '' '' @ words)"
    using extract_command(1) [of "''request''" "dest @ '' '' @ words"] by (simp add: is_word_def is_space_def)
  moreover have "extract_word ('' '' @ dest @ '' '' @ words) = (dest, '' '' @ words)"
    using extract_command(2) [OF assms(1)] by simp
  ultimately have "ProcessCommand env (''request '' @ dest @ '' '' @ words) = client_SendMessage env dest words True False"
    using assms(1) by (simp add: ProcessCommand_def send_command_def Let_def is_word_def)
  then obtain d where d: "ProcessCommand env (''request '' @ dest @ '' '' @ words) c = (Ok (), d)"
    "pending_requests d = AList.update (correlation_id m) dest (pending_requests c)" "\<not> pending_mutex d"
    using client_SendMessage_sends [OF assms(3,2,5,6), of words True False] assms(6,9) by auto
  have "AList.delete (correlation_id m) (pending_requests d) = pending_requests c"
    using assms(7,9) by (simp add: d(2) delete_update_same)
  then show ?thesis using d assms(8)
    by (auto simp: HandleMessage_def pending_requests_locked_def locked_def run_act println_def print_def update_conv' Let_def)
qed

theorem request_answered_witness:
  "\<exists>d e. ProcessCommand demo_client_env ''request bob hi'' demo_client = (Ok (), d)
    \<and> HandleMessage demo_client_env (reply_message ''bob'' ''al'' 7 ''yes'') d = (Ok (), e) \<and> pending_requests e = []"
proof -
  have "is_word ''bob''" by (simp add: is_word_def is_space_def)
  moreover have "rng demo_client_env 7 = 7" "correlation_id (reply_message ''bob'' ''al'' 7 ''yes'') = 7"
    by (simp_all add: demo_client_env_def reply_message_def)
  ultimately show ?thesis
    using request_answered [of "''bob''" demo_client "''hi''" demo_client_env "reply_message ''bob'' ''al'' 7 ''yes''"] by auto
qed

text \<open>A correlation id typed as it was printed is the one that was printed: \<open>reply\<close> with the decimal
  form of an id and a text sends the reply with that id, to no destination, which the broker
  fills in.\<close>

theorem reply_command_sends:
  assumes "length (client_name c) \<le> 255" "length words \<le> 65535" "\<And>n. send_works env n"
  shows "\<exists>out frame. ProcessCommand env (''reply '' @ decimal (unat corr) @ '' '' @ words) c = (Ok (),
      c\<lparr>sends_tried := sends_tried c + 1, sent_frames := sent_frames c @ [frame], cout := cout c @ out\<rparr>)
    \<and> Deserialize frame = Inr (reply_message (client_name c) [] corr words)"
proof -
  let ?m = "reply_message (client_name c) [] corr words"
  have w: "extract_word (''reply '' @ decimal (unat corr) @ '' '' @ words) = (''reply'', '' '' @ decimal (unat corr) @ '' '' @ words)"
    "extract_word ('' '' @ decimal (unat corr) @ '' '' @ words) = (decimal (unat corr), '' '' @ words)"
    using extract_command(1) [of "''reply''" "decimal (unat corr) @ '' '' @ words"]
      extract_command(2) [of "decimal (unat corr)" words] decimal_word
    by (simp_all add: is_word_def is_space_def)
  have "ProcessCommand env (''reply '' @ decimal (unat corr) @ '' '' @ words) c = SendManualReply env corr words c"
    by (simp add: ProcessCommand_def w [simplified] decimal_word stoull_decimal of_sum_def)
  moreover have "emits (SendManualReply env corr words) [?m] c" by (rule emits_ManualReply) (use assms in simp_all)
  moreover have "Deserialize (wire_format ?m) = Inr ?m" using assms by (intro broker_reads) simp_all
  ultimately show ?thesis by (auto simp: emits_def after_sends_def)
qed

theorem reply_command_sends_witness:
  "\<exists>c frame. ProcessCommand demo_client_env (''reply '' @ decimal (unat (12 :: u64)) @ '' '' @ ''yes'') demo_client = (Ok (), c)
    \<and> sent_frames c = [frame] \<and> Deserialize frame = Inr (reply_message ''al'' [] 12 ''yes'')"
  using reply_command_sends [of demo_client "''yes''" demo_client_env 12] by auto

section \<open>What can go wrong\<close>

text \<open>The automatic reply can be lost: for a request whose payload the broker carries but which is
  longer than 65520 bytes, the reply with its fifteen bytes of preamble is longer than 65535; the
  client sends it all the same, and the broker refuses the frame, so the requester waits for ever.\<close>

theorem long_request_unanswered:
  assumes "fits_frame m" "length (payload m) > 65520" "msg_type m = Message" "NeedsReply m" "\<not> NeedsAck m"
    and "length (client_name c) \<le> 255" "\<And>n. send_works env n"
  shows "\<exists>d frame. HandleMessage env m c = (Ok (), d) \<and> sent_frames d = sent_frames c @ [frame]
    \<and> Deserialize frame = Inl (RuntimeError ''Message size mismatch'')"
proof -
  let ?r = "reply_message (client_name c) (sender m) (correlation_id m) (''Auto-reply to: '' @ map char_of_byte (payload m))"
  have n: "length (sender m) \<le> 255" using assms(1) by (simp add: fits_frame_def)
  have "emits (HandleMessage env m) [?r] c"
    using emits_HandleMessage [OF assms(3,6) n assms(7)] assms(4,5) by (simp add: answers_def)
  moreover have "Deserialize (wire_format ?r) = Inl (RuntimeError ''Message size mismatch'')"
    by (rule oversized_frame) (use assms n in simp_all)
  ultimately show ?thesis by (auto simp: emits_def dest: after_sends_keeps(7))
qed

theorem long_request_unanswered_witness:
  "\<exists>d frame. HandleMessage demo_client_env (text_message ''bob'' ''al'' 5 (replicate 65521 CHR ''x'') True False) demo_client = (Ok (), d)
    \<and> sent_frames d = [frame] \<and> Deserialize frame = Inl (RuntimeError ''Message size mismatch'')"
proof -
  have "fits_frame (text_message ''bob'' ''al'' 5 (replicate 65521 CHR ''x'') True False)"
    by (simp add: fits_frame_def composed_defs)
  then show ?thesis
    using long_request_unanswered [of "text_message ''bob'' ''al'' 5 (replicate 65521 CHR ''x'') True False" demo_client demo_client_env]
    by (simp add: text_message_flags)
qed

subsection \<open>The receiver thread\<close>

text \<open>What receiving leaves alone: the mutex free, the name, and whether the client runs.\<close>

definition unlocked :: "string \<Rightarrow> bool \<Rightarrow> client \<Rightarrow> bool" where
  "unlocked name go c = (\<not> pending_mutex c \<and> client_name c = name \<and> client_running c = go)"

lemma unlocked_rules:
  "keeps (unlocked name go) (print s)" "keeps (unlocked name go) (println s)" "keeps (unlocked name go) (print_error s)"
  "keeps (unlocked name go) prompt" "keeps (unlocked name go) (socket_send env data)"
  "keeps (unlocked name go) (pending_requests_locked (update (\<lambda>c. c\<lparr>pending_requests := f c\<rparr>)))"
  by (simp_all add: triple_def unlocked_def print_def println_def print_error_def prompt_def run_act socket_send_def
      pending_requests_locked_def locked_def Let_def)

lemma unlocked_SendRaw: "keeps (unlocked name go) (SendRawMessage env m)"
  unfolding SendRawMessage_def by (intro keeps_intros unlocked_rules)

lemma unlocked_HandleMessage: "keeps (unlocked name go) (HandleMessage env m)"
proof -
  have sends: "keeps (unlocked name go) (SendAck env corr dest)" "keeps (unlocked name go) (client_SendReply env m words)" for corr dest words
    unfolding SendAck_def client_SendReply_def Let_def by (intro keeps_intros unlocked_rules unlocked_SendRaw)+
  show ?thesis unfolding HandleMessage_def Let_def
    by (cases "msg_type m"; simp only: MessageType.case; intro keeps_intros unlocked_rules sends)
qed

lemma unlocked_receive: "keeps (unlocked name go) (receive_one env r)"
proof (cases r)
  case (Arrived data)
  have "keeps (unlocked name go) (if data = [] then m else n)" if "keeps (unlocked name go) m" "keeps (unlocked name go) n"
    for m n :: "(client, unit) action" using that by simp
  then show ?thesis unfolding receive_one_def Arrived client_recv.case
    by (intro keeps_bind keeps_ask keeps_if keeps_try keeps_seq keeps_of_sum keeps_ret unlocked_rules unlocked_HandleMessage)
qed (simp_all add: receive_one_def keeps_ret keeps_throw)

lemma receive_no_throw:
  assumes "r \<noteq> ReceiveError"
  shows "nothrow (receive_one env r)"
proof -
  have "nothrow (print s)" "nothrow (println s)" "nothrow (print_error s)" "nothrow prompt" for s
    by (simp_all add: nothrow_def print_def println_def print_error_def prompt_def run_act)
  then show ?thesis using assms unfolding receive_one_def
    by (cases r; simp only: client_recv.case; intro nothrow_rules) (simp_all only:)
qed

lemma receive_one_survives:
  assumes "r \<noteq> ReceiveError" "\<not> pending_mutex c"
  obtains d where "receive_one env r c = (Ok (), d)" "\<not> pending_mutex d" "client_name d = client_name c"
    "client_running d = client_running c"
proof -
  have "unlocked (client_name c) (client_running c) c" using assms(2) by (simp add: unlocked_def)
  then obtain d where "receive_one env r c = (Ok (), d)" "unlocked (client_name c) (client_running c) d"
    using keeps_nothrow [OF unlocked_receive receive_no_throw [OF assms(1)]] by (metis old.unit.exhaust)
  then show ?thesis using that by (simp add: unlocked_def)
qed

lemma ReceiverLoop_stopped: "\<not> client_running c \<Longrightarrow> ReceiverLoop env rs c = (Ok (), c)"
  by (cases rs) (simp_all add: run_act)

lemma receive_one_answers:
  assumes "Deserialize data = Inr m" "msg_type m = Message" "length (client_name c) \<le> 255" "\<And>n. send_works env n"
  shows "emits (receive_one env (Arrived data)) (answers (client_name c) m) c"
proof -
  have n: "length (sender m) \<le> 255" using Deserialize_Inr [OF assms(1)] by (auto simp: fits_frame_def)
  have "data \<noteq> []" using assms(1) by (auto simp: Deserialize_def HEADER_SIZE_def)
  have read: "client_Deserialize data = Inr m" using assms(1) by (simp add: client_Deserialize_Inr)
  have handle: "emits (HandleMessage env m) (answers (client_name c) m) d" if "client_name d = client_name c" for d
    using emits_HandleMessage [of m d env] that assms(2,3,4) n by simp
  have prompt: "emits prompt [] d" for d using emits_print(1) by (simp add: prompt_def run_act emits_def)
  have body: "emits (seq (if g_debug c then println t else ret ()) (seq (print u) (seq (HandleMessage env m) prompt)))
      ([] @ [] @ answers (client_name c) m @ []) c" for t u
    using emits_if [OF emits_print(2), of "g_debug c" t]
    by (intro emits_seq emits_print prompt handle) (auto dest!: after_sends_keeps(1) split: if_splits)
  have "\<exists>t u h. receive_one env (Arrived data) c = try_catch
      (seq (if g_debug c then println t else ret ()) (seq (print u) (seq (HandleMessage env m) prompt))) h c"
    unfolding receive_one_def client_recv.case run_act if_not_P [OF \<open>data \<noteq> []\<close>] read of_sum_def sum.case
    by (intro exI) (rule refl)
  then obtain t u h where run: "receive_one env (Arrived data) c = try_catch
      (seq (if g_debug c then println t else ret ()) (seq (print u) (seq (HandleMessage env m) prompt))) h c" by blast
  from body [of t u] show ?thesis unfolding emits_def run by (elim exE conjE) (simp add: try_catch_def)
qed

text \<open>C38. The receiver thread survives whatever it is sent. As long as \<open>recv\<close> itself does not fail, for all
  frames, malformed ones included, and also when every answer fails to be sent, the loop throws
  nothing, releases the lock on the pending requests and leaves the client running; so whatever
  comes next is received as if the loop had just started, and a message that follows any such
  input is still answered, when the socket takes the answers.\<close>

theorem receiver_survives:
  assumes "ReceiveError \<notin> set results" "\<not> pending_mutex c"
  shows "\<exists>d. ReceiverLoop env results c = (Ok (), d) \<and> \<not> pending_mutex d
    \<and> client_name d = client_name c \<and> client_running d = client_running c
    \<and> (\<forall>more. ReceiverLoop env (results @ more) c = ReceiverLoop env more d)
    \<and> (client_running c \<and> Deserialize data = Inr m \<and> msg_type m = Message \<and> length (client_name c) \<le> 255
        \<and> (\<forall>n. send_works env n)
      \<longrightarrow> (\<exists>e. ReceiverLoop env (results @ [Arrived data]) c = (Ok (), e)
          \<and> sent_frames e = sent_frames d @ map wire_format (answers (client_name c) m)))"
proof -
  have "\<exists>d. ReceiverLoop env results c = (Ok (), d) \<and> \<not> pending_mutex d \<and> client_name d = client_name c
    \<and> client_running d = client_running c \<and> (\<forall>more. ReceiverLoop env (results @ more) c = ReceiverLoop env more d)"
    using assms
  proof (induction results arbitrary: c)
    case (Cons r results)
    show ?case
    proof (cases "client_running c")
      case True
      obtain d where d: "receive_one env r c = (Ok (), d)" "\<not> pending_mutex d" "client_name d = client_name c"
        "client_running d = client_running c"
        using receive_one_survives [of r c env] Cons.prems by auto
      then have go: "ReceiverLoop env (r # rs) c = ReceiverLoop env rs d" for rs
        using True by (simp add: run_act seq_def bind_Ok)
      have "ReceiveError \<notin> set results" using Cons.prems(1) by simp
      from Cons.IH [OF this d(2)] show ?thesis by (simp only: append_Cons go d)
    qed (simp add: ReceiverLoop_stopped Cons.prems del: ReceiverLoop.simps)
  qed simp
  then obtain d where d: "ReceiverLoop env results c = (Ok (), d)" "\<not> pending_mutex d" "client_name d = client_name c"
    "client_running d = client_running c" "\<And>more. ReceiverLoop env (results @ more) c = ReceiverLoop env more d" by blast
  have "\<exists>e. ReceiverLoop env (results @ [Arrived data]) c = (Ok (), e)
      \<and> sent_frames e = sent_frames d @ map wire_format (answers (client_name c) m)"
    if "client_running c" "Deserialize data = Inr m" "msg_type m = Message" "length (client_name c) \<le> 255"
      "\<forall>n. send_works env n"
    using receive_one_answers [of data m d env] that d
    by (auto simp: emits_def run_act seq_def bind_Ok dest: after_sends_keeps(7))
  with d show ?thesis by (intro exI [of _ d]) simp
qed

theorem receiver_survives_witness:
  "\<exists>d e. ReceiverLoop demo_client_env [Arrived [], NothingYet, Arrived [1, 2, 3]] demo_client = (Ok (), d)
    \<and> client_running d
    \<and> ReceiverLoop demo_client_env [Arrived [], NothingYet, Arrived [1, 2, 3],
        Arrived (wire_format (text_message ''bob'' ''al'' 5 ''hi'' False True))] demo_client = (Ok (), e)
    \<and> sent_frames e = sent_frames d @ [wire_format (ack_message ''al'' ''bob'' 5)]"
proof -
  let ?m = "text_message ''bob'' ''al'' 5 ''hi'' False True"
  have read: "Deserialize (wire_format ?m) = Inr ?m" by (intro broker_reads) simp_all
  have s: "sender ?m = ''bob''" "correlation_id ?m = 5" "msg_type ?m = Message" by (simp_all add: composed_defs)
  have "answers ''al'' ?m = [ack_message ''al'' ''bob'' 5]" by (simp add: answers_def text_message_flags s)
  then show ?thesis
    using receiver_survives [of "[Arrived [], NothingYet, Arrived [1, 2, 3]]" demo_client demo_client_env "wire_format ?m" ?m]
      read s(3) by auto
qed

subsection \<open>A mistyped correlation id\<close>

lemma for_each_go: "for_each (\<lambda>x. seq (m x) (ret True)) (x # xs) = seq (m x) (for_each (\<lambda>x. seq (m x) (ret True)) xs)"
  by (simp add: seq_def bind_assoc)

lemma emits_help: "emits client_PrintHelp [] c"
proof -
  have "emits (for_each (\<lambda>l. seq (println l) (ret True)) ls) [] c" for ls c
  proof (induction ls arbitrary: c)
    case (Cons l ls)
    have "emits (seq (println l) (for_each (\<lambda>l. seq (println l) (ret True)) ls)) ([] @ []) c"
      by (rule emits_seq [OF emits_print(2) Cons.IH])
    then show ?case by (simp only: for_each_go append_Nil)
  qed (simp add: emits_ret)
  then show ?thesis by (simp add: client_PrintHelp_def)
qed

text \<open>A typing error ends the client: \<open>reply\<close> with a correlation id that has no digits throws out of the
  command loop, and \<open>main\<close> returns 1 whatever else is on the standard input; the broker has seen
  the client register and never sees it leave.\<close>

theorem typo_ends_client:
  assumes "is_word corr" "scan_number corr = None" "connects env addr name" "length name \<le> 255" "\<And>n. send_works env n"
  shows "\<exists>d. client_main env [program, addr, name] ((''reply '' @ corr @ '' '' @ words) # lines) c = (Ok 1, d)
    \<and> map Deserialize (sent_frames d) = [Inr (default_message\<lparr>msg_type := Register, sender := name\<rparr>)]
    \<and> \<not> client_running d"
proof -
  let ?m = "default_message\<lparr>msg_type := Register, sender := name\<rparr>" and ?line = "''reply '' @ corr @ '' '' @ words"
  have fit: "names_fit ?m" "payload ?m = []" using assms(4) by (simp_all add: names_fit_def default_message_def)
  obtain c1 where c1: "UniversalClient env addr name c = (Ok (), c1)"
    "client_name c1 = name" "client_running c1" "sent_frames c1 = []"
    using assms(3) by (simp add: UniversalClient_def)
  have "emits (client_Register env) [?m] c1"
    using emits_then_print [OF emits_SendRaw [OF fit(1) assms(5)]] c1(2)
    by (simp add: client_Register_def emits_def run_act Let_def default_message_def)
  then obtain c2 where c2: "client_Register env c1 = (Ok (), c2)" "after_sends [?m] c1 c2" by (auto simp: emits_def)
  obtain c3 where c3: "client_PrintHelp c2 = (Ok (), c3)" "after_sends [] c2 c3" using emits_help by (auto simp: emits_def)
  have w: "extract_word ?line = (''reply'', '' '' @ corr @ '' '' @ words)"
    "extract_word ('' '' @ corr @ '' '' @ words) = (corr, '' '' @ words)"
    using extract_command(1) [of "''reply''" "corr @ '' '' @ words"] extract_command(2) [OF assms(1)]
    by (simp_all add: is_word_def is_space_def)
  have "ProcessCommand env ?line d = (Throw InvalidArgument, d)" for d
    using assms(1,2) by (simp add: ProcessCommand_def w [simplified] is_word_def stoull_def of_sum_def)
  moreover have "client_running c3" "sent_frames c3 = [wire_format ?m]"
    using c1 c2(2) c3(2) by (simp_all add: after_sends_keeps)
  ultimately obtain c4 where c4: "command_loop env (?line # lines) c3 = (Throw InvalidArgument, c4)" "sent_frames c4 = [wire_format ?m]"
    by (simp add: command_loop.simps [of env "_ # _"] run_act prompt_def print_def seq_def bind_def)
  then have "client_Run env (?line # lines) c1 = (Throw InvalidArgument, c4)"
    using c2(1) c3(1) by (simp add: client_Run_def seq_def bind_def)
  moreover have "Deserialize (wire_format ?m) = Inr ?m" using fit by (intro broker_reads) simp_all
  ultimately show ?thesis using c4(2) c1(1)
    by (simp add: client_main_def run_act try_catch_def seq_def bind_def client_Stop_def print_error_def)
qed

theorem typo_ends_client_witness:
  "\<exists>d. client_main demo_client_env [''client'', ''tcp://localhost:5555'', ''al''] [''reply abc yes'', ''send bob hi''] demo_client = (Ok 1, d)
    \<and> length (sent_frames d) = 1"
proof -
  have "is_word ''abc''" "scan_number ''abc'' = None" "connects demo_client_env ''tcp://localhost:5555'' ''al''"
    by (simp_all add: is_word_def is_space_def scan_number_def is_digit_def demo_client_env_def Let_def)
  from typo_ends_client [OF this, of "''client''" "''yes''" "[''send bob hi'']" demo_client] obtain d where
    "client_main demo_client_env [''client'', ''tcp://localhost:5555'', ''al''] [''reply abc yes'', ''send bob hi''] demo_client = (Ok 1, d)"
    "map Deserialize (sent_frames d) = [Inr (default_message\<lparr>msg_type := Register, sender := ''al''\<rparr>)]" by auto
  then show ?thesis by (metis length_map length_Cons list.size(3) One_nat_def)
qed

end
