(* ===== verification/Storage.thy ===== *)
theory Storage
  imports Codec
begin

text \<open>
  The SQLite store: include/storage.hpp and src/storage.cpp. The two tables are lists of rows
  in rowid order; every prepared statement is a function on them that says what its SQL text
  says. SQLite itself is the environment \<open>sqlite\<close>: whether the next \<open>sqlite3_step\<close> succeeds,
  what \<open>sqlite3_errmsg\<close> says then, what
  \<open>CURRENT_TIMESTAMP\<close> reads, and in which order a statement returns rows that its
  \<open>ORDER BY\<close> leaves tied.
\<close>

section \<open>Rows, tables and the environment\<close>

datatype MessageStatus = STATUS_PENDING | STATUS_DELIVERED | STATUS_SENT

record mrow =
  row_id :: int
  row_type :: int
  row_flags :: int
  row_corr :: int
  row_sender :: string
  row_dest :: string
  row_payload :: "bytes option"
  row_status :: MessageStatus
  row_created :: int
  row_delivered :: "int option"

record crow =
  cr_id :: int
  cr_message_id :: int
  cr_corr :: int
  cr_sender :: string
  cr_created :: int

record PendingMessage =
  pm_id :: u64
  pm_msg :: message

datatype query = SelectOriginalSender | SelectMessageIdByCorr | SelectMessageIdByCorrDest
  | SelectOriginalSenderByMsgId | SelectExpiredSent | SelectPendingMessages | SelectPendingReplies

text \<open>\<open>sqlite3_step\<close> calls are numbered by \<open>db_tick\<close>; the environment answers call \<open>n\<close>.\<close>

record sqlite =
  step_ok :: "nat \<Rightarrow> bool"
  sqlite_errmsg :: "nat \<Rightarrow> string"
  wall_clock :: "nat \<Rightarrow> int"
  order_mrows :: "query \<Rightarrow> mrow list \<Rightarrow> mrow list"
  order_crows :: "query \<Rightarrow> crow list \<Rightarrow> crow list"
  order_joined :: "query \<Rightarrow> (mrow \<times> crow) list \<Rightarrow> (mrow \<times> crow) list"

text \<open>What the SQL text asks of the order: the rows selected, sorted by the \<open>ORDER BY\<close> key
  (\<open>SelectOriginalSenderByMsgId\<close> has none).\<close>

definition sqlite_orders :: "('e) sqlite_scheme \<Rightarrow> bool" where
  "sqlite_orders env \<longleftrightarrow>
     (\<forall>q rs. mset (order_mrows env q rs) = mset rs \<and> sorted (map row_created (order_mrows env q rs))) \<and>
     (\<forall>q cs. mset (order_crows env q cs) = mset cs
        \<and> (q = SelectOriginalSenderByMsgId \<or> sorted (rev (map cr_created (order_crows env q cs))))) \<and>
     (\<forall>q ps. mset (order_joined env q ps) = mset ps
        \<and> sorted (rev (map (cr_created \<circ> snd) (order_joined env q ps))))"

record database =
  messages :: "mrow list"
  correlations :: "crow list"
  seq_messages :: int
  seq_correlations :: int
  foreign_keys :: bool
  db_mutex :: bool
  db_tick :: nat

definition MAX_ROWID :: int where "MAX_ROWID = 2 ^ 63 - 1"

section \<open>Column values\<close>

text \<open>A bound text is passed as \<open>c_str()\<close> with length -1: it ends at the first NUL.\<close>

definition c_str :: "string \<Rightarrow> string" where
  "c_str s = takeWhile (\<lambda>c. c \<noteq> CHR 0x00) s"

definition bind_int64 :: "u64 \<Rightarrow> int" where
  "bind_int64 w = sint w"

definition column_int64 :: "int \<Rightarrow> u64" where
  "column_int64 i = word_of_int i"

definition row_of_message :: "message \<Rightarrow> MessageStatus \<Rightarrow> int \<Rightarrow> int \<Rightarrow> mrow" where
  "row_of_message msg status rid now = \<lparr>row_id = rid, row_type = uint (type_byte (msg_type msg)),
     row_flags = uint (flags msg), row_corr = bind_int64 (correlation_id msg),
     row_sender = c_str (sender msg), row_dest = c_str (destination msg),
     row_payload = (if payload msg = [] then None else Some (payload msg)),
     row_status = status, row_created = now, row_delivered = None\<rparr>"

definition message_of_row :: "mrow \<Rightarrow> message" where
  "message_of_row r = \<lparr>msg_type = type_of_byte (word_of_int (row_type r)),
     flags = word_of_int (row_flags r), correlation_id = column_int64 (row_corr r),
     sender = c_str (row_sender r), destination = c_str (row_dest r),
     payload = (case row_payload r of None \<Rightarrow> [] | Some p \<Rightarrow> p)\<rparr>"

definition pending_of_row :: "mrow \<Rightarrow> PendingMessage" where
  "pending_of_row r = \<lparr>pm_id = column_int64 (row_id r), pm_msg = message_of_row r\<rparr>"

section \<open>The prepared statements\<close>

text \<open>\<open>None\<close>: SQLite refuses the statement (\<open>SQLITE_FULL\<close> or a constraint) and changes nothing.\<close>

definition sql_insert_message ::
  "message \<Rightarrow> MessageStatus \<Rightarrow> int \<Rightarrow> 'z database_scheme \<Rightarrow> 'z database_scheme option" where
  "sql_insert_message msg status now db =
     (if seq_messages db < MAX_ROWID then
        Some (db\<lparr>messages := messages db @ [row_of_message msg status (seq_messages db + 1) now],
                 seq_messages := seq_messages db + 1\<rparr>)
      else None)"

definition sql_update_delivered :: "int \<Rightarrow> int \<Rightarrow> 'z database_scheme \<Rightarrow> 'z database_scheme option" where
  "sql_update_delivered mid now db = Some (db\<lparr>messages := map (\<lambda>r.
     if row_id r = mid then r\<lparr>row_status := STATUS_DELIVERED, row_delivered := Some now\<rparr> else r)
     (messages db)\<rparr>)"

definition sql_update_status ::
  "MessageStatus \<Rightarrow> int \<Rightarrow> MessageStatus \<Rightarrow> int \<Rightarrow> 'z database_scheme \<Rightarrow> 'z database_scheme option" where
  "sql_update_status new mid old now db = Some (db\<lparr>messages := map (\<lambda>r.
     if row_id r = mid \<and> row_status r = old then r\<lparr>row_status := new\<rparr> else r) (messages db)\<rparr>)"

definition sql_insert_correlation ::
  "int \<Rightarrow> int \<Rightarrow> string \<Rightarrow> int \<Rightarrow> 'z database_scheme \<Rightarrow> 'z database_scheme option" where
  "sql_insert_correlation mid corr orig now db =
     (if seq_correlations db < MAX_ROWID \<and> (foreign_keys db \<longrightarrow> mid \<in> row_id ` set (messages db)) then
        Some (db\<lparr>correlations := filter (\<lambda>c. \<not> (cr_corr c = corr \<and> cr_sender c = orig)) (correlations db)
                @ [\<lparr>cr_id = seq_correlations db + 1, cr_message_id = mid, cr_corr = corr,
                    cr_sender = orig, cr_created = now\<rparr>],
               seq_correlations := seq_correlations db + 1\<rparr>)
      else None)"

definition sql_delete_correlation :: "int \<Rightarrow> int \<Rightarrow> 'z database_scheme \<Rightarrow> 'z database_scheme option" where
  "sql_delete_correlation mid now db = Some (db\<lparr>correlations :=
     filter (\<lambda>c. cr_message_id c \<noteq> mid) (correlations db)\<rparr>)"

definition sql_select_needs_ack :: "int \<Rightarrow> 'z database_scheme \<Rightarrow> mrow list" where
  "sql_select_needs_ack mid db = filter (\<lambda>r. row_id r = mid) (messages db)"

definition sql_select_by_corr :: "'e sqlite_scheme \<Rightarrow> query \<Rightarrow> int \<Rightarrow> 'z database_scheme \<Rightarrow> crow list" where
  "sql_select_by_corr env q corr db = order_crows env q (filter (\<lambda>c. cr_corr c = corr) (correlations db))"

definition sql_select_by_corr_dest ::
  "'e sqlite_scheme \<Rightarrow> int \<Rightarrow> string \<Rightarrow> 'z database_scheme \<Rightarrow> mrow list" where
  "sql_select_by_corr_dest env corr dest db = map fst (order_joined env SelectMessageIdByCorrDest
     [(m, c). m \<leftarrow> messages db, c \<leftarrow> correlations db,
        row_id m = cr_message_id c \<and> cr_corr c = corr \<and> row_dest m = dest])"

definition sql_select_sender_by_msg_id :: "'e sqlite_scheme \<Rightarrow> int \<Rightarrow> 'z database_scheme \<Rightarrow> crow list" where
  "sql_select_sender_by_msg_id env mid db = order_crows env SelectOriginalSenderByMsgId
     (filter (\<lambda>c. cr_message_id c = mid) (correlations db))"

definition sql_select_expired_sent ::
  "'e sqlite_scheme \<Rightarrow> int \<Rightarrow> int \<Rightarrow> 'z database_scheme \<Rightarrow> mrow list" where
  "sql_select_expired_sent env timeout now db = order_mrows env SelectExpiredSent
     (filter (\<lambda>r. row_status r = STATUS_SENT \<and> now - row_created r > timeout) (messages db))"

definition sql_select_pending_messages ::
  "'e sqlite_scheme \<Rightarrow> string \<Rightarrow> 'z database_scheme \<Rightarrow> mrow list" where
  "sql_select_pending_messages env dest db = order_mrows env SelectPendingMessages
     (filter (\<lambda>r. row_dest r = dest \<and> row_status r = STATUS_PENDING
        \<and> row_type r \<noteq> uint (type_byte Reply)) (messages db))"

text \<open>\<open>SELECT DISTINCT\<close> over the columns the statement lists.\<close>

definition reply_columns :: "mrow \<Rightarrow> int \<times> int \<times> int \<times> int \<times> string \<times> string \<times> bytes option" where
  "reply_columns r = (row_id r, row_type r, row_flags r, row_corr r, row_sender r, row_dest r,
     row_payload r)"

fun distinct_by :: "('a \<Rightarrow> 'b) \<Rightarrow> 'a list \<Rightarrow> 'a list" where
  "distinct_by f [] = []"
| "distinct_by f (x # xs) = x # filter (\<lambda>y. f y \<noteq> f x) (distinct_by f xs)"

definition sql_select_pending_replies ::
  "'e sqlite_scheme \<Rightarrow> string \<Rightarrow> 'z database_scheme \<Rightarrow> mrow list" where
  "sql_select_pending_replies env orig db = order_mrows env SelectPendingReplies (distinct_by reply_columns
     [m. m \<leftarrow> messages db, c \<leftarrow> correlations db,
        row_corr m = cr_corr c \<and> cr_sender c = orig
        \<and> (row_status m = STATUS_PENDING \<or> row_status m = STATUS_SENT)
        \<and> row_type m = uint (type_byte Reply)])"

section \<open>Stepping a statement\<close>

definition db_locked :: "('z database_scheme, 'a) action \<Rightarrow> ('z database_scheme, 'a) action" where
  "db_locked m = locked db_mutex (\<lambda>b db. db\<lparr>db_mutex := b\<rparr>) m"

definition bump_tick :: "'z database_scheme \<Rightarrow> 'z database_scheme" where
  "bump_tick db = db\<lparr>db_tick := Suc (db_tick db)\<rparr>"

text \<open>A data change: one step, and an exception when it is not \<open>SQLITE_DONE\<close>.\<close>

definition write_step :: "'e sqlite_scheme \<Rightarrow> string \<Rightarrow>
    (int \<Rightarrow> 'z database_scheme \<Rightarrow> 'z database_scheme option) \<Rightarrow> ('z database_scheme, unit) action" where
  "write_step env err stmt = (\<lambda>db.
     if step_ok env (db_tick db)
     then (case stmt (wall_clock env (db_tick db)) (bump_tick db) of
             Some db' \<Rightarrow> (Ok (), db')
           | None \<Rightarrow> (Throw (RuntimeError (err @ sqlite_errmsg env (db_tick db))), bump_tick db))
     else (Throw (RuntimeError (err @ sqlite_errmsg env (db_tick db))), bump_tick db))"

text \<open>A query read with one step: \<open>None\<close> unless that step returns a row.\<close>

definition first_row :: "'e sqlite_scheme \<Rightarrow> ('z database_scheme \<Rightarrow> 'r list)
    \<Rightarrow> ('z database_scheme, 'r option) action" where
  "first_row env rows = (\<lambda>db.
     (Ok (if step_ok env (db_tick db)
          then (case rows db of [] \<Rightarrow> None | r # _ \<Rightarrow> Some r) else None), bump_tick db))"

text \<open>A query read by \<open>while (sqlite3_step(..) == SQLITE_ROW)\<close>: a failing step ends the loop as
  the end of the rows does.\<close>

fun fetch :: "'e sqlite_scheme \<Rightarrow> nat \<Rightarrow> 'r list \<Rightarrow> 'r list" where
  "fetch env t [] = []"
| "fetch env t (r # rs) = (if step_ok env t then r # fetch env (Suc t) rs else [])"

definition all_rows :: "'e sqlite_scheme \<Rightarrow> (int \<Rightarrow> 'z database_scheme \<Rightarrow> 'r list)
    \<Rightarrow> ('z database_scheme, 'r list) action" where
  "all_rows env rows = (\<lambda>db.
     let got = fetch env (db_tick db) (rows (wall_clock env (db_tick db)) db)
     in (Ok got, db\<lparr>db_tick := Suc (db_tick db + length got)\<rparr>))"

section \<open>The operations\<close>

definition SaveMessageWithStatus :: "'e sqlite_scheme \<Rightarrow> message \<Rightarrow> MessageStatus
    \<Rightarrow> ('z database_scheme, u64) action" where
  "SaveMessageWithStatus env msg status = db_locked (
     seq (write_step env ''Failed to insert message: '' (sql_insert_message msg status))
         (ask (\<lambda>db. column_int64 (seq_messages db))))"

definition SaveMessage :: "'e sqlite_scheme \<Rightarrow> message \<Rightarrow> ('z database_scheme, u64) action" where
  "SaveMessage env msg = SaveMessageWithStatus env msg STATUS_PENDING"

definition MarkDelivered :: "'e sqlite_scheme \<Rightarrow> u64 \<Rightarrow> ('z database_scheme, unit) action" where
  "MarkDelivered env message_id = db_locked (
     write_step env ''Failed to mark message as delivered: '' (sql_update_delivered (bind_int64 message_id)))"

definition MarkSent :: "'e sqlite_scheme \<Rightarrow> u64 \<Rightarrow> ('z database_scheme, unit) action" where
  "MarkSent env message_id = db_locked (
     write_step env ''Failed to mark message as sent: ''
       (\<lambda>now. sql_update_status STATUS_SENT (bind_int64 message_id) STATUS_PENDING now))"

definition MarkPending :: "'e sqlite_scheme \<Rightarrow> u64 \<Rightarrow> ('z database_scheme, unit) action" where
  "MarkPending env message_id = db_locked (
     write_step env ''Failed to mark message as pending: ''
       (\<lambda>now. sql_update_status STATUS_PENDING (bind_int64 message_id) STATUS_SENT now))"

definition Storage_NeedsAck :: "'e sqlite_scheme \<Rightarrow> u64 \<Rightarrow> ('z database_scheme, bool) action" where
  "Storage_NeedsAck env message_id = db_locked (
     bind (first_row env (sql_select_needs_ack (bind_int64 message_id))) (\<lambda>row.
     ret (case row of None \<Rightarrow> False
        | Some r \<Rightarrow> (word_of_int (row_flags r) :: u8) AND FlagNeedsAck \<noteq> 0
            \<and> row_status r = STATUS_SENT)))"

definition SaveCorrelation :: "'e sqlite_scheme \<Rightarrow> u64 \<Rightarrow> u64 \<Rightarrow> string
    \<Rightarrow> ('z database_scheme, unit) action" where
  "SaveCorrelation env message_id corr original_sender = db_locked (
     write_step env ''Failed to save correlation: ''
       (sql_insert_correlation (bind_int64 message_id) (bind_int64 corr) (c_str original_sender)))"

definition FindOriginalSenderByCorrelation :: "'e sqlite_scheme \<Rightarrow> u64
    \<Rightarrow> ('z database_scheme, string) action" where
  "FindOriginalSenderByCorrelation env corr = db_locked (
     bind (first_row env (sql_select_by_corr env SelectOriginalSender (bind_int64 corr))) (\<lambda>row.
     ret (case row of None \<Rightarrow> [] | Some c \<Rightarrow> c_str (cr_sender c))))"

definition FindMessageIdByCorrelation :: "'e sqlite_scheme \<Rightarrow> u64
    \<Rightarrow> ('z database_scheme, u64) action" where
  "FindMessageIdByCorrelation env corr = db_locked (
     bind (first_row env (sql_select_by_corr env SelectMessageIdByCorr (bind_int64 corr))) (\<lambda>row.
     ret (case row of None \<Rightarrow> 0 | Some c \<Rightarrow> column_int64 (cr_message_id c))))"

definition FindMessageIdByCorrelationAndDestination :: "'e sqlite_scheme \<Rightarrow> u64 \<Rightarrow> string
    \<Rightarrow> ('z database_scheme, u64) action" where
  "FindMessageIdByCorrelationAndDestination env corr dest = db_locked (
     bind (first_row env (sql_select_by_corr_dest env (bind_int64 corr) (c_str dest))) (\<lambda>row.
     ret (case row of None \<Rightarrow> 0 | Some r \<Rightarrow> column_int64 (row_id r))))"

definition MarkAckReceived :: "'e sqlite_scheme \<Rightarrow> u64 \<Rightarrow> string \<Rightarrow> ('z database_scheme, unit) action" where
  "MarkAckReceived env message_id ack_sender = db_locked (
     bind (first_row env (sql_select_sender_by_msg_id env (bind_int64 message_id))) (\<lambda>row.
     let original_sender = (case row of None \<Rightarrow> [] | Some c \<Rightarrow> c_str (cr_sender c)) in
     if original_sender = ack_sender
     then try_catch (write_step env [] (sql_delete_correlation (bind_int64 message_id)))
            (\<lambda>_. ret ())  \<comment> \<open>the step's result is not looked at\<close>
     else ret ()))"

definition LoadExpiredSent :: "'e sqlite_scheme \<Rightarrow> int \<Rightarrow> ('z database_scheme, PendingMessage list) action" where
  "LoadExpiredSent env timeout_seconds = db_locked (
     bind (all_rows env (sql_select_expired_sent env timeout_seconds)) (\<lambda>rows.
     ret (map pending_of_row rows)))"

definition LoadPendingMessagesOnly :: "'e sqlite_scheme \<Rightarrow> string
    \<Rightarrow> ('z database_scheme, PendingMessage list) action" where
  "LoadPendingMessagesOnly env client_name = db_locked (
     bind (all_rows env (\<lambda>now. sql_select_pending_messages env (c_str client_name))) (\<lambda>rows.
     ret (map pending_of_row rows)))"

text \<open>The loop skips a row whose id is in \<open>unique_ids\<close>.\<close>

fun skip_seen :: "u64 set \<Rightarrow> mrow list \<Rightarrow> PendingMessage list" where
  "skip_seen unique_ids [] = []"
| "skip_seen unique_ids (r # rs) =
     (if column_int64 (row_id r) \<in> unique_ids then skip_seen unique_ids rs
      else pending_of_row r # skip_seen (insert (column_int64 (row_id r)) unique_ids) rs)"

definition LoadPendingRepliesForSenderOnly :: "'e sqlite_scheme \<Rightarrow> string
    \<Rightarrow> ('z database_scheme, PendingMessage list) action" where
  "LoadPendingRepliesForSenderOnly env sender_name = db_locked (
     bind (all_rows env (\<lambda>now. sql_select_pending_replies env (c_str sender_name))) (\<lambda>rows.
     ret (skip_seen {} rows)))"

section \<open>Evaluation on an unlocked database\<close>

lemma unlock_id [simp]: "\<not> db_mutex db \<Longrightarrow> db\<lparr>db_mutex := False\<rparr> = (db :: 'z database_scheme)"
  by (cases db) simp

lemma db_locked_apply:
  assumes "\<not> db_mutex db"
  shows "db_locked m db = (case m (db\<lparr>db_mutex := True\<rparr>) of
     (Fault x, t) \<Rightarrow> (Fault x, t) | (r, t) \<Rightarrow> (r, t\<lparr>db_mutex := False\<rparr>))"
  using assms by (simp add: db_locked_def locked_def)

lemma db_locked_held: "db_mutex db \<Longrightarrow> db_locked m db = (Fault SelfDeadlock, db)"
  by (simp add: db_locked_def locked_def)

lemmas storage_defs = db_locked_apply write_step_def first_row_def all_rows_def bind_def seq_def
  try_catch_def bump_tick_def Let_def

lemma SaveMessage_apply:
  assumes "\<not> db_mutex db"
  shows "SaveMessage env m db =
    (if step_ok env (db_tick db) \<and> seq_messages db < MAX_ROWID
     then (Ok (column_int64 (seq_messages db + 1)),
           db\<lparr>messages := messages db @ [row_of_message m STATUS_PENDING (seq_messages db + 1)
                (wall_clock env (db_tick db))],
              seq_messages := seq_messages db + 1, db_tick := Suc (db_tick db)\<rparr>)
     else (Throw (RuntimeError (''Failed to insert message: '' @ sqlite_errmsg env (db_tick db))), bump_tick db))"
  using assms
  by (simp add: SaveMessage_def SaveMessageWithStatus_def storage_defs sql_insert_message_def)

lemma MarkDelivered_apply:
  assumes "\<not> db_mutex db"
  shows "MarkDelivered env i db =
    (if step_ok env (db_tick db)
     then (Ok (), db\<lparr>messages := map (\<lambda>r. if row_id r = bind_int64 i then r\<lparr>row_status := STATUS_DELIVERED,
              row_delivered := Some (wall_clock env (db_tick db))\<rparr> else r) (messages db),
              db_tick := Suc (db_tick db)\<rparr>)
     else (Throw (RuntimeError (''Failed to mark message as delivered: '' @ sqlite_errmsg env (db_tick db))), bump_tick db))"
  using assms by (simp add: MarkDelivered_def storage_defs sql_update_delivered_def)

lemma MarkSent_apply:
  assumes "\<not> db_mutex db"
  shows "MarkSent env i db =
    (if step_ok env (db_tick db)
     then (Ok (), db\<lparr>messages := map (\<lambda>r. if row_id r = bind_int64 i \<and> row_status r = STATUS_PENDING
              then r\<lparr>row_status := STATUS_SENT\<rparr> else r) (messages db), db_tick := Suc (db_tick db)\<rparr>)
     else (Throw (RuntimeError (''Failed to mark message as sent: '' @ sqlite_errmsg env (db_tick db))), bump_tick db))"
  using assms by (simp add: MarkSent_def storage_defs sql_update_status_def)

lemma MarkPending_apply:
  assumes "\<not> db_mutex db"
  shows "MarkPending env i db =
    (if step_ok env (db_tick db)
     then (Ok (), db\<lparr>messages := map (\<lambda>r. if row_id r = bind_int64 i \<and> row_status r = STATUS_SENT
              then r\<lparr>row_status := STATUS_PENDING\<rparr> else r) (messages db), db_tick := Suc (db_tick db)\<rparr>)
     else (Throw (RuntimeError (''Failed to mark message as pending: '' @ sqlite_errmsg env (db_tick db))), bump_tick db))"
  using assms by (simp add: MarkPending_def storage_defs sql_update_status_def)

lemma SaveCorrelation_apply:
  assumes "\<not> db_mutex db"
  shows "SaveCorrelation env i c orig db =
    (if step_ok env (db_tick db) \<and> seq_correlations db < MAX_ROWID
        \<and> (foreign_keys db \<longrightarrow> bind_int64 i \<in> row_id ` set (messages db))
     then (Ok (), db\<lparr>correlations :=
              filter (\<lambda>x. \<not> (cr_corr x = bind_int64 c \<and> cr_sender x = c_str orig)) (correlations db)
              @ [\<lparr>cr_id = seq_correlations db + 1, cr_message_id = bind_int64 i, cr_corr = bind_int64 c,
                  cr_sender = c_str orig, cr_created = wall_clock env (db_tick db)\<rparr>],
              seq_correlations := seq_correlations db + 1, db_tick := Suc (db_tick db)\<rparr>)
     else (Throw (RuntimeError (''Failed to save correlation: '' @ sqlite_errmsg env (db_tick db))), bump_tick db))"
  using assms by (simp add: SaveCorrelation_def storage_defs sql_insert_correlation_def)

text \<open>The reading operations change the step counter only.\<close>

lemma reads_apply:
  assumes "\<not> db_mutex db"
  shows "Storage_NeedsAck env i db =
      (Ok (step_ok env (db_tick db) \<and> (case sql_select_needs_ack (bind_int64 i) db of [] \<Rightarrow> False
         | r # _ \<Rightarrow> (word_of_int (row_flags r) :: u8) AND FlagNeedsAck \<noteq> 0 \<and> row_status r = STATUS_SENT)),
       bump_tick db)"
    and "FindOriginalSenderByCorrelation env c db =
      (Ok (if step_ok env (db_tick db) then (case sql_select_by_corr env SelectOriginalSender (bind_int64 c) db
         of [] \<Rightarrow> [] | x # _ \<Rightarrow> c_str (cr_sender x)) else []), bump_tick db)"
    and "FindMessageIdByCorrelation env c db =
      (Ok (if step_ok env (db_tick db) then (case sql_select_by_corr env SelectMessageIdByCorr (bind_int64 c) db
         of [] \<Rightarrow> 0 | x # _ \<Rightarrow> column_int64 (cr_message_id x)) else 0), bump_tick db)"
    and "FindMessageIdByCorrelationAndDestination env c dest db =
      (Ok (if step_ok env (db_tick db) then (case sql_select_by_corr_dest env (bind_int64 c) (c_str dest) db
         of [] \<Rightarrow> 0 | r # _ \<Rightarrow> column_int64 (row_id r)) else 0), bump_tick db)"
  using assms
  by (auto simp: Storage_NeedsAck_def FindOriginalSenderByCorrelation_def FindMessageIdByCorrelation_def
      FindMessageIdByCorrelationAndDestination_def storage_defs sql_select_needs_ack_def
      sql_select_by_corr_def sql_select_by_corr_dest_def split: list.splits)

lemma loads_apply:
  assumes "\<not> db_mutex db"
  shows "LoadExpiredSent env timeout db =
      (let got = fetch env (db_tick db) (sql_select_expired_sent env timeout (wall_clock env (db_tick db)) db)
       in (Ok (map pending_of_row got), db\<lparr>db_tick := Suc (db_tick db + length got)\<rparr>))"
    and "LoadPendingMessagesOnly env name db =
      (let got = fetch env (db_tick db) (sql_select_pending_messages env (c_str name) db)
       in (Ok (map pending_of_row got), db\<lparr>db_tick := Suc (db_tick db + length got)\<rparr>))"
    and "LoadPendingRepliesForSenderOnly env name db =
      (let got = fetch env (db_tick db) (sql_select_pending_replies env (c_str name) db)
       in (Ok (skip_seen {} got), db\<lparr>db_tick := Suc (db_tick db + length got)\<rparr>))"
  using assms
  by (simp_all add: LoadExpiredSent_def LoadPendingMessagesOnly_def LoadPendingRepliesForSenderOnly_def
      storage_defs sql_select_expired_sent_def sql_select_pending_messages_def
      sql_select_pending_replies_def)

end
