(* ===== verification/Storage_Facts.thy ===== *)
theory Storage_Facts
  imports Storage
begin

text \<open>
  What the store guarantees: the invariant of its tables, the log it keeps (rows are only
  added, and only their status changes), the abstract map from message ids to messages and
  statuses it implements, and what its queries return.
\<close>

section \<open>Columns\<close>

lemma column_bind_int64 [simp]: "column_int64 (bind_int64 w) = w"
  by (simp add: column_int64_def bind_int64_def)

lemma bind_int64_inject [simp]: "bind_int64 v = bind_int64 w \<longleftrightarrow> v = w"
  by (metis column_bind_int64)

lemma bind_column_int64:
  assumes "0 \<le> i" "i \<le> MAX_ROWID"
  shows "bind_int64 (column_int64 i) = i"
  using assms
  by (simp add: bind_int64_def column_int64_def MAX_ROWID_def sint_sbintrunc' signed_take_bit_int_eq_self)

lemma c_str_idem [simp]: "c_str (c_str s) = c_str s"
  by (auto simp: c_str_def takeWhile_eq_all_conv dest: set_takeWhileD)

lemma c_str_id: "CHR 0x00 \<notin> set s \<Longrightarrow> c_str s = s"
  by (auto simp: c_str_def takeWhile_eq_all_conv)

text \<open>What a message is read rowid as: its names end at the first NUL.\<close>

definition stored_form :: "message \<Rightarrow> message" where
  "stored_form m = m\<lparr>sender := c_str (sender m), destination := c_str (destination m)\<rparr>"

lemma word_of_int_uint_8 [simp]: "(word_of_int (uint (w :: u8)) :: u8) = w"
  by simp

lemma message_of_row_of_message:
  "proper_type (msg_type m) \<Longrightarrow> message_of_row (row_of_message m st i now) = stored_form m"
  by (cases m) (simp add: message_of_row_def row_of_message_def stored_form_def type_of_byte_byte)

lemma row_of_message_sel [simp]:
  "row_id (row_of_message m st i now) = i" "row_status (row_of_message m st i now) = st"
  "row_created (row_of_message m st i now) = now"
  "row_dest (row_of_message m st i now) = c_str (destination m)"
  "row_type (row_of_message m st i now) = uint (type_byte (msg_type m))"
  "row_corr (row_of_message m st i now) = bind_int64 (correlation_id m)"
  by (simp_all add: row_of_message_def)

lemma stored_form_id:
  "CHR 0x00 \<notin> set (sender m) \<Longrightarrow> CHR 0x00 \<notin> set (destination m) \<Longrightarrow> stored_form m = m"
  by (simp add: stored_form_def c_str_id)

lemma message_of_row_status [simp]:
  "message_of_row (r\<lparr>row_status := st\<rparr>) = message_of_row r"
  "message_of_row (r\<lparr>row_delivered := d\<rparr>) = message_of_row r"
  by (simp_all add: message_of_row_def)

section \<open>Two-state properties of the store\<close>

text \<open>A relation every statement respects is respected by every operation of the store.\<close>

locale db_two_state = two_state R for R :: "('z database_scheme) \<Rightarrow> 'z database_scheme \<Rightarrow> bool" +
  assumes tick_R: "R db (db\<lparr>db_tick := n\<rparr>)"
    and mutex_R: "R db (db\<lparr>db_mutex := b\<rparr>)"
    and insert_message_R: "sql_insert_message m STATUS_PENDING now db = Some db' \<Longrightarrow> R db db'"
    and delivered_R: "sql_update_delivered i now db = Some db' \<Longrightarrow> R db db'"
    and sent_R: "sql_update_status STATUS_SENT i STATUS_PENDING now db = Some db' \<Longrightarrow> R db db'"
    and pending_R: "sql_update_status STATUS_PENDING i STATUS_SENT now db = Some db' \<Longrightarrow> R db db'"
    and insert_correlation_R: "sql_insert_correlation i c orig now db = Some db' \<Longrightarrow> R db db'"
    and delete_correlation_R: "sql_delete_correlation i now db = Some db' \<Longrightarrow> R db db'"
begin

lemma db_locked_R: "always R m \<Longrightarrow> always R (db_locked m)"
  unfolding db_locked_def by (rule locked_always) (simp_all add: mutex_R)

lemma write_step_R:
  assumes "\<And>now db db'. stmt now db = Some db' \<Longrightarrow> R db db'"
  shows "always R (write_step env err stmt)"
  using trans_R [OF tick_R assms]
  by (auto simp: always_def write_step_def bump_tick_def tick_R split: option.splits)

lemma first_row_R: "always R (first_row env rows)"
  by (simp add: always_def first_row_def bump_tick_def tick_R)

lemma all_rows_R: "always R (all_rows env rows)"
  by (simp add: always_def all_rows_def tick_R Let_def)

lemmas steps = db_locked_R first_row_R all_rows_R combinators

lemma SaveMessage_R: "always R (SaveMessage env m)"
  unfolding SaveMessage_def SaveMessageWithStatus_def
  by (intro steps write_step_R) (rule insert_message_R)

lemma MarkDelivered_R: "always R (MarkDelivered env i)"
  unfolding MarkDelivered_def by (intro steps write_step_R) (rule delivered_R)

lemma MarkSent_R: "always R (MarkSent env i)"
  unfolding MarkSent_def by (intro steps write_step_R) (rule sent_R)

lemma MarkPending_R: "always R (MarkPending env i)"
  unfolding MarkPending_def by (intro steps write_step_R) (rule pending_R)

lemma SaveCorrelation_R: "always R (SaveCorrelation env i c orig)"
  unfolding SaveCorrelation_def by (intro steps write_step_R) (rule insert_correlation_R)

lemma MarkAckReceived_R: "always R (MarkAckReceived env i s)"
  unfolding MarkAckReceived_def Let_def by (intro steps write_step_R) (rule delete_correlation_R)

lemma reads_R:
  "always R (Storage_NeedsAck env i)" "always R (FindOriginalSenderByCorrelation env c)"
  "always R (FindMessageIdByCorrelation env c)"
  "always R (FindMessageIdByCorrelationAndDestination env c dest)"
  "always R (LoadExpiredSent env timeout)" "always R (LoadPendingMessagesOnly env name)"
  "always R (LoadPendingRepliesForSenderOnly env name)"
  unfolding Storage_NeedsAck_def FindOriginalSenderByCorrelation_def FindMessageIdByCorrelation_def
    FindMessageIdByCorrelationAndDestination_def LoadExpiredSent_def LoadPendingMessagesOnly_def
    LoadPendingRepliesForSenderOnly_def
  by (intro steps)+

lemmas storage_R = SaveMessage_R MarkDelivered_R MarkSent_R MarkPending_R SaveCorrelation_R
  MarkAckReceived_R reads_R

end

section \<open>The invariant of the tables\<close>

text \<open>Row ids are unique and not above the \<open>AUTOINCREMENT\<close> sequence, the columns hold what the
  insert wrote, the unique index on (correlation_id, original_sender) holds, and so does the
  foreign key while it is enforced.\<close>

definition column_ok :: "mrow \<Rightarrow> bool" where
  "column_ok r = (0 \<le> row_type r \<and> row_type r < 256 \<and> 0 \<le> row_flags r \<and> row_flags r < 256
     \<and> c_str (row_sender r) = row_sender r \<and> c_str (row_dest r) = row_dest r
     \<and> bind_int64 (column_int64 (row_corr r)) = row_corr r \<and> row_payload r \<noteq> Some [])"

definition db_wf :: "'z database_scheme \<Rightarrow> bool" where
  "db_wf db = (distinct (map row_id (messages db))
     \<and> (\<forall>r \<in> set (messages db). 0 < row_id r \<and> row_id r \<le> seq_messages db \<and> column_ok r)
     \<and> 0 \<le> seq_messages db \<and> seq_messages db \<le> MAX_ROWID
     \<and> distinct (map (\<lambda>c. (cr_corr c, cr_sender c)) (correlations db))
     \<and> (foreign_keys db \<longrightarrow> (\<forall>c \<in> set (correlations db). cr_message_id c \<in> row_id ` set (messages db))))"

definition empty_database :: "database" where
  "empty_database = \<lparr>messages = [], correlations = [], seq_messages = 0, seq_correlations = 0,
     foreign_keys = True, db_mutex = False, db_tick = 0\<rparr>"

lemma db_wf_empty: "db_wf empty_database"
  by (simp add: db_wf_def empty_database_def MAX_ROWID_def)

lemma column_ok_row_of_message: "column_ok (row_of_message m st i now)"
  using uint_lt2p [of "type_byte (msg_type m)"] uint_lt2p [of "flags m"]
  by (simp add: column_ok_def row_of_message_def)

lemma column_ok_update [simp]:
  "column_ok (r\<lparr>row_status := st\<rparr>) = column_ok r" "column_ok (r\<lparr>row_delivered := d\<rparr>) = column_ok r"
  by (simp_all add: column_ok_def)

lemma db_wf_frame [simp]:
  "db_wf (db\<lparr>db_tick := n\<rparr>) = db_wf db" "db_wf (db\<lparr>db_mutex := b\<rparr>) = db_wf db"
  by (simp_all add: db_wf_def)

lemma db_wf_map:
  assumes "db_wf db" "\<And>r. row_id (f r) = row_id r" "\<And>r. column_ok r \<Longrightarrow> column_ok (f r)"
  shows "db_wf (db\<lparr>messages := map f (messages db)\<rparr>)"
proof -
  have ids: "map row_id (map f rs) = map row_id rs" for rs
    using assms(2) by simp
  have id_set: "row_id ` f ` A = row_id ` A" for A
    using assms(2) by (simp add: image_image)
  show ?thesis using assms ids id_set by (simp add: db_wf_def comp_def)
qed

lemma db_wf_insert_message:
  "db_wf db \<Longrightarrow> sql_insert_message m st now db = Some db' \<Longrightarrow> db_wf db'"
proof -
  assume wf: "db_wf db" and ins: "sql_insert_message m st now db = Some db'"
  let ?r = "row_of_message m st (seq_messages db + 1) now"
  have r: "row_id ?r = seq_messages db + 1" "column_ok ?r"
    by (simp add: row_of_message_def, rule column_ok_row_of_message)
  have db': "db' = db\<lparr>messages := messages db @ [?r], seq_messages := seq_messages db + 1\<rparr>"
    and room: "seq_messages db < MAX_ROWID"
    using ins by (auto simp: sql_insert_message_def split: if_splits)
  have "\<forall>x \<in> set (messages db). 0 < row_id x \<and> row_id x \<le> seq_messages db + 1 \<and> column_ok x
      \<and> row_id x \<noteq> seq_messages db + 1"
    using wf by (fastforce simp: db_wf_def)
  then show ?thesis using wf room r by (auto simp: db' db_wf_def)
qed

lemma db_wf_insert_correlation:
  "db_wf db \<Longrightarrow> sql_insert_correlation i c orig now db = Some db' \<Longrightarrow> db_wf db'"
  by (auto simp: db_wf_def sql_insert_correlation_def distinct_map inj_on_def split: if_splits)

interpretation wf_kept: db_two_state "\<lambda>s t. db_wf s \<longrightarrow> db_wf (t :: 'z database_scheme)"
proof unfold_locales
  fix db db' :: "'z database_scheme" and i now :: int
  show "sql_update_delivered i now db = Some db' \<Longrightarrow> db_wf db \<longrightarrow> db_wf db'"
    by (auto simp: sql_update_delivered_def intro!: db_wf_map)
  show "sql_update_status STATUS_SENT i STATUS_PENDING now db = Some db' \<Longrightarrow> db_wf db \<longrightarrow> db_wf db'"
    by (auto simp: sql_update_status_def intro!: db_wf_map)
  show "sql_update_status STATUS_PENDING i STATUS_SENT now db = Some db' \<Longrightarrow> db_wf db \<longrightarrow> db_wf db'"
    by (auto simp: sql_update_status_def intro!: db_wf_map)
  show "sql_delete_correlation i now db = Some db' \<Longrightarrow> db_wf db \<longrightarrow> db_wf db'"
    by (auto simp: sql_delete_correlation_def db_wf_def distinct_map inj_on_def)
  show "sql_insert_message m STATUS_PENDING now db = Some db' \<Longrightarrow> db_wf db \<longrightarrow> db_wf db'" for m
    by (blast intro: db_wf_insert_message)
  show "sql_insert_correlation i c orig now db = Some db' \<Longrightarrow> db_wf db \<longrightarrow> db_wf db'" for c orig
    by (blast intro: db_wf_insert_correlation)
qed auto

section \<open>The message log\<close>

text \<open>Rows are never removed, reordered or rewritten; a delivered row stays delivered.\<close>

definition row_content :: "mrow \<Rightarrow> mrow" where
  "row_content r = r\<lparr>row_status := STATUS_PENDING, row_delivered := None\<rparr>"

definition row_kept :: "mrow \<Rightarrow> mrow \<Rightarrow> bool" where
  "row_kept r r' = (row_content r' = row_content r
     \<and> (row_status r = STATUS_DELIVERED \<longrightarrow> row_status r' = STATUS_DELIVERED))"

definition log_extends :: "'z database_scheme \<Rightarrow> 'z database_scheme \<Rightarrow> bool" where
  "log_extends s t = (\<exists>rs new. messages t = rs @ new \<and> list_all2 row_kept (messages s) rs)"

lemma row_kept_refl [simp]: "row_kept r r"
  by (simp add: row_kept_def)

lemma row_kept_trans: "row_kept a b \<Longrightarrow> row_kept b c \<Longrightarrow> row_kept a c"
  by (simp add: row_kept_def)

lemma log_extends_append: "messages t = messages s @ new \<Longrightarrow> log_extends s t"
  unfolding log_extends_def
  by (rule exI [of _ "messages s"], rule exI [of _ new]) (simp add: list_all2_refl)

lemma log_extends_same: "messages t = messages s \<Longrightarrow> log_extends s t"
  by (rule log_extends_append [where new = "[]"]) simp

lemma log_extends_trans: "log_extends s t \<Longrightarrow> log_extends t u \<Longrightarrow> log_extends s u"
proof -
  assume "log_extends s t" and "log_extends t u"
  then obtain rs new rs' new' where t: "messages t = rs @ new" "list_all2 row_kept (messages s) rs"
    and u: "messages u = rs' @ new'" "list_all2 row_kept (rs @ new) rs'"
    by (auto simp: log_extends_def)
  from u(2) obtain us vs where rs': "rs' = us @ vs" "list_all2 row_kept rs us"
    by (auto simp: list_all2_append1)
  have "list_all2 row_kept (messages s) us"
    using row_kept_trans t(2) rs'(2) by (rule list_all2_trans)
  then show ?thesis using u(1) rs'(1) by (auto simp: log_extends_def)
qed

lemma log_extends_map:
  assumes "\<And>r. row_kept r (f r)" "messages t = map f (messages s)"
  shows "log_extends s t"
  unfolding log_extends_def
  by (rule exI [of _ "map f (messages s)"], rule exI [of _ "[]"])
     (simp add: assms list_all2_map2 list_all2_refl)

interpretation log: db_two_state "log_extends :: 'z database_scheme \<Rightarrow> 'z database_scheme \<Rightarrow> bool"
proof unfold_locales
  fix db db' :: "'z database_scheme" and i now :: int and m
  show "sql_insert_message m STATUS_PENDING now db = Some db' \<Longrightarrow> log_extends db db'"
    by (auto simp: sql_insert_message_def split: if_splits
        intro!: log_extends_append [where new = "[row_of_message m STATUS_PENDING (seq_messages db + 1) now]"])
  show "sql_update_delivered i now db = Some db' \<Longrightarrow> log_extends db db'"
    by (rule log_extends_map [where f = "\<lambda>r. if row_id r = i
          then r\<lparr>row_status := STATUS_DELIVERED, row_delivered := Some now\<rparr> else r"])
       (auto simp: sql_update_delivered_def row_kept_def row_content_def)
  show "sql_update_status STATUS_SENT i STATUS_PENDING now db = Some db' \<Longrightarrow> log_extends db db'"
    by (rule log_extends_map [where f = "\<lambda>r. if row_id r = i \<and> row_status r = STATUS_PENDING
          then r\<lparr>row_status := STATUS_SENT\<rparr> else r"])
       (auto simp: sql_update_status_def row_kept_def row_content_def)
  show "sql_update_status STATUS_PENDING i STATUS_SENT now db = Some db' \<Longrightarrow> log_extends db db'"
    by (rule log_extends_map [where f = "\<lambda>r. if row_id r = i \<and> row_status r = STATUS_SENT
          then r\<lparr>row_status := STATUS_PENDING\<rparr> else r"])
       (auto simp: sql_update_status_def row_kept_def row_content_def)
qed (auto simp: sql_insert_correlation_def sql_delete_correlation_def
    intro: log_extends_same log_extends_trans split: if_splits)

section \<open>The abstract store\<close>

text \<open>What the tables stand for: a map from message ids to the message and its status.\<close>

definition stored :: "'z database_scheme \<Rightarrow> u64 \<rightharpoonup> message \<times> MessageStatus" where
  "stored db = map_of (map (\<lambda>r. (column_int64 (row_id r), (message_of_row r, row_status r)))
     (messages db))"

definition ready :: "'z database_scheme \<Rightarrow> bool" where
  "ready db = (db_wf db \<and> \<not> db_mutex db)"

lemma readyD: "ready db \<Longrightarrow> db_wf db" "ready db \<Longrightarrow> \<not> db_mutex db"
  by (simp_all add: ready_def)

lemma ready_ids:
  assumes "ready db" "r \<in> set (messages db)"
  shows "bind_int64 (column_int64 (row_id r)) = row_id r" "column_int64 (row_id r) \<noteq> 0"
proof -
  have "0 < row_id r \<and> row_id r \<le> MAX_ROWID"
    using assms by (fastforce simp: ready_def db_wf_def)
  then show eq: "bind_int64 (column_int64 (row_id r)) = row_id r" by (simp add: bind_column_int64)
  show "column_int64 (row_id r) \<noteq> 0"
    using eq \<open>0 < row_id r \<and> _\<close> by (auto simp: bind_int64_def)
qed

lemma stored_SomeD:
  assumes "stored db i = Some (m, st)"
  obtains r where "r \<in> set (messages db)" "column_int64 (row_id r) = i" "message_of_row r = m"
    "row_status r = st"
  using map_of_SomeD [OF assms [unfolded stored_def]] by auto

lemma distinct_columns:
  assumes "ready db"
  shows "distinct (map (\<lambda>r. column_int64 (row_id r)) (messages db))"
proof -
  have "distinct (map row_id (messages db))" using assms by (simp add: ready_def db_wf_def)
  moreover have "inj_on column_int64 (row_id ` set (messages db))"
    by (rule inj_on_inverseI [where g = bind_int64]) (auto simp: ready_ids [OF assms])
  ultimately show ?thesis by (auto simp: distinct_map inj_on_def)
qed

lemma stored_iff:
  assumes "ready db"
  shows "stored db i = Some (m, st) \<longleftrightarrow>
    (\<exists>r \<in> set (messages db). column_int64 (row_id r) = i \<and> message_of_row r = m \<and> row_status r = st)"
proof -
  have "distinct (map fst (map (\<lambda>r. (column_int64 (row_id r), (message_of_row r, row_status r)))
      (messages db)))"
    using distinct_columns [OF assms] by (simp add: comp_def)
  then show ?thesis by (auto simp: stored_def)
qed

lemma stored_cong: "messages t = messages s \<Longrightarrow> stored t = stored s"
  by (simp add: stored_def)

lemma stored_update:
  assumes ids: "\<forall>r \<in> set rs. bind_int64 (column_int64 (row_id r)) = row_id r"
    and f: "\<And>r. f r = (if row_id r = bind_int64 i then g r else r)"
    and g: "\<And>r. row_id (g r) = row_id r" "\<And>r. message_of_row (g r) = message_of_row r"
      "\<And>r. row_status (g r) = h (row_status r)"
  shows "map_of (map (\<lambda>r. (column_int64 (row_id r), (message_of_row r, row_status r))) (map f rs))
    = (map_of (map (\<lambda>r. (column_int64 (row_id r), (message_of_row r, row_status r))) rs))
        (i := map_option (\<lambda>(m, st). (m, h st))
           (map_of (map (\<lambda>r. (column_int64 (row_id r), (message_of_row r, row_status r))) rs) i))"
  using ids
proof (induction rs)
  case (Cons r rs)
  have "row_id r = bind_int64 i \<longleftrightarrow> column_int64 (row_id r) = i"
    using Cons.prems by (metis column_bind_int64 list.set_intros(1))
  with Cons show ?case by (auto simp: f g fun_eq_iff)
qed auto

text \<open>How a mark changes a status; the code's \<open>WHERE status = ?\<close> guards two of the three.\<close>

fun next_status :: "MessageStatus \<Rightarrow> MessageStatus \<Rightarrow> MessageStatus" where
  "next_status STATUS_DELIVERED old = STATUS_DELIVERED"
| "next_status STATUS_SENT old = (if old = STATUS_PENDING then STATUS_SENT else old)"
| "next_status STATUS_PENDING old = (if old = STATUS_SENT then STATUS_PENDING else old)"

fun mark_as :: "'e sqlite_scheme \<Rightarrow> MessageStatus \<Rightarrow> u64 \<Rightarrow> ('z database_scheme, unit) action" where
  "mark_as env STATUS_DELIVERED i = MarkDelivered env i"
| "mark_as env STATUS_SENT i = MarkSent env i"
| "mark_as env STATUS_PENDING i = MarkPending env i"

lemma ready_SaveMessage: "ready db \<Longrightarrow> ready (snd (SaveMessage env m db))"
proof -
  assume r: "ready db"
  have "db_wf (snd (SaveMessage env m db))"
    using wf_kept.SaveMessage_R [of env m] r by (auto simp: always_def ready_def)
  moreover have "\<not> db_mutex (snd (SaveMessage env m db))"
    using r by (simp add: SaveMessage_apply ready_def bump_tick_def)
  ultimately show ?thesis by (simp add: ready_def)
qed

lemma ready_mark_as: "ready db \<Longrightarrow> ready (snd (mark_as env st i db))"
proof -
  assume r: "ready db"
  have "db_wf (snd (mark_as env st i db))"
    using wf_kept.MarkDelivered_R [of env i] wf_kept.MarkSent_R [of env i]
      wf_kept.MarkPending_R [of env i] r
    by (cases st) (auto simp: always_def ready_def)
  moreover have "\<not> db_mutex (snd (mark_as env st i db))"
    using r by (cases st) (simp_all add: MarkDelivered_apply MarkSent_apply MarkPending_apply
        ready_def bump_tick_def)
  ultimately show ?thesis by (simp add: ready_def)
qed

lemma stored_SaveMessage:
  assumes r: "ready db" and p: "proper_type (msg_type m)" and ok: "SaveMessage env m db = (Ok i, t)"
  shows "i \<noteq> 0 \<and> stored db i = None \<and> stored t = (stored db)(i \<mapsto> (stored_form m, STATUS_PENDING))"
proof -
  let ?n = "seq_messages db + 1"
  let ?r = "row_of_message m STATUS_PENDING ?n (wall_clock env (db_tick db))"
  have i: "i = column_int64 ?n" and t: "messages t = messages db @ [?r]" and room: "?n \<le> MAX_ROWID"
    using ok readyD(2) [OF r] by (auto simp: SaveMessage_apply split: if_splits)
  have pos: "0 < ?n" using r by (simp add: ready_def db_wf_def)
  have rowid: "bind_int64 i = ?n" using pos room i by (simp add: bind_column_int64)
  have "i \<noteq> 0" using rowid pos by (auto simp: bind_int64_def)
  moreover have none: "stored db i = None"
  proof (rule ccontr)
    assume "stored db i \<noteq> None"
    then obtain x where x: "x \<in> set (messages db)" "column_int64 (row_id x) = i"
      by (force elim: stored_SomeD)
    then have "row_id x = ?n" using ready_ids(1) [OF r x(1)] rowid by simp
    then show False using r x(1) by (fastforce simp: ready_def db_wf_def)
  qed
  moreover have "stored t = (stored db)(i \<mapsto> (stored_form m, STATUS_PENDING))"
    using none p by (auto simp: stored_def t i message_of_row_of_message
        fun_eq_iff map_add_def split: option.splits)
  ultimately show ?thesis by simp
qed

lemma stored_mark_as:
  assumes r: "ready db" and ok: "mark_as env new i db = (Ok u, t)"
  shows "stored t = (stored db)(i := map_option (\<lambda>(m, st). (m, next_status new st)) (stored db i))"
proof -
  have ids: "\<forall>x \<in> set (messages db). bind_int64 (column_int64 (row_id x)) = row_id x"
    using ready_ids(1) [OF r] by blast
  note go = MarkDelivered_apply [OF readyD(2) [OF r]] MarkSent_apply [OF readyD(2) [OF r]]
    MarkPending_apply [OF readyD(2) [OF r]]
  have same: "row_id x = bind_int64 i \<and> row_status x = old
      \<Longrightarrow> x\<lparr>row_status := next_status st (row_status x)\<rparr> = x\<lparr>row_status := next_status st old\<rparr>"
    "row_status x \<noteq> STATUS_PENDING \<Longrightarrow> x\<lparr>row_status := next_status STATUS_SENT (row_status x)\<rparr> = x"
    "row_status x \<noteq> STATUS_SENT \<Longrightarrow> x\<lparr>row_status := next_status STATUS_PENDING (row_status x)\<rparr> = x"
    for x :: mrow and st old
    by (cases x; simp)+
  show ?thesis
  proof (cases new)
    case STATUS_DELIVERED
    with ok show ?thesis
      by (auto simp: go stored_def simp del: map_map split: if_splits
          intro!: stored_update [OF ids, where g = "\<lambda>x. x\<lparr>row_status := STATUS_DELIVERED,
            row_delivered := Some (wall_clock env (db_tick db))\<rparr>"])
  next
    case STATUS_SENT
    with ok show ?thesis
      by (auto simp: go stored_def same simp del: map_map split: if_splits
          intro!: stored_update [OF ids, where g = "\<lambda>x. x\<lparr>row_status := next_status STATUS_SENT (row_status x)\<rparr>"])
  next
    case STATUS_PENDING
    with ok show ?thesis
      by (auto simp: go stored_def same simp del: map_map split: if_splits
          intro!: stored_update [OF ids, where g = "\<lambda>x. x\<lparr>row_status := next_status STATUS_PENDING (row_status x)\<rparr>"])
  qed
qed

lemma stored_throw:
  "ready db \<Longrightarrow> SaveMessage env m db = (Throw e, t) \<Longrightarrow> stored t = stored db"
  "ready db \<Longrightarrow> mark_as env st i db = (Throw e, t) \<Longrightarrow> stored t = stored db"
  by (cases st; auto simp: ready_def SaveMessage_apply MarkDelivered_apply MarkSent_apply
      MarkPending_apply bump_tick_def stored_def split: if_splits)+

lemma store_total:
  "ready db \<Longrightarrow> no_fault (fst (SaveMessage env m db))"
  "ready db \<Longrightarrow> no_fault (fst (mark_as env st i db))"
  by (cases st; simp add: ready_def SaveMessage_apply MarkDelivered_apply MarkSent_apply
      MarkPending_apply)+

end
