(* ===== verification/Store_Contract.thy ===== *)
theory Store_Contract
  imports Storage_Facts
begin

text \<open>
  The contract of \<open>IStorage\<close> (include/interfaces.hpp) as its clients use it: an abstract map
  from message ids to messages and delivery statuses, saving and the three status changes on
  it, and what follows for any sequence of calls. \<open>Storage\<close> implements it.
\<close>

datatype store_call = Save message | Mark MessageStatus u64

text \<open>A sequence of calls whose exceptions the caller handles one by one.\<close>

fun run_calls :: "(message \<Rightarrow> ('s, u64) action) \<Rightarrow> (MessageStatus \<Rightarrow> u64 \<Rightarrow> ('s, unit) action)
    \<Rightarrow> store_call list \<Rightarrow> 's \<Rightarrow> 's" where
  "run_calls save mark [] s = s"
| "run_calls save mark (Save m # cs) s = run_calls save mark cs (snd (save m s))"
| "run_calls save mark (Mark st i # cs) s = run_calls save mark cs (snd (mark st i s))"

locale message_store =
  fixes wf :: "'s \<Rightarrow> bool"
    and view :: "'s \<Rightarrow> u64 \<rightharpoonup> message \<times> MessageStatus"
    and form :: "message \<Rightarrow> message"
    and storable :: "message \<Rightarrow> bool"
    and save :: "message \<Rightarrow> ('s, u64) action"
    and mark :: "MessageStatus \<Rightarrow> u64 \<Rightarrow> ('s, unit) action"
  assumes save_wf: "wf s \<Longrightarrow> wf (snd (save m s))"
    and save_ok: "wf s \<Longrightarrow> storable m \<Longrightarrow> save m s = (Ok i, t) \<Longrightarrow>
      i \<noteq> 0 \<and> view s i = None \<and> view t = (view s)(i \<mapsto> (form m, STATUS_PENDING))"
    and save_throw: "wf s \<Longrightarrow> save m s = (Throw e, t) \<Longrightarrow> view t = view s"
    and save_total: "wf s \<Longrightarrow> no_fault (fst (save m s))"
    and mark_wf: "wf s \<Longrightarrow> wf (snd (mark st i s))"
    and mark_ok: "wf s \<Longrightarrow> mark st i s = (Ok u, t) \<Longrightarrow>
      view t = (view s)(i := map_option (\<lambda>(m, old). (m, next_status st old)) (view s i))"
    and mark_throw: "wf s \<Longrightarrow> mark st i s = (Throw e, t) \<Longrightarrow> view t = view s"
    and mark_total: "wf s \<Longrightarrow> no_fault (fst (mark st i s))"
begin

lemma save_keeps:
  assumes "wf s" "storable m'" "view s i = Some (m, st)"
  shows "view (snd (save m' s)) i = Some (m, st)"
proof -
  obtain r t where rt: "save m' s = (r, t)" by (cases "save m' s")
  show ?thesis
  proof (cases r)
    case (Ok j)
    then show ?thesis using save_ok [OF assms(1,2)] rt assms(3) by auto
  next
    case (Throw e)
    then show ?thesis using save_throw [OF assms(1)] rt assms(3) by simp
  next
    case (Fault x)
    then show ?thesis using save_total [OF assms(1), of m'] rt by simp
  qed
qed

lemma mark_moves:
  assumes "wf s" "view s i = Some (m, old)"
  obtains "view (snd (mark st j s)) i = Some (m, old)"
    | "j = i" "view (snd (mark st j s)) i = Some (m, next_status st old)"
proof -
  obtain r t where rt: "mark st j s = (r, t)" by (cases "mark st j s")
  show ?thesis
  proof (cases r)
    case (Ok u)
    then have "view t = (view s)(j := map_option (\<lambda>(m, old). (m, next_status st old)) (view s j))"
      using mark_ok [OF assms(1)] rt by simp
    then show ?thesis using that rt assms(2) by (cases "j = i") auto
  next
    case (Throw e)
    then show ?thesis using that(1) mark_throw [OF assms(1)] rt assms(2) by simp
  next
    case (Fault x)
    then show ?thesis using mark_total [OF assms(1), of st j] rt by simp
  qed
qed

lemma next_status_delivered: "next_status st STATUS_DELIVERED = STATUS_DELIVERED"
  by (cases st) simp_all

text \<open>The content of a saved message never changes, and no call un-delivers it.\<close>

lemma run_calls_keep:
  assumes "wf s" "\<forall>m. Save m \<in> set cs \<longrightarrow> storable m" "view s i = Some (m, st)"
  shows "wf (run_calls save mark cs s) \<and> (\<exists>st'. view (run_calls save mark cs s) i = Some (m, st')
      \<and> (st = STATUS_DELIVERED \<longrightarrow> st' = STATUS_DELIVERED))"
  using assms
proof (induction cs arbitrary: s st)
  case (Cons c cs)
  show ?case
  proof (cases c)
    case (Save m')
    then show ?thesis using Cons save_wf [of s m'] save_keeps [of s m' i m st] by simp
  next
    case (Mark new j)
    have w: "wf (snd (mark new j s))" using Cons.prems by (simp add: mark_wf)
    show ?thesis
    proof (rule mark_moves [OF Cons.prems(1,3), of new j])
      assume "view (snd (mark new j s)) i = Some (m, st)"
      then show ?thesis using Cons w Mark by simp
    next
      assume "view (snd (mark new j s)) i = Some (m, next_status new st)"
      then show ?thesis using Cons.IH [OF w, of "next_status new st"] Cons.prems(2) Mark
        by (auto simp: next_status_delivered)
    qed
  qed
qed simp

text \<open>The retry cycle: a saved message that is sent and times out is pending again.\<close>

lemma retry_cycle:
  assumes "wf s" "view s i = Some (m, STATUS_PENDING)"
    and "mark STATUS_SENT i s = (Ok u, t)" "mark STATUS_PENDING i t = (Ok v, w)"
  shows "view t i = Some (m, STATUS_SENT) \<and> view w = view s"
proof -
  have "wf t" using mark_wf [OF assms(1), of STATUS_SENT i] assms(3) by simp
  then show ?thesis using mark_ok [OF assms(1,3)] mark_ok [OF _ assms(4)] assms(2)
    by (auto simp: fun_eq_iff)
qed

end

interpretation store: message_store ready stored stored_form "\<lambda>m. proper_type (msg_type m)"
  "SaveMessage env" "mark_as env"
proof unfold_locales
qed (simp_all add: ready_SaveMessage ready_mark_as stored_SaveMessage stored_mark_as store_total
    stored_throw)

end
