(* ===== verification/Storage_Queries.thy ===== *)
theory Storage_Queries
  imports Store_Contract
begin

text \<open>
  What the queries of the store return, in terms of the abstract map: the three loads that
  feed delivery and retry, and the correlation lookups that route replies and acknowledgements.
\<close>

section \<open>Reading rows\<close>

lemma fetch_take: "\<exists>k. fetch env t rs = take k rs"
proof (induction rs arbitrary: t)
  case (Cons r rs)
  then obtain k where "fetch env (Suc t) rs = take k rs" by blast
  then show ?case
    by (cases "step_ok env t") (auto intro: exI [of _ "Suc k"] exI [of _ 0])
qed simp

lemma set_fetch: "set (fetch env t rs) \<subseteq> set rs"
  by (metis fetch_take set_take_subset)

lemma fetch_all: "(\<And>n. step_ok env n) \<Longrightarrow> fetch env t rs = rs"
  by (induction rs arbitrary: t) auto

lemma sqlite_orders_set:
  assumes "sqlite_orders env"
  shows "set (order_mrows env q rs) = set rs" "set (order_crows env q cs) = set cs"
    "set (order_joined env q ps) = set ps"
    "distinct (order_mrows env q rs) = distinct rs"
    "sorted (map row_created (order_mrows env q rs))"
  using assms unfolding sqlite_orders_def
  by (metis mset_eq_setD, metis mset_eq_setD, metis mset_eq_setD, metis mset_eq_imp_distinct_iff, metis)

lemma set_distinct_by: "set (distinct_by f xs) \<subseteq> set xs" "f ` set (distinct_by f xs) = f ` set xs"
proof -
  show "set (distinct_by f xs) \<subseteq> set xs" by (induction xs) auto
  have "f ` {y \<in> S. f y \<noteq> f x} = f ` S - {f x}" for S x by auto
  then show "f ` set (distinct_by f xs) = f ` set xs" by (induction xs) auto
qed

lemma distinct_map_distinct_by: "distinct (map f (distinct_by f xs))"
  by (induction xs) (auto simp: distinct_map inj_on_def)

lemma distinct_distinct_by: "distinct (distinct_by f xs)"
  using distinct_map_distinct_by [of f xs] by (simp only: distinct_map)

lemma skip_seen_distinct:
  assumes "distinct (map (\<lambda>r. column_int64 (row_id r)) rs)"
    "seen \<inter> (\<lambda>r. column_int64 (row_id r)) ` set rs = {}"
  shows "skip_seen seen rs = map pending_of_row rs"
  using assms by (induction rs arbitrary: seen) auto

lemma pending_of_row_sel [simp]:
  "pm_id (pending_of_row r) = column_int64 (row_id r)" "pm_msg (pending_of_row r) = message_of_row r"
  by (simp_all add: pending_of_row_def)

section \<open>Columns of a stored row against its message\<close>

lemma row_columns:
  assumes "ready db" "r \<in> set (messages db)"
  shows "destination (message_of_row r) = row_dest r" "sender (message_of_row r) = row_sender r"
    "bind_int64 (correlation_id (message_of_row r)) = row_corr r"
    "msg_type (message_of_row r) = Reply \<longleftrightarrow> row_type r = uint (type_byte Reply)"
proof -
  have ok: "column_ok r" using assms by (simp add: ready_def db_wf_def)
  then show "destination (message_of_row r) = row_dest r" "sender (message_of_row r) = row_sender r"
    "bind_int64 (correlation_id (message_of_row r)) = row_corr r"
    by (simp_all add: message_of_row_def column_ok_def)
  have "uint (word_of_int (row_type r) :: u8) = row_type r"
    using ok by (simp add: column_ok_def uint_word_of_int)
  moreover have "type_of_byte b = Reply \<longleftrightarrow> b = type_byte Reply" for b
    by (auto simp: type_of_byte_def type_byte_def)
  ultimately show "msg_type (message_of_row r) = Reply \<longleftrightarrow> row_type r = uint (type_byte Reply)"
    by (metis (no_types, lifting) message.select_convs(1) message_of_row_def word_uint_eq_iff
        word_of_int_uint)
qed

lemma pending_rows_view:
  assumes r: "ready db" and rows: "set rows = {x \<in> set (messages db). P x}"
    and P: "\<And>x. x \<in> set (messages db) \<Longrightarrow>
      P x \<longleftrightarrow> Q (column_int64 (row_id x)) (message_of_row x) (row_status x)"
  shows "(\<lambda>p. (pm_id p, pm_msg p)) ` set (map pending_of_row rows)
    = {(i, m). \<exists>st. stored db i = Some (m, st) \<and> Q i m st}"
proof -
  have "(i, m) \<in> (\<lambda>p. (pm_id p, pm_msg p)) ` set (map pending_of_row rows)
      \<longleftrightarrow> (\<exists>x \<in> set (messages db). P x \<and> i = column_int64 (row_id x) \<and> m = message_of_row x)" for i m
    using rows by (auto simp: image_iff)
  then have "(i, m) \<in> (\<lambda>p. (pm_id p, pm_msg p)) ` set (map pending_of_row rows)
      \<longleftrightarrow> (\<exists>st. stored db i = Some (m, st) \<and> Q i m st)" for i m
    by (auto simp: stored_iff [OF r] P)
  then show ?thesis by (intro set_eqI) (simp only: split_paired_all mem_Collect_eq prod.case)
qed

lemma distinct_pending:
  assumes "ready db" "distinct rows" "set rows \<subseteq> set (messages db)"
  shows "distinct (map pm_id (map pending_of_row rows))"
proof -
  have "inj_on (\<lambda>r. column_int64 (row_id r)) (set (messages db))"
    using distinct_columns [OF assms(1)] by (simp add: distinct_map)
  then show ?thesis
    using assms(2,3) by (auto simp: distinct_map comp_def dest: inj_on_subset)
qed

lemma distinct_messages: "ready db \<Longrightarrow> distinct (messages db)"
  by (simp add: ready_def db_wf_def distinct_map)

section \<open>The loads\<close>

lemma load_pending:
  assumes r: "ready db" and o: "sqlite_orders env" and ok: "\<And>n. step_ok env n"
  obtains rows where
    "LoadPendingMessagesOnly env name db =
       (Ok (map pending_of_row rows), db\<lparr>db_tick := Suc (db_tick db + length rows)\<rparr>)"
    "sorted (map row_created rows)" "distinct rows"
    "set rows = {x \<in> set (messages db). row_dest x = c_str name \<and> row_status x = STATUS_PENDING
       \<and> row_type x \<noteq> uint (type_byte Reply)}"
  using that [of "sql_select_pending_messages env (c_str name) db"] distinct_messages [OF r]
    sqlite_orders_set [OF o] readyD(2) [OF r]
  by (simp add: loads_apply fetch_all [OF ok] Let_def sql_select_pending_messages_def)

lemma load_expired:
  assumes r: "ready db" and o: "sqlite_orders env" and ok: "\<And>n. step_ok env n"
  obtains rows where
    "LoadExpiredSent env timeout db =
       (Ok (map pending_of_row rows), db\<lparr>db_tick := Suc (db_tick db + length rows)\<rparr>)"
    "sorted (map row_created rows)" "distinct rows"
    "set rows = {x \<in> set (messages db). row_status x = STATUS_SENT
       \<and> wall_clock env (db_tick db) - row_created x > timeout}"
  using that [of "sql_select_expired_sent env timeout (wall_clock env (db_tick db)) db"]
    distinct_messages [OF r] sqlite_orders_set [OF o] readyD(2) [OF r]
  by (simp add: loads_apply fetch_all [OF ok] Let_def sql_select_expired_sent_def)

lemma reply_rows:
  fixes orig :: string
  assumes "ready db" "sqlite_orders env"
  defines "rows \<equiv> sql_select_pending_replies env orig db"
  shows "set rows = {x \<in> set (messages db). row_status x \<noteq> STATUS_DELIVERED
      \<and> row_type x = uint (type_byte Reply)
      \<and> (\<exists>c \<in> set (correlations db). cr_corr c = row_corr x \<and> cr_sender c = orig)}"
    and "distinct rows" and "sorted (map row_created rows)"
proof -
  let ?joined = "[m. m \<leftarrow> messages db, c \<leftarrow> correlations db, row_corr m = cr_corr c \<and> cr_sender c = orig
        \<and> (row_status m = STATUS_PENDING \<or> row_status m = STATUS_SENT)
        \<and> row_type m = uint (type_byte Reply)]"
  have inj: "inj_on reply_columns (set (messages db))"
    using assms(1) by (auto simp: ready_def db_wf_def distinct_map inj_on_def reply_columns_def)
  have status: "st \<noteq> STATUS_DELIVERED \<longleftrightarrow> st = STATUS_PENDING \<or> st = STATUS_SENT" for st
    by (cases st) auto
  have joined: "set ?joined = {x \<in> set (messages db). row_status x \<noteq> STATUS_DELIVERED
      \<and> row_type x = uint (type_byte Reply)
      \<and> (\<exists>c \<in> set (correlations db). cr_corr c = row_corr x \<and> cr_sender c = orig)}"
    by (auto simp: status)
  have sub: "set ?joined \<subseteq> set (messages db)" unfolding joined by auto
  have "set (distinct_by reply_columns ?joined) = set ?joined"
    by (rule inj_on_image_eq_iff [THEN iffD1, OF inj order_trans [OF set_distinct_by(1) sub] sub
          set_distinct_by(2)])
  then show "set rows = {x \<in> set (messages db). row_status x \<noteq> STATUS_DELIVERED
      \<and> row_type x = uint (type_byte Reply)
      \<and> (\<exists>c \<in> set (correlations db). cr_corr c = row_corr x \<and> cr_sender c = orig)}"
    by (simp only: joined sqlite_orders_set(1) [OF assms(2)] rows_def sql_select_pending_replies_def)
  show "distinct rows" "sorted (map row_created rows)"
    by (simp_all add: rows_def sql_select_pending_replies_def sqlite_orders_set [OF assms(2)]
        distinct_distinct_by)
qed

lemma load_replies:
  assumes r: "ready db" and o: "sqlite_orders env" and ok: "\<And>n. step_ok env n"
  obtains rows where
    "LoadPendingRepliesForSenderOnly env name db =
       (Ok (map pending_of_row rows), db\<lparr>db_tick := Suc (db_tick db + length rows)\<rparr>)"
    "sorted (map row_created rows)" "distinct rows"
    "set rows = {x \<in> set (messages db). row_status x \<noteq> STATUS_DELIVERED
      \<and> row_type x = uint (type_byte Reply)
      \<and> (\<exists>c \<in> set (correlations db). cr_corr c = row_corr x \<and> cr_sender c = c_str name)}"
proof -
  define rows where "rows = sql_select_pending_replies env (c_str name) db"
  note rr = reply_rows [OF r o, of "c_str name", folded rows_def]
  have "distinct (map (\<lambda>r. column_int64 (row_id r)) rows)"
    using distinct_pending [OF r rr(2)] rr(1) by (auto simp: comp_def)
  then have "skip_seen {} rows = map pending_of_row rows" by (rule skip_seen_distinct) simp
  then show ?thesis using that [of rows] rr readyD(2) [OF r]
    by (simp add: loads_apply fetch_all [OF ok] Let_def flip: rows_def)
qed

text \<open>Whatever fails, a load returns rows the table holds.\<close>

lemma loads_sound:
  assumes "\<not> db_mutex db" "sqlite_orders env"
  shows "\<exists>rows. fst (LoadPendingMessagesOnly env name db) = Ok (map pending_of_row rows)
      \<and> set rows \<subseteq> {x \<in> set (messages db). row_dest x = c_str name \<and> row_status x = STATUS_PENDING}"
  using set_fetch [of env "db_tick db" "sql_select_pending_messages env (c_str name) db"] assms(1)
    sqlite_orders_set(1) [OF assms(2)]
  by (auto simp: loads_apply Let_def sql_select_pending_messages_def)

end
