(* ===== verification/Broker_State.thy ===== *)
theory Broker_State
  imports Storage_Queries
begin

text \<open>
  The state of a running broker: the metrics counters (include/metrics.hpp), the sessions and
  who owns them (include/session.hpp), the router's registry (include/router.hpp) and the
  server's send queue and socket (include/server.hpp), on top of the database. Objects behind
  \<open>shared_ptr\<close> live on a heap and are named by address, so that a callback that keeps a raw
  pointer past the object's life is a visible event; \<open>locals\<close> lists the sessions the local
  \<open>shared_ptr\<close> variables of the functions under way hold.
\<close>

section \<open>Configuration and environment\<close>

record config =
  Port :: int
  DbPath :: string
  Threads :: int
  LogLevel :: string
  SessionTimeout :: int
  AckTimeout :: int
  EnableMetrics :: bool
  MetricsBindAddress :: string
  MetricsUpdateInterval :: int

definition default_config :: config where
  "default_config = \<lparr>Port = 5555, DbPath = ''./broker.db'', Threads = 0, LogLevel = ''info'',
     SessionTimeout = 60, AckTimeout = 30, EnableMetrics = True,
     MetricsBindAddress = ''0.0.0.0:8080'', MetricsUpdateInterval = 2\<rparr>"

text \<open>The answer of the socket to a non-blocking \<open>send\<close> of one frame.\<close>

datatype frame_result = FrameSent | WouldBlock | FrameError

text \<open>The environment of the broker: SQLite's answers, the socket's answers (numbered by the
  frames tried so far), the iteration order of the hash map of clients, and the configuration
  fixed at construction.\<close>

record env = sqlite +
  send_frame :: "nat \<Rightarrow> frame_result"
  map_order :: "(string \<times> nat) list \<Rightarrow> (string \<times> nat) list"
  config :: config

definition keeps_entries :: "env \<Rightarrow> bool" where
  "keeps_entries env = (\<forall>xs. mset (map_order env xs) = mset xs)"

section \<open>Metrics\<close>

record metrics =
  messages_received :: u64
  messages_sent :: u64
  messages_failed :: u64
  acks_received :: u64
  messages_expired :: u64
  offline_delivered :: u64
  clients_registered :: u64
  clients_unregistered :: u64
  clients_timeout :: u64
  active_sessions :: int
  pending_send_queue :: int

definition zero_metrics :: metrics where
  "zero_metrics = \<lparr>messages_received = 0, messages_sent = 0, messages_failed = 0, acks_received = 0,
     messages_expired = 0, offline_delivered = 0, clients_registered = 0, clients_unregistered = 0,
     clients_timeout = 0, active_sessions = 0, pending_send_queue = 0\<rparr>"

definition IncrementMessagesReceived :: "metrics \<Rightarrow> metrics" where
  "IncrementMessagesReceived k = k\<lparr>messages_received := messages_received k + 1\<rparr>"

definition IncrementMessagesSent :: "metrics \<Rightarrow> metrics" where
  "IncrementMessagesSent k = k\<lparr>messages_sent := messages_sent k + 1\<rparr>"

definition IncrementMessagesFailed :: "metrics \<Rightarrow> metrics" where
  "IncrementMessagesFailed k = k\<lparr>messages_failed := messages_failed k + 1\<rparr>"

definition IncrementClientsRegistered :: "metrics \<Rightarrow> metrics" where
  "IncrementClientsRegistered k = k\<lparr>clients_registered := clients_registered k + 1\<rparr>"

definition IncrementClientsUnregistered :: "metrics \<Rightarrow> metrics" where
  "IncrementClientsUnregistered k = k\<lparr>clients_unregistered := clients_unregistered k + 1\<rparr>"

definition IncrementClientsTimeout :: "metrics \<Rightarrow> metrics" where
  "IncrementClientsTimeout k = k\<lparr>clients_timeout := clients_timeout k + 1\<rparr>"

definition SetActiveSessions :: "nat \<Rightarrow> metrics \<Rightarrow> metrics" where
  "SetActiveSessions n k = k\<lparr>active_sessions := sint (word_of_nat n :: 32 word)\<rparr>"

definition IncrementOfflineDelivered :: "metrics \<Rightarrow> metrics" where
  "IncrementOfflineDelivered k = k\<lparr>offline_delivered := offline_delivered k + 1\<rparr>"

definition IncrementMessagesExpired :: "metrics \<Rightarrow> metrics" where
  "IncrementMessagesExpired k = k\<lparr>messages_expired := messages_expired k + 1\<rparr>"

definition IncrementAcksReceived :: "metrics \<Rightarrow> metrics" where
  "IncrementAcksReceived k = k\<lparr>acks_received := acks_received k + 1\<rparr>"

definition SetPendingSendQueueSize :: "nat \<Rightarrow> metrics \<Rightarrow> metrics" where
  "SetPendingSendQueueSize n k = k\<lparr>pending_send_queue := sint (word_of_nat n :: 64 word)\<rparr>"

section \<open>The state\<close>

text \<open>A session; \<open>persist_callback\<close> says whether the callback is set (the only one ever set calls
  \<open>PersistMessageForClient\<close>). Times are nanoseconds of the steady clock.\<close>

record session =
  identity :: string
  session_name :: string
  is_online :: bool
  outgoing_queue :: "message list"
  queue_mutex :: bool
  last_receive :: int
  last_activity :: int
  persist_callback :: bool

text \<open>A queued send; the callback the session passes captures its \<open>this\<close> pointer and its name.\<close>

record PendingSend =
  ps_identity :: string
  ps_data :: bytes
  ps_callback :: "(nat \<times> string) option"

record world = database +
  metrics_manager :: "metrics option"
  running :: bool
  pending_sends :: "PendingSend list"
  pending_sends_mutex :: bool
  sending_in_progress :: bool
  posted_sends :: nat
  wire :: "(bytes \<times> bool) list"
  frames_tried :: nat
  heap :: "nat \<Rightarrow> session option"
  next_addr :: nat
  locals :: "nat list"
  active_clients :: "(string \<times> nat) list"
  identity_to_name :: "(string \<times> string) list"
  registry_mutex :: bool
  clock :: int

text \<open>\<open>if (metrics_) metrics_->f()\<close>.\<close>

definition metric :: "(metrics \<Rightarrow> metrics) \<Rightarrow> (world, unit) action" where
  "metric f = update (\<lambda>w. w\<lparr>metrics_manager := map_option f (metrics_manager w)\<rparr>)"

text \<open>A broker after construction on an existing database, with no client yet.\<close>

definition boot :: "database \<Rightarrow> world" where
  "boot db = \<lparr>messages = messages db, correlations = correlations db, seq_messages = seq_messages db,
     seq_correlations = seq_correlations db, foreign_keys = foreign_keys db, db_mutex = db_mutex db,
     db_tick = db_tick db, metrics_manager = Some zero_metrics, running = True, pending_sends = [],
     pending_sends_mutex = False, sending_in_progress = False, posted_sends = 0, wire = [],
     frames_tried = 0, heap = (\<lambda>_. None), next_addr = 0, locals = [], active_clients = [], identity_to_name = [],
     registry_mutex = False, clock = 0\<rparr>"

section \<open>Objects on the heap\<close>

definition deref :: "nat \<Rightarrow> (session \<Rightarrow> 'a) \<Rightarrow> (world, 'a) action" where
  "deref a f = (\<lambda>w. case heap w a of None \<Rightarrow> (Fault UseAfterFree, w) | Some s \<Rightarrow> (Ok (f s), w))"

definition assign :: "nat \<Rightarrow> (session \<Rightarrow> session) \<Rightarrow> (world, unit) action" where
  "assign a f = (\<lambda>w. case heap w a of None \<Rightarrow> (Fault UseAfterFree, w)
     | Some s \<Rightarrow> (Ok (), w\<lparr>heap := (heap w)(a \<mapsto> f s)\<rparr>))"

definition queue_locked :: "nat \<Rightarrow> (world, 'a) action \<Rightarrow> (world, 'a) action" where
  "queue_locked a m = seq (deref a (\<lambda>_. ()))
     (locked (\<lambda>w. case heap w a of None \<Rightarrow> False | Some s \<Rightarrow> queue_mutex s)
        (\<lambda>b w. w\<lparr>heap := (heap w)(a := map_option (\<lambda>s. s\<lparr>queue_mutex := b\<rparr>) (heap w a))\<rparr>) m)"

definition pending_locked :: "(world, 'a) action \<Rightarrow> (world, 'a) action" where
  "pending_locked m = locked pending_sends_mutex (\<lambda>b w. w\<lparr>pending_sends_mutex := b\<rparr>) m"

definition registry_locked :: "(world, 'a) action \<Rightarrow> (world, 'a) action" where
  "registry_locked m = locked registry_mutex (\<lambda>b w. w\<lparr>registry_mutex := b\<rparr>) m"

end
