(* ===== verification/Config.thy ===== *)
theory Config
  imports Broker_State Text_Input
begin

text \<open>
  The command line of the broker: \<open>Config::ParseArgs\<close> and \<open>Config::PrintHelp\<close> of include/config.hpp, on
  the two output streams of the process. The result is described by the list of settings the
  arguments spell out.
\<close>

section \<open>Parsing\<close>

record terminal =
  std_out :: string
  std_err :: string

definition write_out :: "string \<Rightarrow> ('a terminal_scheme, unit) action" where
  "write_out s = update (\<lambda>t. t\<lparr>std_out := std_out t @ s\<rparr>)"

definition write_err :: "string \<Rightarrow> ('a terminal_scheme, unit) action" where
  "write_err s = update (\<lambda>t. t\<lparr>std_err := std_err t @ s\<rparr>)"

definition help_lines :: "string list" where
  "help_lines = [''Options:'',
     ''  --port PORT                ZeroMQ listen port (default: 5555)'',
     ''  --db-path PATH             SQLite database path (default: ./broker.db)'',
     ''  --threads N                Number of worker threads (default: CPU cores)'',
     ''  --log-level LEVEL          Log level: trace, debug, info, warn, error'',
     ''  --session-timeout N        Session timeout in seconds (default: 60)'',
     ''  --ack-timeout N            ACK timeout in seconds (default: 30)'',
     ''  --disable-metrics          Disable Prometheus metrics'',
     ''  --metrics-address ADDR     Metrics bind address (default: 0.0.0.0:8080)'',
     ''  --help                     Show this help message'']"

definition PrintHelp :: "string \<Rightarrow> ('a terminal_scheme, unit) action" where
  "PrintHelp program_name = write_out (concat (map (\<lambda>l. l @ [CHR 0x0A])
     ((''Usage: '' @ program_name @ '' [OPTIONS]'') # help_lines)))"

text \<open>The loop over the arguments; \<open>rest\<close> is empty just when \<open>i + 1 < argc\<close> does not hold.\<close>

fun parse_options :: "string \<Rightarrow> string list \<Rightarrow> config \<Rightarrow> ('a terminal_scheme, config) action" where
  "parse_options program [] c = ret c"
| "parse_options program (arg # rest) c =
    (if arg = ''--help'' then seq (PrintHelp program) (throw HelpRequested)
     else if arg = ''--port'' \<and> rest \<noteq> []
     then bind (of_sum (stoi (hd rest))) (\<lambda>v. parse_options program (tl rest) (c\<lparr>Port := v\<rparr>))
     else if arg = ''--db-path'' \<and> rest \<noteq> []
     then parse_options program (tl rest) (c\<lparr>DbPath := hd rest\<rparr>)
     else if arg = ''--threads'' \<and> rest \<noteq> []
     then bind (of_sum (stoi (hd rest))) (\<lambda>v. parse_options program (tl rest) (c\<lparr>Threads := v\<rparr>))
     else if arg = ''--log-level'' \<and> rest \<noteq> []
     then parse_options program (tl rest) (c\<lparr>LogLevel := hd rest\<rparr>)
     else if arg = ''--session-timeout'' \<and> rest \<noteq> []
     then bind (of_sum (stoi (hd rest))) (\<lambda>v. parse_options program (tl rest) (c\<lparr>SessionTimeout := v\<rparr>))
     else if arg = ''--ack-timeout'' \<and> rest \<noteq> []
     then bind (of_sum (stoi (hd rest))) (\<lambda>v. parse_options program (tl rest) (c\<lparr>AckTimeout := v\<rparr>))
     else if arg = ''--disable-metrics''
     then parse_options program rest (c\<lparr>EnableMetrics := False\<rparr>)
     else if arg = ''--metrics-address'' \<and> rest \<noteq> []
     then parse_options program (tl rest) (c\<lparr>MetricsBindAddress := hd rest\<rparr>)
     else seq (write_err (''Unknown option: '' @ arg @ [CHR 0x0A])) (seq (PrintHelp program)
            (throw (ConfigError (''Unknown option: '' @ arg)))))"

text \<open>\<open>std::thread::hardware_concurrency()\<close> is an \<open>unsigned int\<close> assigned to an \<open>int\<close>.\<close>

definition default_threads :: "32 word \<Rightarrow> config \<Rightarrow> config" where
  "default_threads hardware_concurrency c = (if Threads c = 0
     then let c = c\<lparr>Threads := sint hardware_concurrency\<rparr> in if Threads c = 0 then c\<lparr>Threads := 1\<rparr> else c
     else c)"

definition ParseArgs :: "32 word \<Rightarrow> string list \<Rightarrow> ('a terminal_scheme, config) action" where
  "ParseArgs hardware_concurrency argv = bind (parse_options (hd argv) (tl argv) default_config)
     (\<lambda>c. ret (default_threads hardware_concurrency c))"

section \<open>Settings\<close>

text \<open>What the options say, and how they are spelled.\<close>

datatype setting = SetPort int | SetDbPath string | SetThreads int | SetLogLevel string
  | SetSessionTimeout int | SetAckTimeout int | DisableMetrics | SetMetricsAddress string

fun spell :: "setting \<Rightarrow> string list" where
  "spell (SetPort v) = [''--port'', show_int v]"
| "spell (SetDbPath s) = [''--db-path'', s]"
| "spell (SetThreads v) = [''--threads'', show_int v]"
| "spell (SetLogLevel s) = [''--log-level'', s]"
| "spell (SetSessionTimeout v) = [''--session-timeout'', show_int v]"
| "spell (SetAckTimeout v) = [''--ack-timeout'', show_int v]"
| "spell DisableMetrics = [''--disable-metrics'']"
| "spell (SetMetricsAddress s) = [''--metrics-address'', s]"

fun apply_setting :: "setting \<Rightarrow> config \<Rightarrow> config" where
  "apply_setting (SetPort v) c = c\<lparr>Port := v\<rparr>"
| "apply_setting (SetDbPath s) c = c\<lparr>DbPath := s\<rparr>"
| "apply_setting (SetThreads v) c = c\<lparr>Threads := v\<rparr>"
| "apply_setting (SetLogLevel s) c = c\<lparr>LogLevel := s\<rparr>"
| "apply_setting (SetSessionTimeout v) c = c\<lparr>SessionTimeout := v\<rparr>"
| "apply_setting (SetAckTimeout v) c = c\<lparr>AckTimeout := v\<rparr>"
| "apply_setting DisableMetrics c = c\<lparr>EnableMetrics := False\<rparr>"
| "apply_setting (SetMetricsAddress s) c = c\<lparr>MetricsBindAddress := s\<rparr>"

definition is_int :: "int \<Rightarrow> bool" where
  "is_int v = (-2147483648 \<le> v \<and> v \<le> 2147483647)"

fun proper_setting :: "setting \<Rightarrow> bool" where
  "proper_setting (SetPort v) = is_int v"
| "proper_setting (SetThreads v) = is_int v"
| "proper_setting (SetSessionTimeout v) = is_int v"
| "proper_setting (SetAckTimeout v) = is_int v"
| "proper_setting s = True"

lemma parse_setting:
  "proper_setting s \<Longrightarrow> parse_options program (spell s @ rest) c = parse_options program rest (apply_setting s c)"
  by (cases s) (simp_all add: is_int_def stoi_show of_sum_def)

lemma parse_settings:
  "list_all proper_setting ss \<Longrightarrow>
    parse_options program (concat (map spell ss) @ rest) c = parse_options program rest (fold apply_setting ss c)"
  by (induction ss arbitrary: c) (simp_all add: parse_setting del: parse_options.simps)

text \<open>The arguments that are not an option, or are one whose value is missing.\<close>

definition valued_options :: "string list" where
  "valued_options = [''--port'', ''--db-path'', ''--threads'', ''--log-level'', ''--session-timeout'',
     ''--ack-timeout'', ''--metrics-address'']"

definition refused :: "string list \<Rightarrow> bool" where
  "refused args = (case args of [] \<Rightarrow> False | arg # rest \<Rightarrow> arg \<noteq> ''--help'' \<and> arg \<noteq> ''--disable-metrics''
     \<and> (arg \<notin> set valued_options \<or> rest = []))"

lemma parse_refused:
  assumes "refused args"
  shows "parse_options program args c t = (Throw (ConfigError (''Unknown option: '' @ hd args)),
    t\<lparr>std_err := std_err t @ ''Unknown option: '' @ hd args @ [CHR 0x0A],
      std_out := std_out t @ std_out (snd (PrintHelp program (t\<lparr>std_out := []\<rparr>)))\<rparr>)"
proof (cases args)
  case (Cons arg rest)
  have "arg \<noteq> ''--help''" "arg \<noteq> ''--disable-metrics''" "arg \<notin> set valued_options \<or> rest = []"
    using assms by (simp_all add: refused_def Cons)
  then show ?thesis unfolding Cons valued_options_def
    by (auto simp: PrintHelp_def write_out_def write_err_def run_act)
qed (use assms in \<open>simp add: refused_def\<close>)

section \<open>Properties\<close>

text \<open>C36. The command line is read as it is meant: arguments that spell a list of settings give the
  default configuration with these settings applied in order, so that a later one overrides an
  earlier one, with the number of threads taken from the machine when it is zero; nothing is
  printed.\<close>

theorem parse_args_settings:
  assumes "list_all proper_setting ss"
  shows "ParseArgs cores (program # concat (map spell ss)) t
    = (Ok (default_threads cores (fold apply_setting ss default_config)), t)"
  using parse_settings [OF assms, of program "[]" default_config, THEN fun_cong, of t]
  by (simp add: ParseArgs_def bind_def)

definition silent :: terminal where
  "silent = \<lparr>std_out = [], std_err = []\<rparr>"

theorem parse_args_settings_witness:
  "ParseArgs 4 [''broker'', ''--port'', ''70'', ''--disable-metrics'', ''--port'', ''-1''] silent
    = (Ok (default_config\<lparr>Port := -1, EnableMetrics := False, Threads := 4\<rparr>), silent)"
proof -
  have "show_int 70 = ''70''" "show_int (- 1) = ''-1''" by code_simp+
  then show ?thesis
    using parse_args_settings [of "[SetPort 70, DisableMetrics, SetPort (- 1)]" 4 "''broker''" silent]
    by (simp add: is_int_def default_threads_def default_config_def)
qed

text \<open>What is refused: after any settings, an argument that is no option, and also an option whose
  value is missing at the end of the line, is reported as an unknown option on the error stream,
  followed by the help, and nothing is configured.\<close>

theorem parse_args_refused:
  assumes "list_all proper_setting ss" "refused args"
  shows "\<exists>help. ParseArgs cores (program # concat (map spell ss) @ args) t
    = (Throw (ConfigError (''Unknown option: '' @ hd args)),
       t\<lparr>std_err := std_err t @ ''Unknown option: '' @ hd args @ [CHR 0x0A], std_out := std_out t @ help\<rparr>)"
proof -
  have "parse_options program (concat (map spell ss) @ args) default_config t
      = parse_options program args (fold apply_setting ss default_config) t"
    by (simp only: parse_settings [OF assms(1)])
  then show ?thesis by (simp add: ParseArgs_def bind_def parse_refused [OF assms(2)]) (rule exI, rule refl)
qed

theorem parse_args_refused_witness:
  "fst (ParseArgs 4 [''broker'', ''--disable-metrics'', ''--port''] silent) = Throw (ConfigError ''Unknown option: --port'')"
  using parse_args_refused [of "[DisableMetrics]" "[''--port'']" 4 "''broker''" silent]
  by (auto simp: refused_def simp del: parse_options.simps)

end
