(* ===== verification/Storage_Open.thy ===== *)
theory Storage_Open
  imports Store_Contract
begin

text \<open>
  Opening the store: the constructor \<open>Storage::Storage\<close> with \<open>CreateTables\<close> and \<open>PrepareStatements\<close>
  of src/storage.cpp, and the constructor of \<open>SqliteStmt\<close>. The file is a schema (the names of its
  tables and indexes) and the rows; a transaction keeps the schema a \<open>ROLLBACK\<close> returns to.
\<close>

section \<open>The connection\<close>

record sqlite_open = sqlite +
  opens :: "string \<Rightarrow> bool"
  exec_errmsg :: "nat \<Rightarrow> string option"

record connection = database +
  schema :: "string list"
  transaction :: "string list option"
  handles :: nat

datatype sql = PragmaJournalMode | PragmaBusyTimeout | PragmaForeignKeys | BeginTransaction | CommitTransaction
  | RollbackTransaction | CreateTable string | CreateIndex string | CreateUniqueIndex string

text \<open>The effect of one statement of \<open>CreateTables\<close> when SQLite can carry it out; \<open>None\<close> where it must
  refuse: no transaction to end, one open already, a unique index over rows that are not unique.\<close>

fun sql_effect :: "sql \<Rightarrow> connection \<Rightarrow> connection option" where
  "sql_effect PragmaJournalMode c = Some c"
| "sql_effect PragmaBusyTimeout c = Some c"
| "sql_effect PragmaForeignKeys c = Some (if transaction c = None then c\<lparr>foreign_keys := True\<rparr> else c)"
| "sql_effect BeginTransaction c = (if transaction c = None then Some (c\<lparr>transaction := Some (schema c)\<rparr>) else None)"
| "sql_effect CommitTransaction c = (if transaction c = None then None else Some (c\<lparr>transaction := None\<rparr>))"
| "sql_effect RollbackTransaction c = (case transaction c of None \<Rightarrow> None
     | Some s \<Rightarrow> Some (c\<lparr>schema := s, transaction := None\<rparr>))"
| "sql_effect (CreateTable n) c = Some (if n \<in> set (schema c) then c else c\<lparr>schema := schema c @ [n]\<rparr>)"
| "sql_effect (CreateIndex n) c = Some (if n \<in> set (schema c) then c else c\<lparr>schema := schema c @ [n]\<rparr>)"
| "sql_effect (CreateUniqueIndex n) c = (if n \<in> set (schema c) then Some c
     else if distinct (map (\<lambda>k. (cr_corr k, cr_sender k)) (correlations c)) then Some (c\<lparr>schema := schema c @ [n]\<rparr>)
     else None)"

text \<open>\<open>sqlite3_exec\<close> of a text with several statements: it stops at the first that fails. The result is
  whether it was \<open>SQLITE_OK\<close>, and the text \<open>errmsg ? errmsg : "unknown error"\<close> if not.\<close>

fun sqlite3_exec :: "sqlite_open \<Rightarrow> sql list \<Rightarrow> (connection, string option) action" where
  "sqlite3_exec env [] c = (Ok None, c)"
| "sqlite3_exec env (s # ss) c = (case (if step_ok env (db_tick c) then sql_effect s c else None) of
     Some d \<Rightarrow> sqlite3_exec env ss (bump_tick d)
   | None \<Rightarrow> (Ok (Some (case exec_errmsg env (db_tick c) of Some e \<Rightarrow> e | None \<Rightarrow> ''unknown error'')), bump_tick c))"

section \<open>The constructor\<close>

definition create_indexes :: "sql list" where
  "create_indexes = [CreateIndex ''idx_messages_destination'', CreateIndex ''idx_messages_status'',
     CreateIndex ''idx_messages_type'', CreateIndex ''idx_messages_dest_status'',
     CreateIndex ''idx_messages_correlation'', CreateIndex ''idx_correlations_corr_id'',
     CreateIndex ''idx_correlations_original_sender'', CreateIndex ''idx_correlations_message_id'',
     CreateUniqueIndex ''idx_correlations_unique'']"

text \<open>The three creating calls share their error path: roll back and throw.\<close>

definition create_or_roll_back :: "sqlite_open \<Rightarrow> sql list \<Rightarrow> string \<Rightarrow> (connection, unit) action" where
  "create_or_roll_back env sqls err = bind (sqlite3_exec env sqls) (\<lambda>rc. case rc of None \<Rightarrow> ret ()
     | Some error \<Rightarrow> seq (sqlite3_exec env [RollbackTransaction]) (throw (RuntimeError (err @ error))))"

definition CreateTables :: "sqlite_open \<Rightarrow> (connection, unit) action" where
  "CreateTables env = bind (sqlite3_exec env [BeginTransaction]) (\<lambda>rc. case rc of
     Some error \<Rightarrow> throw (RuntimeError (''Failed to begin transaction: '' @ error))
   | None \<Rightarrow> seq (create_or_roll_back env [CreateTable ''messages''] ''Failed to create messages table: '')
      (seq (create_or_roll_back env [CreateTable ''correlations''] ''Failed to create correlations table: '')
      (seq (create_or_roll_back env create_indexes ''Failed to create indexes: '')
      (bind (sqlite3_exec env [CommitTransaction]) (\<lambda>rc. case rc of
         Some error \<Rightarrow> throw (RuntimeError (''Failed to commit transaction: '' @ error))
       | None \<Rightarrow> ret ())))))"

text \<open>The table each prepared statement reads or changes, in the order of \<open>PrepareStatements\<close>.\<close>

definition prepared_statements :: "string list list" where
  "prepared_statements = [[''messages''], [''messages''], [''messages''], [''messages''], [''messages''],
     [''correlations''], [''correlations''], [''correlations''], [''messages'', ''correlations''],
     [''correlations''], [''correlations''], [''messages''], [''messages''], [''messages'', ''correlations'']]"

definition SqliteStmt :: "sqlite_open \<Rightarrow> string list \<Rightarrow> (connection, unit) action" where
  "SqliteStmt env tables = (\<lambda>c. if step_ok env (db_tick c) \<and> set tables \<subseteq> set (schema c) then (Ok (), bump_tick c)
     else (Throw (RuntimeError (''Failed to prepare statement: '' @ sqlite_errmsg env (db_tick c))), bump_tick c))"

definition PrepareStatements :: "sqlite_open \<Rightarrow> (connection, unit) action" where
  "PrepareStatements env = for_each (\<lambda>tables. seq (SqliteStmt env tables) (ret True)) prepared_statements"

definition Storage_Storage :: "sqlite_open \<Rightarrow> string \<Rightarrow> (connection, unit) action" where
  "Storage_Storage env db_path = bind (\<lambda>c. (Ok (opens env db_path), c\<lparr>handles := handles c + 1\<rparr>)) (\<lambda>ok.
     if \<not> ok then bind (ask (\<lambda>c. sqlite_errmsg env (db_tick c))) (\<lambda>e. throw (RuntimeError (''Failed to open database: '' @ e)))
     else seq (sqlite3_exec env [PragmaJournalMode])
         (seq (sqlite3_exec env [PragmaBusyTimeout])
         (seq (sqlite3_exec env [PragmaForeignKeys])
         (seq (CreateTables env) (PrepareStatements env)))))"

definition Storage_destructor :: "(connection, unit) action" where
  "Storage_destructor = update (\<lambda>c. c\<lparr>handles := handles c - 1\<rparr>)"

section \<open>All or nothing\<close>

definition kept :: "connection \<Rightarrow> connection \<Rightarrow> bool" where
  "kept c d = (messages d = messages c \<and> correlations d = correlations c \<and> seq_messages d = seq_messages c
     \<and> seq_correlations d = seq_correlations c \<and> db_mutex d = db_mutex c \<and> handles d = handles c + 1)"

text \<open>The schema another process sees, and this one after a crash.\<close>

definition durable :: "connection \<Rightarrow> string list" where
  "durable c = (case transaction c of None \<Rightarrow> schema c | Some s \<Rightarrow> s)"

definition in_phase :: "connection \<Rightarrow> string set \<Rightarrow> string list option \<Rightarrow> connection \<Rightarrow> bool" where
  "in_phase c S tx d = (kept c d \<and> set (schema d) = S \<and> transaction d = tx)"

fun created :: "sql \<Rightarrow> string set" where
  "created (CreateTable n) = {n}"
| "created (CreateIndex n) = {n}"
| "created (CreateUniqueIndex n) = {n}"
| "created s = {}"

lemma in_phase_bump [simp]: "in_phase c S tx (bump_tick d) = in_phase c S tx d"
  by (simp add: in_phase_def kept_def bump_tick_def)

lemma in_phase_effect:
  assumes "created s \<noteq> {}" "sql_effect s d = Some e" "in_phase c S tx d"
  shows "in_phase c (S \<union> created s) tx e"
  using assms by (cases s) (auto simp: in_phase_def kept_def split: if_splits)

lemma exec_creates:
  assumes "\<forall>s \<in> set sqls. created s \<noteq> {}"
  shows "triple (in_phase c S tx) (sqlite3_exec env sqls)
    (\<lambda>rc d. case rc of None \<Rightarrow> in_phase c (S \<union> (\<Union>s \<in> set sqls. created s)) tx d | Some e \<Rightarrow> \<exists>S. in_phase c S tx d) (\<lambda>_. False)"
  using assms
proof (induction sqls arbitrary: S)
  case (Cons s sqls)
  show ?case
  proof (rule tripleI)
    fix d assume d: "in_phase c S tx d"
    show "case sqlite3_exec env (s # sqls) d of
        (Ok rc, d) \<Rightarrow> (case rc of None \<Rightarrow> in_phase c (S \<union> (\<Union>s \<in> set (s # sqls). created s)) tx d | Some e \<Rightarrow> \<exists>S. in_phase c S tx d)
      | (Throw e, t) \<Rightarrow> False | (Fault x, t) \<Rightarrow> False"
    proof (cases "if step_ok env (db_tick d) then sql_effect s d else None")
      case None
      then show ?thesis using d by auto
    next
      case (Some e)
      then have "in_phase c (S \<union> created s) tx (bump_tick e)"
        using Cons.prems d by (auto intro: in_phase_effect split: if_splits)
      moreover have "triple (in_phase c (S \<union> created s) tx) (sqlite3_exec env sqls) (\<lambda>rc d. case rc of
          None \<Rightarrow> in_phase c (S \<union> created s \<union> (\<Union>s \<in> set sqls. created s)) tx d | Some e \<Rightarrow> \<exists>S. in_phase c S tx d) (\<lambda>_. False)"
        using Cons.prems by (intro Cons.IH) simp
      moreover have "S \<union> created s \<union> (\<Union>s \<in> set sqls. created s) = S \<union> (\<Union>s \<in> set (s # sqls). created s)" by auto
      ultimately show ?thesis using Some by (simp only: sqlite3_exec.simps option.case triple_def)
    qed
  qed
qed (simp add: triple_def)

definition opened_or :: "connection \<Rightarrow> string list \<Rightarrow> connection \<Rightarrow> bool" where
  "opened_or c s d = (kept c d \<and> durable d = s)"

lemma triple_exists: "(\<And>S. triple (P S) m Q E) \<Longrightarrow> triple (\<lambda>s. \<exists>S. P S s) m Q E"
  by (rule tripleI, elim exE, simp only: triple_def)

lemma create_or_roll_back_triple:
  assumes "\<forall>s \<in> set sqls. created s \<noteq> {}"
  shows "triple (in_phase c S (Some s0)) (create_or_roll_back env sqls err)
    (\<lambda>_. in_phase c (S \<union> (\<Union>s \<in> set sqls. created s)) (Some s0)) (opened_or c s0)"
proof -
  have rb: "triple (in_phase c S (Some s0)) (sqlite3_exec env [RollbackTransaction]) (\<lambda>_. opened_or c s0) (opened_or c s0)" for S
    by (rule tripleI) (auto simp: in_phase_def kept_def opened_or_def durable_def bump_tick_def split: option.split)
  show ?thesis unfolding create_or_roll_back_def
  proof (rule triple_bind)
    show "triple (in_phase c S (Some s0)) (sqlite3_exec env sqls) (\<lambda>rc d. case rc of
        None \<Rightarrow> in_phase c (S \<union> (\<Union>s \<in> set sqls. created s)) (Some s0) d | Some e \<Rightarrow> \<exists>S. in_phase c S (Some s0) d) (opened_or c s0)"
      by (rule triple_conseq [OF exec_creates [OF assms]]) simp_all
    fix rc
    show "triple (\<lambda>d. case rc of None \<Rightarrow> in_phase c (S \<union> (\<Union>s \<in> set sqls. created s)) (Some s0) d | Some e \<Rightarrow> \<exists>S. in_phase c S (Some s0) d)
        (case rc of None \<Rightarrow> ret () | Some error \<Rightarrow> seq (sqlite3_exec env [RollbackTransaction]) (throw (RuntimeError (err @ error))))
        (\<lambda>_. in_phase c (S \<union> (\<Union>s \<in> set sqls. created s)) (Some s0)) (opened_or c s0)"
    proof (cases rc)
      case (Some error)
      have "triple (\<lambda>d. \<exists>S. in_phase c S (Some s0) d) (sqlite3_exec env [RollbackTransaction]) (\<lambda>_. opened_or c s0) (opened_or c s0)"
        by (rule triple_exists) (rule rb)
      then show ?thesis using Some by (auto intro: triple_seq triple_throw)
    qed (simp add: triple_ret)
  qed
qed

definition schema_names :: "string set" where
  "schema_names = {''messages'', ''correlations''} \<union> (\<Union>s \<in> set create_indexes. created s)"

lemma CreateTables_triple:
  assumes "S0 = set s0"
  shows "triple (\<lambda>d. kept c d \<and> schema d = s0 \<and> transaction d = None) (CreateTables env)
    (\<lambda>_. in_phase c (S0 \<union> schema_names) None) (opened_or c s0)"
proof -
  let ?P = "\<lambda>d. kept c d \<and> schema d = s0 \<and> transaction d = None"
  have begin': "triple ?P (sqlite3_exec env [BeginTransaction])
      (\<lambda>rc d. case rc of None \<Rightarrow> in_phase c S0 (Some s0) d | Some e \<Rightarrow> opened_or c s0 d) (opened_or c s0)"
    by (rule tripleI) (auto simp: in_phase_def kept_def opened_or_def durable_def bump_tick_def assms)
  have commit: "triple (in_phase c S (Some s0)) (sqlite3_exec env [CommitTransaction])
      (\<lambda>rc d. case rc of None \<Rightarrow> in_phase c S None d | Some e \<Rightarrow> opened_or c s0 d) (opened_or c s0)" for S
    by (rule tripleI) (auto simp: in_phase_def kept_def opened_or_def durable_def bump_tick_def split: option.split)
  have creates: "\<forall>s \<in> set [CreateTable n]. created s \<noteq> {}" "\<forall>s \<in> set create_indexes. created s \<noteq> {}" for n
    by (simp_all add: create_indexes_def)
  have names: "((S0 \<union> (\<Union>s \<in> set [CreateTable ''messages'']. created s)) \<union> (\<Union>s \<in> set [CreateTable ''correlations'']. created s))
      \<union> (\<Union>s \<in> set create_indexes. created s) = S0 \<union> schema_names"
    by (auto simp: schema_names_def)
  have finish: "triple (\<lambda>d. case rc of None \<Rightarrow> in_phase c S None d | Some e \<Rightarrow> opened_or c s0 d)
      (case rc of Some error \<Rightarrow> throw (RuntimeError (f error)) | None \<Rightarrow> ret ()) (\<lambda>_. in_phase c S None) (opened_or c s0)"
    for rc S and f :: "string \<Rightarrow> string"
    by (cases rc) (simp_all add: triple_ret triple_throw)
  have body: "triple (in_phase c S0 (Some s0))
     (seq (create_or_roll_back env [CreateTable ''messages''] m1) (seq (create_or_roll_back env [CreateTable ''correlations''] m2)
      (seq (create_or_roll_back env create_indexes m3)
      (bind (sqlite3_exec env [CommitTransaction]) (\<lambda>rc. case rc of
         Some error \<Rightarrow> throw (RuntimeError (m4 @ error)) | None \<Rightarrow> ret ())))))
     (\<lambda>_. in_phase c (S0 \<union> schema_names) None) (opened_or c s0)" for m1 m2 m3 m4
    unfolding names [symmetric]
    by (rule triple_seq [OF create_or_roll_back_triple [OF creates(1)]],
        rule triple_seq [OF create_or_roll_back_triple [OF creates(1)]],
        rule triple_seq [OF create_or_roll_back_triple [OF creates(2)]],
        rule triple_bind [OF commit], rule finish)
  show ?thesis unfolding CreateTables_def
  proof (rule triple_bind [OF begin'])
    fix rc show "triple (\<lambda>d. case rc of None \<Rightarrow> in_phase c S0 (Some s0) d | Some e \<Rightarrow> opened_or c s0 d) (case rc of
     Some error \<Rightarrow> throw (RuntimeError (''Failed to begin transaction: '' @ error))
   | None \<Rightarrow> seq (create_or_roll_back env [CreateTable ''messages''] ''Failed to create messages table: '')
      (seq (create_or_roll_back env [CreateTable ''correlations''] ''Failed to create correlations table: '')
      (seq (create_or_roll_back env create_indexes ''Failed to create indexes: '')
      (bind (sqlite3_exec env [CommitTransaction]) (\<lambda>rc. case rc of
         Some error \<Rightarrow> throw (RuntimeError (''Failed to commit transaction: '' @ error))
       | None \<Rightarrow> ret ()))))) (\<lambda>_. in_phase c (S0 \<union> schema_names) None) (opened_or c s0)"
      by (cases rc) (simp_all only: option.case triple_throw body)
  qed
qed

lemma PrepareStatements_keeps: "keeps (in_phase c S tx) (PrepareStatements env)"
proof -
  have "keeps (in_phase c S tx) (SqliteStmt env tables)" for tables
    by (rule tripleI) (simp add: SqliteStmt_def)
  then show ?thesis unfolding PrepareStatements_def by (intro triple_for_each keeps_seq keeps_ret)
qed

lemma durable_None: "transaction c = None \<Longrightarrow> durable c = schema c"
  by (simp add: durable_def)

lemma pragma_kept:
  assumes "s \<in> {PragmaJournalMode, PragmaBusyTimeout, PragmaForeignKeys}" "sql_effect s d = Some e" "kept c d"
  shows "kept c e \<and> schema e = schema d \<and> transaction e = transaction d"
proof -
  have "e = d \<or> e = d\<lparr>foreign_keys := True\<rparr>" using assms(1,2) by (auto split: if_splits)
  then show ?thesis using assms(3) by (elim disjE) (simp_all add: kept_def)
qed

lemma kept_bump [simp]: "kept c (bump_tick d) = kept c d" "schema (bump_tick d) = schema d" "transaction (bump_tick d) = transaction d"
  by (simp_all add: kept_def bump_tick_def)

lemma opening_outcome:
  assumes "transaction c = None"
  shows "case Storage_Storage env db_path c of
      (Ok x, d) \<Rightarrow> kept c d \<and> set (schema d) = set (schema c) \<union> schema_names \<and> transaction d = None
    | (Throw e, d) \<Rightarrow> kept c d \<and> (durable d = schema c \<or> set (durable d) = set (schema c) \<union> schema_names)
    | (Fault x, d) \<Rightarrow> False"
proof -
  let ?P = "\<lambda>d. kept c d \<and> schema d = schema c \<and> transaction d = None"
  let ?Q = "in_phase c (set (schema c) \<union> schema_names) None"
  let ?E = "\<lambda>d. kept c d \<and> (durable d = schema c \<or> set (durable d) = set (schema c) \<union> schema_names)"
  have pragma: "keeps ?P (sqlite3_exec env [s])" if "s \<in> {PragmaJournalMode, PragmaBusyTimeout, PragmaForeignKeys}" for s
  proof (rule tripleI)
    fix d assume d: "?P d"
    show "case sqlite3_exec env [s] d of (Ok rc, t) \<Rightarrow> ?P t | (Throw e, t) \<Rightarrow> ?P t | (Fault x, t) \<Rightarrow> False"
      using d pragma_kept [OF that] by (cases "if step_ok env (db_tick d) then sql_effect s d else None")
        (auto split: if_splits)
  qed
  have tables: "triple ?P (CreateTables env) (\<lambda>_. ?Q) ?E"
    by (rule triple_conseq, rule CreateTables_triple, rule refl) (unfold opened_or_def, blast+)
  have statements: "triple ?Q (PrepareStatements env) (\<lambda>_. ?Q) ?E"
    by (rule triple_conseq [OF PrepareStatements_keeps [of c "set (schema c) \<union> schema_names" None env]])
       (assumption, assumption, unfold in_phase_def, metis durable_None)
  have pragmas: "triple ?P (sqlite3_exec env [s]) (\<lambda>_. ?P) ?E"
    if "s \<in> {PragmaJournalMode, PragmaBusyTimeout, PragmaForeignKeys}" for s
    by (rule triple_conseq, rule pragma, rule that) (metis durable_None)+
  have run: "triple ?P (seq (sqlite3_exec env [PragmaJournalMode]) (seq (sqlite3_exec env [PragmaBusyTimeout])
      (seq (sqlite3_exec env [PragmaForeignKeys]) (seq (CreateTables env) (PrepareStatements env))))) (\<lambda>_. ?Q) ?E"
    by (rule triple_seq [OF pragmas], simp, rule triple_seq [OF pragmas], simp, rule triple_seq [OF pragmas], simp,
        rule triple_seq [OF tables statements])
  let ?c = "c\<lparr>handles := handles c + 1\<rparr>"
  have P: "?P ?c" using assms by (simp add: kept_def)
  show ?thesis
  proof (cases "opens env db_path")
    case True
    then have eq: "Storage_Storage env db_path c = seq (sqlite3_exec env [PragmaJournalMode])
        (seq (sqlite3_exec env [PragmaBusyTimeout]) (seq (sqlite3_exec env [PragmaForeignKeys])
        (seq (CreateTables env) (PrepareStatements env)))) ?c"
      by (simp only: Storage_Storage_def bind_def prod.case outcome.case not_True_eq_False if_False)
    show ?thesis unfolding eq by (rule tripleE [OF run P]) (simp_all only: prod.case outcome.case in_phase_def simp_thms)
  next
    case False
    then show ?thesis using P by (simp add: Storage_Storage_def bind_def durable_def)
  qed
qed

text \<open>When SQLite carries out every statement and no two correlations have the same id and owner, the store opens.\<close>

definition completes :: "(connection, 'a) action \<Rightarrow> 'a \<Rightarrow> (connection \<Rightarrow> bool) \<Rightarrow> (connection \<Rightarrow> bool) \<Rightarrow> bool" where
  "completes m a P Q = (\<forall>d. P d \<longrightarrow> (\<exists>e. m d = (Ok a, e) \<and> Q e))"

lemma completes_bind: "completes m a P Q \<Longrightarrow> completes (f a) b Q R \<Longrightarrow> completes (bind m f) b P R"
  unfolding completes_def by (metis bind_Ok)

lemma completes_seq: "completes m a P Q \<Longrightarrow> completes n b Q R \<Longrightarrow> completes (seq m n) b P R"
  unfolding seq_def by (rule completes_bind)

lemma completes_ret: "completes (ret a) a P P"
  by (simp add: completes_def)

lemma completes_exec:
  assumes "\<And>n. step_ok env n" "\<And>d. P d \<Longrightarrow> \<exists>e. sql_effect s d = Some e \<and> Q (bump_tick e)" "completes (sqlite3_exec env ss) None Q R"
  shows "completes (sqlite3_exec env (s # ss)) None P R"
  unfolding completes_def
proof (intro allI impI)
  fix d assume "P d"
  then obtain e where "sql_effect s d = Some e" "Q (bump_tick e)" using assms(2) by blast
  then show "\<exists>f. sqlite3_exec env (s # ss) d = (Ok None, f) \<and> R f" using assms(1,3) by (simp add: completes_def)
qed

lemma completes_done: "completes (sqlite3_exec env []) None P P"
  by (simp add: completes_def)

lemma completes_creates:
  assumes "\<And>n. step_ok env n" "distinct (map (\<lambda>k. (cr_corr k, cr_sender k)) (correlations c))" "\<forall>s \<in> set sqls. created s \<noteq> {}"
  shows "completes (sqlite3_exec env sqls) None (in_phase c S tx) (in_phase c (S \<union> (\<Union>s \<in> set sqls. created s)) tx)"
  using assms(3)
proof (induction sqls arbitrary: S)
  case (Cons s sqls)
  have "\<exists>e. sql_effect s d = Some e \<and> in_phase c (S \<union> created s) tx (bump_tick e)" if d: "in_phase c S tx d" for d
  proof -
    have "correlations d = correlations c" using d by (simp add: in_phase_def kept_def)
    then have "sql_effect s d \<noteq> None" using assms(2) Cons.prems by (cases s) auto
    then obtain e where e: "sql_effect s d = Some e" by blast
    have "created s \<noteq> {}" using Cons.prems by simp
    from in_phase_effect [OF this e d] show ?thesis using e by simp
  qed
  then have "completes (sqlite3_exec env (s # sqls)) None (in_phase c S tx)
      (in_phase c ((S \<union> created s) \<union> (\<Union>s \<in> set sqls. created s)) tx)"
    using Cons by (intro completes_exec assms(1)) auto
  then show ?case by (simp add: Un_assoc del: sqlite3_exec.simps)
qed (simp add: completes_done del: sqlite3_exec.simps)

lemma healthy_opening:
  assumes "\<And>n. step_ok env n" "opens env path" "transaction c = None"
    and "distinct (map (\<lambda>k. (cr_corr k, cr_sender k)) (correlations c))"
  shows "fst (Storage_Storage env path c) = Ok ()"
proof -
  let ?S = "set (schema c)" and ?tx = "Some (schema c)"
  let ?P = "\<lambda>d. in_phase c ?S None d \<and> schema d = schema c"
  have pragma: "completes (sqlite3_exec env [s]) None ?P ?P" if "s \<in> {PragmaJournalMode, PragmaBusyTimeout, PragmaForeignKeys}" for s
    using that by (intro completes_exec [OF assms(1) _ completes_done]) (auto simp: in_phase_def kept_def bump_tick_def)
  have begin': "completes (sqlite3_exec env [BeginTransaction]) None ?P (in_phase c ?S ?tx)"
    by (intro completes_exec [OF assms(1) _ completes_done]) (auto simp: in_phase_def kept_def bump_tick_def)
  have commit: "completes (sqlite3_exec env [CommitTransaction]) None (in_phase c S ?tx) (in_phase c S None)" for S
    by (intro completes_exec [OF assms(1) _ completes_done]) (auto simp: in_phase_def kept_def bump_tick_def)
  have create: "completes (create_or_roll_back env sqls err) () (in_phase c S ?tx) (in_phase c (S \<union> (\<Union>s \<in> set sqls. created s)) ?tx)"
    if "\<forall>s \<in> set sqls. created s \<noteq> {}" for sqls err S
    unfolding create_or_roll_back_def
    by (rule completes_bind [OF completes_creates [OF assms(1,4) that]]) (simp only: option.case completes_ret)
  let ?T = "?S \<union> (\<Union>s \<in> set [CreateTable ''messages'']. created s) \<union> (\<Union>s \<in> set [CreateTable ''correlations'']. created s)
      \<union> (\<Union>s \<in> set create_indexes. created s)"
  have tables: "completes (CreateTables env) () ?P (in_phase c ?T None)"
    unfolding CreateTables_def
    by (rule completes_bind [OF begin'], simp only: option.case, rule completes_seq [OF create], simp,
        rule completes_seq [OF create], simp, rule completes_seq [OF create], simp add: create_indexes_def,
        rule completes_bind [OF commit]) (simp only: option.case completes_ret)
  have statement: "completes (SqliteStmt env ts) () (in_phase c ?T None) (in_phase c ?T None)" if "set ts \<subseteq> {''messages'', ''correlations''}" for ts
    using assms(1) that by (auto simp: completes_def SqliteStmt_def in_phase_def)
  have statements: "completes (for_each (\<lambda>tables. seq (SqliteStmt env tables) (ret True)) tss) () (in_phase c ?T None) (in_phase c ?T None)"
    if "\<forall>ts \<in> set tss. set ts \<subseteq> {''messages'', ''correlations''}" for tss
    using that
  proof (induction tss)
    case (Cons ts tss)
    have "set ts \<subseteq> {''messages'', ''correlations''}" "\<forall>ts \<in> set tss. set ts \<subseteq> {''messages'', ''correlations''}"
      using Cons.prems by simp_all
    from statement [OF this(1)] Cons.IH [OF this(2)] show ?case unfolding for_each.simps
      by (intro completes_bind [OF completes_seq [OF _ completes_ret]]) (simp_all only: if_True)
  qed (simp only: for_each.simps completes_ret)
  have prepare: "completes (PrepareStatements env) () (in_phase c ?T None) (in_phase c ?T None)"
    unfolding PrepareStatements_def by (rule statements) (simp add: prepared_statements_def)
  have "completes (seq (sqlite3_exec env [PragmaJournalMode]) (seq (sqlite3_exec env [PragmaBusyTimeout])
      (seq (sqlite3_exec env [PragmaForeignKeys]) (seq (CreateTables env) (PrepareStatements env))))) () ?P (in_phase c ?T None)"
    by (rule completes_seq [OF pragma], simp, rule completes_seq [OF pragma], simp, rule completes_seq [OF pragma], simp,
        rule completes_seq [OF tables prepare])
  moreover have "?P (c\<lparr>handles := handles c + 1\<rparr>)" using assms(3) by (simp add: in_phase_def kept_def)
  ultimately show ?thesis using assms(2) by (auto simp: completes_def Storage_Storage_def bind_def)
qed

text \<open>C35. Opening the store is all or nothing: whatever SQLite answers, the rows and their sequences are
  as before; if the constructor returns, the file has its old tables and indexes and all of the
  broker's, outside a transaction; if it throws, the file has either exactly its old schema or
  the complete one. In the last case, as in every failure, the handle is never closed, since the
  destructor of a \<open>Storage\<close> whose constructor throws does not run.\<close>

theorem storage_opens:
  assumes "transaction c = None"
  shows "case Storage_Storage env db_path c of
      (Ok x, d) \<Rightarrow> kept c d \<and> set (schema d) = set (schema c) \<union> schema_names \<and> transaction d = None
    | (Throw e, d) \<Rightarrow> kept c d \<and> (durable d = schema c \<or> set (durable d) = set (schema c) \<union> schema_names)
    | (Fault x, d) \<Rightarrow> False"
  by (rule opening_outcome [OF assms])

definition fresh_file :: connection where
  "fresh_file = \<lparr>messages = [], correlations = [], seq_messages = 0, seq_correlations = 0, foreign_keys = False,
     db_mutex = False, db_tick = 0, schema = [], transaction = None, handles = 0\<rparr>"

text \<open>An SQLite whose seventh call fails.\<close>

definition sticky_env :: sqlite_open where
  "sticky_env = \<lparr>step_ok = (\<lambda>n. n \<noteq> 7), sqlite_errmsg = (\<lambda>_. []), wall_clock = int, order_mrows = (\<lambda>_ rs. rs),
     order_crows = (\<lambda>_ cs. cs), order_joined = (\<lambda>_ ps. ps), opens = (\<lambda>_. True), exec_errmsg = (\<lambda>_. None)\<rparr>"

theorem storage_opens_witness:
  "case Storage_Storage sticky_env ''./broker.db'' fresh_file of
      (Ok x, d) \<Rightarrow> set (schema d) = schema_names \<and> messages d = []
    | (Throw e, d) \<Rightarrow> (durable d = [] \<or> set (durable d) = schema_names) \<and> handles d = 1
    | (Fault x, d) \<Rightarrow> False"
proof -
  have "transaction fresh_file = None" "schema fresh_file = []" "messages fresh_file = []" "handles fresh_file = 0"
    by (simp_all add: fresh_file_def)
  then show ?thesis using storage_opens [of fresh_file sticky_env "''./broker.db''"]
    by (auto simp: kept_def split: outcome.splits prod.splits)
qed

end
