(* ===== verification/Metrics_Export.thy ===== *)
theory Metrics_Export
  imports Broker_State
begin

text \<open>
  The export of the metrics: \<open>MetricsManager\<close> of include/metrics.hpp and src/metrics.cpp beyond its
  counters. The Prometheus objects are the library's; what is modelled is which of them the maps
  \<open>counters_\<close> and \<open>gauges_\<close> hold under which key, and the calls made on them, in order, with the
  integer arguments converted to \<open>double\<close>. The updater thread runs beside the workers that count, so that the
  state of the atomics may change between any two of its steps, also between the exchange of a counter and the
  call of \<open>Increment\<close>. A duration is its number of nanoseconds; its division into a \<open>double\<close> of seconds is not modelled.
\<close>

section \<open>Integers as double\<close>

text \<open>The conversion of an integer to \<open>double\<close>: the nearest number of at most 53 significant bits, the even one
  of two that are equally near. All values here are below the greatest \<open>double\<close>.\<close>

fun bit_count :: "nat \<Rightarrow> nat" where
  "bit_count n = (if n = 0 then 0 else Suc (bit_count (n div 2)))"

declare bit_count.simps [simp del]

definition double_of :: "nat \<Rightarrow> nat" where
  "double_of n = (let unit_size = 2 ^ (bit_count n - 53); q = n div unit_size; r = n mod unit_size
     in (if 2 * r > unit_size \<or> (2 * r = unit_size \<and> odd q) then q + 1 else q) * unit_size)"

definition double_of_int :: "int \<Rightarrow> int" where
  "double_of_int v = (if v < 0 then - int (double_of (nat (- v))) else int (double_of (nat v)))"

lemma bit_count_le: "n < 2 ^ k \<Longrightarrow> bit_count n \<le> k"
proof (induction k arbitrary: n)
  case (Suc k)
  then have "n div 2 < 2 ^ k" by auto
  then show ?case using Suc.IH [of "n div 2"] by (subst bit_count.simps) simp
qed (simp add: bit_count.simps)

text \<open>Exact up to \<open>2 ^ 53\<close>, and the next number is not.\<close>

lemma double_of_exact: "n \<le> 2 ^ 53 \<Longrightarrow> double_of n = n"
proof -
  assume n: "n \<le> 2 ^ 53"
  show ?thesis
  proof (cases "n = 2 ^ 53")
    case True
    have "bit_count n \<le> 54" using True by (intro bit_count_le) simp
    then have "bit_count n - 53 = 0 \<or> bit_count n - 53 = 1" by auto
    then show ?thesis by (auto simp: double_of_def True)
  next
    case False
    then have "bit_count n - 53 = 0" using n bit_count_le [of n 53] by simp
    then show ?thesis by (simp add: double_of_def)
  qed
qed

lemma double_of_rounds: "double_of (2 ^ 53 + 1) = 2 ^ 53" "double_of (2 ^ 53 + 3) = 2 ^ 53 + 4"
  by (simp_all add: double_of_def bit_count.simps)

section \<open>State\<close>

text \<open>An object of the library: the family it belongs to and its label.\<close>

type_synonym series = "string \<times> string"

datatype prometheus_call = CounterIncrement series nat | GaugeSet series int | Observe series nat
  | ObserveDuration series int

record exporter =
  atomics :: metrics
  counters_map :: "(string \<times> series) list"
  gauges_map :: "(string \<times> series) list"
  processing_time_histogram :: "series option"
  payload_size_histogram :: "series option"
  exposer :: "string option"
  calls :: "prometheus_call list"
  updater_running :: bool
  updater_thread :: bool
  update_interval :: int

definition InitializePrometheusMetrics :: "(exporter, unit) action" where
  "InitializePrometheusMetrics = update (\<lambda>e. e\<lparr>
     counters_map := AList.updates
       [''messages_received'', ''messages_sent'', ''messages_failed'', ''acks_received'', ''messages_expired'',
        ''offline_delivered'', ''clients_registered'', ''clients_unregistered'', ''clients_timeout'']
       [(''broker_messages_total'', ''received''), (''broker_messages_total'', ''sent''),
        (''broker_messages_total'', ''failed''), (''broker_messages_total'', ''ack''),
        (''broker_messages_total'', ''expired''), (''broker_messages_total'', ''offline''),
        (''broker_clients_total'', ''register''), (''broker_clients_total'', ''unregister''),
        (''broker_clients_total'', ''timeout'')] (counters_map e),
     gauges_map := AList.updates [''active_sessions'', ''pending_send_queue'']
       [(''broker_state'', ''active_sessions''), (''broker_state'', ''pending_send_queue'')] (gauges_map e),
     processing_time_histogram := Some (''broker_message_processing_duration_seconds'', ''message_processing''),
     payload_size_histogram := Some (''broker_payload_size_bytes'', ''payload'')\<rparr>)"

text \<open>The object after its constructor.\<close>

definition new_exporter :: exporter where
  "new_exporter = snd (InitializePrometheusMetrics \<lparr>atomics = zero_metrics, counters_map = [], gauges_map = [],
     processing_time_histogram = None, payload_size_histogram = None, exposer = None, calls = [], updater_running = False, updater_thread = False, update_interval = 2\<rparr>)"

section \<open>Publishing\<close>

datatype counter = MessagesReceived | MessagesSent | MessagesFailed | AcksReceived | MessagesExpired
  | OfflineDelivered | ClientsRegistered | ClientsUnregistered | ClientsTimeout

definition counters :: "counter list" where
  "counters = [MessagesReceived, MessagesSent, MessagesFailed, AcksReceived, MessagesExpired, OfflineDelivered,
     ClientsRegistered, ClientsUnregistered, ClientsTimeout]"

fun key :: "counter \<Rightarrow> string" where
  "key MessagesReceived = ''messages_received''"
| "key MessagesSent = ''messages_sent''"
| "key MessagesFailed = ''messages_failed''"
| "key AcksReceived = ''acks_received''"
| "key MessagesExpired = ''messages_expired''"
| "key OfflineDelivered = ''offline_delivered''"
| "key ClientsRegistered = ''clients_registered''"
| "key ClientsUnregistered = ''clients_unregistered''"
| "key ClientsTimeout = ''clients_timeout''"

fun load :: "counter \<Rightarrow> metrics \<Rightarrow> u64" where
  "load MessagesReceived = messages_received"
| "load MessagesSent = messages_sent"
| "load MessagesFailed = messages_failed"
| "load AcksReceived = acks_received"
| "load MessagesExpired = messages_expired"
| "load OfflineDelivered = offline_delivered"
| "load ClientsRegistered = clients_registered"
| "load ClientsUnregistered = clients_unregistered"
| "load ClientsTimeout = clients_timeout"

fun store :: "counter \<Rightarrow> u64 \<Rightarrow> metrics \<Rightarrow> metrics" where
  "store MessagesReceived v k = k\<lparr>messages_received := v\<rparr>"
| "store MessagesSent v k = k\<lparr>messages_sent := v\<rparr>"
| "store MessagesFailed v k = k\<lparr>messages_failed := v\<rparr>"
| "store AcksReceived v k = k\<lparr>acks_received := v\<rparr>"
| "store MessagesExpired v k = k\<lparr>messages_expired := v\<rparr>"
| "store OfflineDelivered v k = k\<lparr>offline_delivered := v\<rparr>"
| "store ClientsRegistered v k = k\<lparr>clients_registered := v\<rparr>"
| "store ClientsUnregistered v k = k\<lparr>clients_unregistered := v\<rparr>"
| "store ClientsTimeout v k = k\<lparr>clients_timeout := v\<rparr>"

text \<open>What the workers do to a counter.\<close>

fun increment :: "counter \<Rightarrow> metrics \<Rightarrow> metrics" where
  "increment MessagesReceived = IncrementMessagesReceived"
| "increment MessagesSent = IncrementMessagesSent"
| "increment MessagesFailed = IncrementMessagesFailed"
| "increment AcksReceived = IncrementAcksReceived"
| "increment MessagesExpired = IncrementMessagesExpired"
| "increment OfflineDelivered = IncrementOfflineDelivered"
| "increment ClientsRegistered = IncrementClientsRegistered"
| "increment ClientsUnregistered = IncrementClientsUnregistered"
| "increment ClientsTimeout = IncrementClientsTimeout"

definition call :: "prometheus_call \<Rightarrow> (exporter, unit) action" where
  "call c = update (\<lambda>e. e\<lparr>calls := calls e @ [c]\<rparr>)"

text \<open>\<open>exchange(0)\<close> on a counter, and \<open>Increment\<close> on what the map held: a key it does not hold reads as a
  null pointer. In \<open>counters_["..."]->Increment(..._.exchange(0))\<close> the map is read first.\<close>

definition exchange :: "counter \<Rightarrow> (exporter, u64) action" where
  "exchange c = bind (ask (\<lambda>e. load c (atomics e))) (\<lambda>v.
     seq (update (\<lambda>e. e\<lparr>atomics := store c 0 (atomics e)\<rparr>)) (ret v))"

definition find_counter :: "counter \<Rightarrow> (exporter, series option) action" where
  "find_counter c = ask (\<lambda>e. map_of (counters_map e) (key c))"

definition Increment :: "series option \<Rightarrow> u64 \<Rightarrow> (exporter, unit) action" where
  "Increment target v = (case target of None \<Rightarrow> fail_with NullPointer
     | Some s \<Rightarrow> call (CounterIncrement s (double_of (unat v))))"

definition publish :: "counter \<Rightarrow> (exporter, unit) action" where
  "publish c = bind (find_counter c) (\<lambda>target. bind (exchange c) (Increment target))"

fun publish_list :: "counter list \<Rightarrow> (exporter, unit) action" where
  "publish_list [] = ret ()"
| "publish_list (c # cs) = seq (publish c) (publish_list cs)"

definition publish_gauge :: "string \<Rightarrow> (metrics \<Rightarrow> int) \<Rightarrow> (exporter, unit) action" where
  "publish_gauge name f = bind (ask (\<lambda>e. (f (atomics e), map_of (gauges_map e) name))) (\<lambda>(v, target).
     case target of None \<Rightarrow> fail_with NullPointer | Some s \<Rightarrow> call (GaugeSet s (double_of_int v)))"

definition publish_gauges :: "(exporter, unit) action" where
  "publish_gauges = seq (publish_gauge ''active_sessions'' active_sessions) (publish_gauge ''pending_send_queue'' pending_send_queue)"

definition UpdateMetrics :: "(exporter, unit) action" where
  "UpdateMetrics = try_catch
     (seq (publish_list counters) publish_gauges)
     (\<lambda>_. ret ())"

definition ObservePayloadSize :: "nat \<Rightarrow> (exporter, unit) action" where
  "ObservePayloadSize n = bind (ask payload_size_histogram) (\<lambda>h. case h of None \<Rightarrow> ret () | Some s \<Rightarrow> call (Observe s (double_of n)))"

definition AddMessageProcessingTime :: "int \<Rightarrow> (exporter, unit) action" where
  "AddMessageProcessingTime duration = bind (ask processing_time_histogram) (\<lambda>h. case h of None \<Rightarrow> ret ()
     | Some s \<Rightarrow> call (ObserveDuration s duration))"

text \<open>The end of the scope of a \<open>ScopedMetricsTimer\<close> that was made at the time \<open>start\<close>; the object it refers to
  lives as long as the server.\<close>

definition ScopedMetricsTimer_destructor :: "int \<Rightarrow> int \<Rightarrow> (exporter, unit) action" where
  "ScopedMetricsTimer_destructor start now = AddMessageProcessingTime (now - start)"

text \<open>\<open>starts\<close> says whether the HTTP exposer can listen on an address.\<close>

definition InitExposer :: "(string \<Rightarrow> bool) \<Rightarrow> string \<Rightarrow> (exporter, unit) action" where
  "InitExposer starts bind_address = (if starts bind_address then update (\<lambda>e. e\<lparr>exposer := Some bind_address\<rparr>)
     else throw (RuntimeError ''exposer''))"

section \<open>The updater thread\<close>

definition StartUpdater :: "int \<Rightarrow> (exporter, unit) action" where
  "StartUpdater interval = bind (ask updater_running) (\<lambda>already. if already then ret ()
     else update (\<lambda>e. e\<lparr>update_interval := interval, updater_running := True, updater_thread := True\<rparr>))"

text \<open>One round of the thread, after its sleep; the result says whether it goes on.\<close>

definition updater_round :: "(exporter, bool) action" where
  "updater_round = bind (ask updater_running) (\<lambda>go. seq (if go then UpdateMetrics else ret ()) (ask updater_running))"

definition StopUpdater :: "(exporter, unit) action" where
  "StopUpdater = update (\<lambda>e. e\<lparr>updater_running := False, updater_thread := False\<rparr>)"

definition MetricsManager_destructor :: "(exporter, unit) action" where
  "MetricsManager_destructor = StopUpdater"

section \<open>Counters as an indexed family\<close>

lemma load_store [simp]: "load c (store d v k) = (if c = d then v else load c k)"
  by (cases c; cases d) simp_all

lemma load_increment [simp]: "load c (increment d k) = (if c = d then load c k + 1 else load c k)"
  by (cases d; cases c) (simp_all add: IncrementMessagesReceived_def IncrementMessagesSent_def IncrementMessagesFailed_def
      IncrementAcksReceived_def IncrementMessagesExpired_def IncrementOfflineDelivered_def IncrementClientsRegistered_def
      IncrementClientsUnregistered_def IncrementClientsTimeout_def)

lemma gauges_store [simp]: "active_sessions (store c v k) = active_sessions k"
  "pending_send_queue (store c v k) = pending_send_queue k"
  by (cases c; simp)+

lemma load_zero [simp]: "load c zero_metrics = 0"
  by (cases c) (simp_all add: zero_metrics_def)

lemma all_counters [simp]: "c \<in> set counters"
  by (cases c) (simp_all add: counters_def)

text \<open>The series each counter is exported as.\<close>

fun series_of :: "counter \<Rightarrow> series" where
  "series_of MessagesReceived = (''broker_messages_total'', ''received'')"
| "series_of MessagesSent = (''broker_messages_total'', ''sent'')"
| "series_of MessagesFailed = (''broker_messages_total'', ''failed'')"
| "series_of AcksReceived = (''broker_messages_total'', ''ack'')"
| "series_of MessagesExpired = (''broker_messages_total'', ''expired'')"
| "series_of OfflineDelivered = (''broker_messages_total'', ''offline'')"
| "series_of ClientsRegistered = (''broker_clients_total'', ''register'')"
| "series_of ClientsUnregistered = (''broker_clients_total'', ''unregister'')"
| "series_of ClientsTimeout = (''broker_clients_total'', ''timeout'')"

lemma series_of_eq [simp]: "series_of c = series_of d \<longleftrightarrow> c = d"
  by (cases c; cases d) simp_all

definition wired :: "exporter \<Rightarrow> bool" where
  "wired e = (counters_map e = counters_map new_exporter \<and> gauges_map e = gauges_map new_exporter)"

lemma new_exporter_keys:
  "map_of (counters_map new_exporter) (key c) = Some (series_of c)"
  "map_of (gauges_map new_exporter) ''active_sessions'' = Some (''broker_state'', ''active_sessions'')"
  "map_of (gauges_map new_exporter) ''pending_send_queue'' = Some (''broker_state'', ''pending_send_queue'')"
proof -
  show "map_of (counters_map new_exporter) (key c) = Some (series_of c)" by (cases c; simp only:; code_simp)
  show "map_of (gauges_map new_exporter) ''active_sessions'' = Some (''broker_state'', ''active_sessions'')"
    "map_of (gauges_map new_exporter) ''pending_send_queue'' = Some (''broker_state'', ''pending_send_queue'')" by code_simp+
qed

lemma new_exporter_sel [simp]: "atomics new_exporter = zero_metrics" "calls new_exporter = []"
  "\<not> updater_running new_exporter" "wired new_exporter"
  by (simp_all add: wired_def) (simp_all add: new_exporter_def InitializePrometheusMetrics_def)

lemma publish_apply:
  "wired e \<Longrightarrow> publish c e = (Ok (), e\<lparr>atomics := store c 0 (atomics e),
     calls := calls e @ [CounterIncrement (series_of c) (double_of (unat (load c (atomics e))))]\<rparr>)"
  by (simp add: publish_def find_counter_def exchange_def Increment_def wired_def new_exporter_keys call_def run_act bind_Ok seq_def)

lemma publish_gauge_apply:
  "wired e \<Longrightarrow> n \<in> {''active_sessions'', ''pending_send_queue''} \<Longrightarrow>
    publish_gauge n f e = (Ok (), e\<lparr>calls := calls e @ [GaugeSet (''broker_state'', n) (double_of_int (f (atomics e)))]\<rparr>)"
  by (auto simp: publish_gauge_def wired_def new_exporter_keys call_def run_act)

lemma wired_update [simp]:
  "wired (e\<lparr>atomics := k\<rparr>) = wired e" "wired (e\<lparr>calls := cs\<rparr>) = wired e"
  by (simp_all add: wired_def)

lemma publish_all:
  assumes "wired e" "distinct cs"
  shows "publish_list cs e = (Ok (), e\<lparr>atomics := fold (\<lambda>c. store c 0) cs (atomics e),
    calls := calls e @ map (\<lambda>c. CounterIncrement (series_of c) (double_of (unat (load c (atomics e))))) cs\<rparr>)"
  using assms
proof (induction cs arbitrary: e)
  case (Cons c cs)
  let ?e = "e\<lparr>atomics := store c 0 (atomics e), calls := calls e @ [CounterIncrement (series_of c) (double_of (unat (load c (atomics e))))]\<rparr>"
  have "wired ?e" using Cons.prems(1) by (simp add: wired_def)
  then have "publish_list cs ?e = (Ok (), ?e\<lparr>atomics := fold (\<lambda>c. store c 0) cs (atomics ?e),
      calls := calls ?e @ map (\<lambda>c. CounterIncrement (series_of c) (double_of (unat (load c (atomics ?e))))) cs\<rparr>)"
    using Cons by simp
  moreover have "map (\<lambda>d. CounterIncrement (series_of d) (double_of (unat (load d (store c 0 (atomics e)))))) cs
      = map (\<lambda>d. CounterIncrement (series_of d) (double_of (unat (load d (atomics e))))) cs"
    using Cons.prems(2) by auto
  moreover have "publish_list (c # cs) e = publish_list cs ?e"
    using Cons.prems(1) by (simp add: seq_def bind_Ok publish_apply)
  ultimately show ?case by (simp only:) simp
qed simp

lemma load_fold [simp]: "load c (fold (\<lambda>c. store c 0) cs k) = (if c \<in> set cs then 0 else load c k)"
  by (induction cs arbitrary: k) auto

lemma gauges_fold [simp]: "active_sessions (fold (\<lambda>c. store c 0) cs k) = active_sessions k"
  "pending_send_queue (fold (\<lambda>c. store c 0) cs k) = pending_send_queue k"
  by (induction cs arbitrary: k) simp_all

section \<open>Properties\<close>

text \<open>One round of the updater: every counter is added to its own Prometheus series and set to zero,
  then the two gauges are set; every key the code looks up is one the constructor has put into its
  map, so that no null pointer is called.\<close>

theorem update_metrics_publishes:
  assumes "wired e"
  shows "\<exists>t. UpdateMetrics e = (Ok (), t) \<and> wired t
    \<and> (\<forall>c. load c (atomics t) = 0) \<and> active_sessions (atomics t) = active_sessions (atomics e)
    \<and> calls t = calls e @ map (\<lambda>c. CounterIncrement (series_of c) (double_of (unat (load c (atomics e))))) counters
        @ [GaugeSet (''broker_state'', ''active_sessions'') (double_of_int (active_sessions (atomics e))),
           GaugeSet (''broker_state'', ''pending_send_queue'') (double_of_int (pending_send_queue (atomics e)))]"
proof -
  have "distinct counters" by (simp add: counters_def)
  note all = publish_all [OF assms this]
  show ?thesis using assms
    by (simp add: UpdateMetrics_def publish_gauges_def try_catch_def seq_def bind_def all publish_gauge_apply)
qed

theorem update_metrics_publishes_witness:
  "\<exists>t. UpdateMetrics (new_exporter\<lparr>atomics := zero_metrics\<lparr>messages_sent := 3\<rparr>\<rparr>) = (Ok (), t)
    \<and> calls t ! 1 = CounterIncrement (''broker_messages_total'', ''sent'') 3 \<and> messages_sent (atomics t) = 0"
proof -
  have "wired (new_exporter\<lparr>atomics := zero_metrics\<lparr>messages_sent := 3\<rparr>\<rparr>)" by simp
  from update_metrics_publishes [OF this] obtain t where t: "UpdateMetrics (new_exporter\<lparr>atomics := zero_metrics\<lparr>messages_sent := 3\<rparr>\<rparr>) = (Ok (), t)"
    "\<forall>c. load c (atomics t) = 0" "calls t ! 1 = CounterIncrement (''broker_messages_total'', ''sent'') 3"
    by (auto simp: counters_def double_of_exact)
  then show ?thesis using spec [OF t(2), of MessagesSent] by auto
qed

section \<open>Counting and publishing at the same time\<close>

text \<open>The updater between its steps: the counters left in this round, and what it has exchanged and not yet
  passed to \<open>Increment\<close>.\<close>

type_synonym updater = "counter list \<times> (series option \<times> u64) option"

fun updater_step :: "updater \<Rightarrow> (exporter, updater) action" where
  "updater_step (cs, Some (target, v)) = seq (Increment target v) (ret (cs, None))"
| "updater_step (c # cs, None) = bind (find_counter c) (\<lambda>target. bind (exchange c) (\<lambda>v. ret (cs, Some (target, v))))"
| "updater_step ([], None) = seq publish_gauges (ret (counters, None))"

text \<open>The steps of the workers and of the updater, in any order.\<close>

datatype metric_step = Count counter | UpdaterGoesOn | Payload nat | Processed int int

fun metric_action :: "metric_step \<Rightarrow> updater \<Rightarrow> (exporter, updater) action" where
  "metric_action (Count c) u = seq (update (\<lambda>e. e\<lparr>atomics := increment c (atomics e)\<rparr>)) (ret u)"
| "metric_action UpdaterGoesOn u = updater_step u"
| "metric_action (Payload n) u = seq (ObservePayloadSize n) (ret u)"
| "metric_action (Processed start now) u = seq (ScopedMetricsTimer_destructor start now) (ret u)"

fun metric_run :: "metric_step list \<Rightarrow> updater \<Rightarrow> (exporter, updater) action" where
  "metric_run [] u = ret u"
| "metric_run (s # steps) u = bind (metric_action s u) (metric_run steps)"

text \<open>An updater nobody interrupts publishes the counters as the code does in sequence.\<close>

lemma uninterrupted_updater:
  "metric_run (replicate (2 * length cs) UpdaterGoesOn) (cs, None) = seq (publish_list cs) (ret ([], None))"
proof (induction cs)
  case Nil
  show ?case by (rule ext) (simp add: seq_def bind_def)
qed (simp add: publish_def seq_def bind_assoc)

fun exported :: "series \<Rightarrow> prometheus_call list \<Rightarrow> nat" where
  "exported s [] = 0"
| "exported s (CounterIncrement r v # cs) = (if r = s then v else 0) + exported s cs"
| "exported s (c # cs) = exported s cs"

definition in_hand :: "series \<Rightarrow> updater \<Rightarrow> nat" where
  "in_hand s u = (case snd u of Some (Some r, v) \<Rightarrow> if r = s then unat v else 0 | _ \<Rightarrow> 0)"

lemma exported_append [simp]: "exported s (xs @ ys) = exported s xs + exported s ys"
  by (induction s xs rule: exported.induct) simp_all

lemma observe_apply:
  assumes "wired e"
  shows "\<exists>u. ObservePayloadSize n e = (Ok (), u) \<and> wired u \<and> atomics u = atomics e \<and> exported s (calls u) = exported s (calls e)"
    and "\<exists>u. ScopedMetricsTimer_destructor start now e = (Ok (), u) \<and> wired u \<and> atomics u = atomics e
      \<and> exported s (calls u) = exported s (calls e)"
    and "\<exists>u. publish_gauges e = (Ok (), u) \<and> wired u \<and> atomics u = atomics e \<and> exported s (calls u) = exported s (calls e)"
  using assms by (simp_all add: ObservePayloadSize_def ScopedMetricsTimer_destructor_def AddMessageProcessingTime_def call_def
      publish_gauges_def publish_gauge_apply seq_def bind_Ok run_act split: option.split)

text \<open>What there is of a counter in all: exported, exchanged, still counted.\<close>

definition total_of :: "counter \<Rightarrow> updater \<Rightarrow> exporter \<Rightarrow> nat" where
  "total_of c u e = exported (series_of c) (calls e) + in_hand (series_of c) u + unat (load c (atomics e))"

definition hand_ok :: "updater \<Rightarrow> bool" where
  "hand_ok u = (case snd u of Some (target, v) \<Rightarrow> target \<noteq> None | None \<Rightarrow> True)"

lemma updater_total:
  assumes "wired e" "hand_ok u" "total_of c u e \<le> 2 ^ 53"
  obtains v t where "updater_step u e = (Ok v, t)" "wired t" "hand_ok v" "total_of c v t = total_of c u e"
proof -
  consider (hand) cs s x where "u = (cs, Some (Some s, x))" | (next_one) d cs where "u = (d # cs, None)" | (round) "u = ([], None)"
    using assms(2) by (cases u rule: updater_step.cases) (auto simp: hand_ok_def)
  then show ?thesis
  proof cases
    case hand
    let ?t = "e\<lparr>calls := calls e @ [CounterIncrement s (double_of (unat x))]\<rparr>"
    have "s = series_of c \<Longrightarrow> unat x \<le> 2 ^ 53" using assms(3) by (simp add: hand total_of_def in_hand_def)
    then have "total_of c (cs, None) ?t = total_of c u e"
      by (simp add: hand total_of_def in_hand_def double_of_exact)
    then show ?thesis using assms(1)
      by (intro that [of "(cs, None)" ?t]) (simp_all add: hand Increment_def call_def seq_def bind_Ok run_act hand_ok_def)
  next
    case next_one
    let ?t = "e\<lparr>atomics := store d 0 (atomics e)\<rparr>" and ?u = "(cs, Some (Some (series_of d), load d (atomics e)))"
    have "updater_step u e = (Ok ?u, ?t)"
      using assms(1) by (simp add: next_one find_counter_def exchange_def run_act bind_Ok seq_def wired_def new_exporter_keys)
    moreover have "total_of c ?u ?t = total_of c u e" by (simp add: next_one total_of_def in_hand_def)
    ultimately show ?thesis using assms(1) by (intro that [of ?u ?t]) (simp_all add: hand_ok_def)
  next
    case round
    obtain t where "publish_gauges e = (Ok (), t)" "wired t" "atomics t = atomics e"
      "exported (series_of c) (calls t) = exported (series_of c) (calls e)"
      using observe_apply(3) [OF assms(1)] by blast
    then show ?thesis
      by (intro that [of "(counters, None)" t]) (simp_all add: round seq_def bind_Ok hand_ok_def total_of_def in_hand_def)
  qed
qed

lemma count_total:
  assumes "total_of c u e + (if d = c then 1 else 0) \<le> 2 ^ 53"
  shows "total_of c u (e\<lparr>atomics := increment d (atomics e)\<rparr>) = total_of c u e + (if d = c then 1 else 0)"
proof (cases "c = d")
  case True
  then have "unat (load c (atomics e)) + 1 < 2 ^ LENGTH(64)" using assms by (simp add: total_of_def)
  then show ?thesis using True by (simp add: total_of_def unat_plus_simple [THEN iffD1] no_olen_add_nat unat_word_ariths)
qed (simp add: total_of_def)

lemma metric_steps:
  assumes "wired e" "hand_ok u" "total_of c u e + count_list steps (Count c) \<le> 2 ^ 53"
  shows "\<exists>v t. metric_run steps u e = (Ok v, t) \<and> total_of c v t = total_of c u e + count_list steps (Count c)"
  using assms
proof (induction steps arbitrary: e u)
  case (Cons s steps)
  have "\<exists>v t. metric_action s u e = (Ok v, t) \<and> wired t \<and> hand_ok v
      \<and> total_of c v t = total_of c u e + (if s = Count c then 1 else 0)"
  proof (cases s)
    case (Count d)
    have "total_of c u (e\<lparr>atomics := increment d (atomics e)\<rparr>) = total_of c u e + (if d = c then 1 else 0)"
      by (rule count_total) (use Cons.prems(3) in \<open>simp add: Count split: if_splits\<close>)
    then show ?thesis using Cons.prems(1,2) by (simp add: Count seq_def bind_Ok run_act)
  next
    case UpdaterGoesOn
    have "total_of c u e \<le> 2 ^ 53" using Cons.prems(3) by simp
    with Cons.prems(1,2) show ?thesis unfolding UpdaterGoesOn metric_action.simps
      by (rule updater_total) auto
  next
    case (Payload n)
    obtain t where "ObservePayloadSize n e = (Ok (), t)" "wired t" "atomics t = atomics e"
      "exported (series_of c) (calls t) = exported (series_of c) (calls e)"
      using observe_apply(1) [OF Cons.prems(1)] by blast
    then show ?thesis using Cons.prems(2) by (intro exI [of _ u] exI [of _ t]) (simp add: Payload seq_def bind_Ok total_of_def)
  next
    case (Processed start now)
    obtain t where "ScopedMetricsTimer_destructor start now e = (Ok (), t)" "wired t" "atomics t = atomics e"
      "exported (series_of c) (calls t) = exported (series_of c) (calls e)"
      using observe_apply(2) [OF Cons.prems(1)] by blast
    then show ?thesis using Cons.prems(2) by (intro exI [of _ u] exI [of _ t]) (simp add: Processed seq_def bind_Ok total_of_def)
  qed
  then obtain v t where v: "metric_action s u e = (Ok v, t)" "wired t" "hand_ok v"
    "total_of c v t = total_of c u e + (if s = Count c then 1 else 0)" by blast
  have "total_of c v t + count_list steps (Count c) \<le> 2 ^ 53" using Cons.prems(3) v(4) by (cases "s = Count c") simp_all
  from Cons.IH [OF v(2,3) this] show ?case using v(4) by (auto simp: bind_Ok [where m = "metric_action s u", OF v(1)])
qed simp

text \<open>C37. No event is lost or counted twice by the export: for every interleaving of the workers' increments, of the
  updater's exchanges and calls of \<open>Increment\<close> (a worker may count between the two), and of the observations of sizes and
  durations, what the Prometheus series of a counter was incremented by, what the updater holds between an exchange
  and the call, and what the counter still holds sum up to the number of increments, as long as there are at most
  \<open>2 ^ 53\<close> of them: up to there the conversion of the exchanged value to \<open>double\<close> is exact.\<close>

theorem metrics_conserved:
  assumes "count_list steps (Count c) \<le> 2 ^ 53"
  shows "\<exists>u t. metric_run steps (counters, None) new_exporter = (Ok u, t)
    \<and> exported (series_of c) (calls t) + in_hand (series_of c) u + unat (load c (atomics t)) = count_list steps (Count c)"
  using metric_steps [of new_exporter "(counters, None)" c steps] assms by (auto simp: hand_ok_def total_of_def in_hand_def)

theorem metrics_conserved_witness:
  "\<exists>u t. metric_run [Count MessagesReceived, UpdaterGoesOn, Count MessagesReceived, UpdaterGoesOn, Count MessagesSent,
      Count MessagesReceived, UpdaterGoesOn] (counters, None) new_exporter = (Ok u, t)
    \<and> exported (''broker_messages_total'', ''received'') (calls t) + in_hand (''broker_messages_total'', ''received'') u
      + unat (messages_received (atomics t)) = 3"
  using metrics_conserved [of "[Count MessagesReceived, UpdaterGoesOn, Count MessagesReceived, UpdaterGoesOn, Count MessagesSent,
      Count MessagesReceived, UpdaterGoesOn]" MessagesReceived]
  by (simp del: metric_run.simps add: numeral_3_eq_3)

end
