(* ===== verification/Session.thy ===== *)
theory Session
  imports Broker_State
begin

text \<open>
  Client sessions: include/session.hpp and src/session.cpp, with the two calls a session makes
  outside itself: \<open>Server::SendToClient\<close> through \<open>IMessageSender\<close>, and
  \<open>Router::PersistMessageForClient\<close> through its persist callback.
\<close>

section \<open>What a session calls\<close>

definition ScheduleSendProcessing :: "(world, unit) action" where
  "ScheduleSendProcessing = update (\<lambda>w. w\<lparr>posted_sends := Suc (posted_sends w)\<rparr>)"

definition SendToClient :: "string \<Rightarrow> bytes \<Rightarrow> (nat \<times> string) option \<Rightarrow> (world, unit) action" where
  "SendToClient ident data callback =
     seq (pending_locked (update (\<lambda>w. w\<lparr>pending_sends := pending_sends w
            @ [\<lparr>ps_identity = ident, ps_data = data, ps_callback = callback\<rparr>]\<rparr>)))
         ScheduleSendProcessing"

definition PersistMessageForClient :: "env \<Rightarrow> string \<Rightarrow> message \<Rightarrow> (world, unit) action" where
  "PersistMessageForClient env client_name msg =
     bind (SaveMessage env (msg\<lparr>destination := client_name\<rparr>)) (\<lambda>_. ret ())"

section \<open>The session's methods\<close>

definition new_session :: "string \<Rightarrow> int \<Rightarrow> session" where
  "new_session ident now = \<lparr>identity = ident, session_name = [], is_online = True, outgoing_queue = [],
     queue_mutex = False, last_receive = now, last_activity = now, persist_callback = False\<rparr>"

text \<open>\<open>std::make_shared<Session>(...)\<close>.\<close>

definition make_session :: "string \<Rightarrow> (world, nat) action" where
  "make_session ident = (\<lambda>w. (Ok (next_addr w),
     w\<lparr>heap := (heap w)(next_addr w \<mapsto> new_session ident (clock w)), next_addr := Suc (next_addr w)\<rparr>))"

definition SetName :: "nat \<Rightarrow> string \<Rightarrow> (world, unit) action" where
  "SetName a name = assign a (\<lambda>s. s\<lparr>session_name := name\<rparr>)"

definition SetPersistCallback :: "nat \<Rightarrow> (world, unit) action" where
  "SetPersistCallback a = assign a (\<lambda>s. s\<lparr>persist_callback := True\<rparr>)"

definition IsOnline :: "nat \<Rightarrow> (world, bool) action" where
  "IsOnline a = deref a is_online"

definition MarkOffline :: "nat \<Rightarrow> (world, unit) action" where
  "MarkOffline a = assign a (\<lambda>s. s\<lparr>is_online := False\<rparr>)"

definition MarkOnline :: "nat \<Rightarrow> (world, unit) action" where
  "MarkOnline a = assign a (\<lambda>s. s\<lparr>is_online := True\<rparr>)"

definition UpdateLastReceive :: "nat \<Rightarrow> (world, unit) action" where
  "UpdateLastReceive a = (\<lambda>w. assign a (\<lambda>s. s\<lparr>last_receive := clock w\<rparr>) w)"

definition UpdateLastActivity :: "nat \<Rightarrow> (world, unit) action" where
  "UpdateLastActivity a = (\<lambda>w. assign a (\<lambda>s. s\<lparr>last_activity := clock w\<rparr>) w)"

text \<open>\<open>duration_cast<seconds>\<close> of a duration in nanoseconds truncates towards zero.\<close>

definition whole_seconds :: "int \<Rightarrow> int" where
  "whole_seconds d = (if 0 \<le> d then d div 1000000000 else - (- d div 1000000000))"

definition IsExpired :: "nat \<Rightarrow> int \<Rightarrow> (world, bool) action" where
  "IsExpired a timeout_seconds = bind (IsOnline a) (\<lambda>online. if \<not> online then ret True
     else (\<lambda>w. deref a (\<lambda>s. whole_seconds (clock w - last_receive s) > timeout_seconds) w))"

definition GetQueueSize :: "nat \<Rightarrow> (world, nat) action" where
  "GetQueueSize a = queue_locked a (deref a (\<lambda>s. length (outgoing_queue s)))"

text \<open>At most \<open>n\<close> rounds of \<open>persist_callback_(name_, front()); pop()\<close> while the queue is not
  empty. With \<open>n\<close> the length of the queue this is \<open>while (!outgoing_queue_.empty())\<close>: each
  round pops one message and the callback adds none.\<close>

fun persist_rounds :: "env \<Rightarrow> nat \<Rightarrow> nat \<Rightarrow> (world, unit) action" where
  "persist_rounds env a 0 = ret ()"
| "persist_rounds env a (Suc n) = bind (deref a (\<lambda>s. (session_name s, outgoing_queue s))) (\<lambda>(name, queue).
     case queue of [] \<Rightarrow> ret ()
     | front # _ \<Rightarrow> seq (PersistMessageForClient env name front)
         (seq (assign a (\<lambda>s. s\<lparr>outgoing_queue := tl (outgoing_queue s)\<rparr>)) (persist_rounds env a n)))"

definition PersistQueueToDatabase :: "env \<Rightarrow> nat \<Rightarrow> (world, unit) action" where
  "PersistQueueToDatabase env a = bind (deref a persist_callback) (\<lambda>callback.
     if \<not> callback then ret ()
     else queue_locked a (bind (deref a (\<lambda>s. length (outgoing_queue s))) (persist_rounds env a)))"

definition QUEUE_PERSIST_THRESHOLD :: nat where "QUEUE_PERSIST_THRESHOLD = 100"

definition EnqueueMessage :: "env \<Rightarrow> nat \<Rightarrow> message \<Rightarrow> (world, unit) action" where
  "EnqueueMessage env a msg = queue_locked a (
     seq (assign a (\<lambda>s. s\<lparr>outgoing_queue := outgoing_queue s @ [msg]\<rparr>))
     (bind (deref a (\<lambda>s. (length (outgoing_queue s), persist_callback s))) (\<lambda>(size, callback).
        if size > QUEUE_PERSIST_THRESHOLD \<and> callback then persist_rounds env a (size div 2)
        else ret ())))"

definition SendZmqMessage :: "nat \<Rightarrow> message \<Rightarrow> (world, unit) action" where
  "SendZmqMessage a msg = bind (deref a (\<lambda>s. (identity s, session_name s))) (\<lambda>(ident, name).
     try_catch (bind (of_sum (Serialize msg)) (\<lambda>data. SendToClient ident data (Some (a, name))))
       (\<lambda>_. MarkOffline a))"

definition SendMessage :: "env \<Rightarrow> nat \<Rightarrow> message \<Rightarrow> (world, bool) action" where
  "SendMessage env a msg = seq (UpdateLastActivity a) (bind (IsOnline a) (\<lambda>online.
     if \<not> online then seq (EnqueueMessage env a msg) (ret True)
     else seq (SendZmqMessage a msg) (ret True)))"

text \<open>The flush loop pops a message per round, so the length of the queue bounds the rounds.\<close>

fun flush_rounds :: "nat \<Rightarrow> nat \<Rightarrow> (world, unit) action" where
  "flush_rounds a 0 = ret ()"
| "flush_rounds a (Suc n) = bind (deref a (\<lambda>s. (outgoing_queue s, is_online s))) (\<lambda>(queue, online).
     case queue of [] \<Rightarrow> ret ()
     | msg # _ \<Rightarrow> if \<not> online then ret ()
         else seq (assign a (\<lambda>s. s\<lparr>outgoing_queue := tl (outgoing_queue s)\<rparr>))
           (seq (SendZmqMessage a msg) (flush_rounds a n)))"

definition FlushQueue :: "nat \<Rightarrow> (world, unit) action" where
  "FlushQueue a = queue_locked a (bind (deref a (\<lambda>s. length (outgoing_queue s))) (flush_rounds a))"

text \<open>The destructor persists the queue, and may not throw.\<close>

definition Session_destructor :: "env \<Rightarrow> nat \<Rightarrow> (world, unit) action" where
  "Session_destructor env a = seq (no_except (PersistQueueToDatabase env a))
     (update (\<lambda>w. w\<lparr>heap := (heap w)(a := None)\<rparr>))"

section \<open>Shared ownership\<close>

text \<open>A reference to a session is gone: the session dies unless the registry or a local
  \<open>shared_ptr\<close> still holds it.\<close>

definition collect :: "env \<Rightarrow> nat \<Rightarrow> (world, unit) action" where
  "collect env a = bind (ask (\<lambda>w. a \<in> snd ` set (active_clients w) \<or> a \<in> set (locals w))) (\<lambda>owned.
     if owned then ret () else Session_destructor env a)"

text \<open>A local variable holds the session while \<open>m\<close> runs, and is destroyed on return and on
  throw.\<close>

definition scoped :: "env \<Rightarrow> nat \<Rightarrow> (world, 'a) action \<Rightarrow> (world, 'a) action" where
  "scoped env a m = seq (update (\<lambda>w. w\<lparr>locals := a # locals w\<rparr>))
     (bind (try_catch (bind m (\<lambda>x. ret (Inr x))) (\<lambda>e. ret (Inl e))) (\<lambda>result.
      seq (update (\<lambda>w. w\<lparr>locals := remove1 a (locals w)\<rparr>))
        (seq (collect env a) (of_sum result))))"

definition scoped_opt :: "env \<Rightarrow> nat option \<Rightarrow> (world, 'a) action \<Rightarrow> (world, 'a) action" where
  "scoped_opt env p m = (case p of None \<Rightarrow> m | Some a \<Rightarrow> scoped env a m)"

end
