(* ===== verification/Broker_Invariant.thy ===== *)
theory Broker_Invariant
  imports Session
begin

text \<open>
  The invariant of the running broker and the rules that let every operation keep it without a
  fault. \<open>good H L A w\<close>: exactly the locks of \<open>H\<close> are held, the local \<open>shared_ptr\<close>s are \<open>L\<close>,
  the registry maps names to sessions as \<open>A\<close> says, the tables are well formed, a session is
  alive just when someone owns it, and the two maps of the router agree.
\<close>

section \<open>The invariant\<close>

datatype lock = RegistryLock | PendingLock | DbLock | QueueLock nat

definition lock_flags :: "lock set \<Rightarrow> world \<Rightarrow> bool" where
  "lock_flags H w = ((registry_mutex w \<longleftrightarrow> RegistryLock \<in> H) \<and> (pending_sends_mutex w \<longleftrightarrow> PendingLock \<in> H)
     \<and> (db_mutex w \<longleftrightarrow> DbLock \<in> H)
     \<and> (\<forall>a s. heap w a = Some s \<longrightarrow> (queue_mutex s \<longleftrightarrow> QueueLock a \<in> H)))"

definition registry_ok :: "(string \<times> nat) list \<Rightarrow> (string \<times> string) list \<Rightarrow> (nat \<Rightarrow> session option) \<Rightarrow> bool" where
  "registry_ok A I hp = (distinct (map fst A) \<and> distinct (map fst I)
     \<and> (\<forall>n m a. (n, a) \<in> set A \<and> (m, a) \<in> set A \<longrightarrow> n = m)
     \<and> (\<forall>n a. (n, a) \<in> set A \<longrightarrow> (\<exists>s. hp a = Some s \<and> session_name s = n \<and> persist_callback s))
     \<and> (\<forall>i n. (i, n) \<in> set I \<longrightarrow> (\<exists>a s. (n, a) \<in> set A \<and> hp a = Some s \<and> identity s = i)))"

lemma registry_okI:
  assumes "distinct (map fst A)" "distinct (map fst I)"
    and "\<And>n m a. (n, a) \<in> set A \<Longrightarrow> (m, a) \<in> set A \<Longrightarrow> n = m"
    and "\<And>n a. (n, a) \<in> set A \<Longrightarrow> \<exists>s. hp a = Some s \<and> session_name s = n \<and> persist_callback s"
    and "\<And>i n. (i, n) \<in> set I \<Longrightarrow> \<exists>a s. (n, a) \<in> set A \<and> hp a = Some s \<and> identity s = i"
  shows "registry_ok A I hp"
  unfolding registry_ok_def using assms by blast

lemma registry_okD:
  assumes "registry_ok A I hp"
  shows "distinct (map fst A)" "distinct (map fst I)"
    and "(n, a) \<in> set A \<Longrightarrow> (m, a) \<in> set A \<Longrightarrow> n = m"
    and "(n, a) \<in> set A \<Longrightarrow> \<exists>s. hp a = Some s \<and> session_name s = n \<and> persist_callback s"
    and "(i, n) \<in> set I \<Longrightarrow> \<exists>a s. (n, a) \<in> set A \<and> hp a = Some s \<and> identity s = i"
  using assms by (auto simp: registry_ok_def)

definition heap_ok :: "nat set \<Rightarrow> nat set \<Rightarrow> (nat \<Rightarrow> session option) \<Rightarrow> nat \<Rightarrow> bool" where
  "heap_ok registered held hp next = (dom hp = registered \<union> held \<and> (\<forall>a \<in> dom hp. a < next)
     \<and> (\<forall>a s. hp a = Some s \<and> a \<notin> registered \<longrightarrow> outgoing_queue s = []))"

definition good :: "lock set \<Rightarrow> nat list \<Rightarrow> (string \<times> nat) list \<Rightarrow> world \<Rightarrow> bool" where
  "good H L A w = (lock_flags H w \<and> db_wf w \<and> locals w = L \<and> active_clients w = A
     \<and> registry_ok A (identity_to_name w) (heap w)
     \<and> heap_ok (snd ` set A) (set L) (heap w) (next_addr w))"

abbreviation live :: "nat list \<Rightarrow> (string \<times> nat) list \<Rightarrow> nat \<Rightarrow> bool" where
  "live L A a \<equiv> a \<in> snd ` set A \<union> set L"

lemma good_frame [simp]:
  "good H L A (w\<lparr>metrics_manager := k\<rparr>) = good H L A w"
  "good H L A (w\<lparr>running := b\<rparr>) = good H L A w"
  "good H L A (w\<lparr>pending_sends := q\<rparr>) = good H L A w"
  "good H L A (w\<lparr>sending_in_progress := b\<rparr>) = good H L A w"
  "good H L A (w\<lparr>posted_sends := n\<rparr>) = good H L A w"
  "good H L A (w\<lparr>wire := fs\<rparr>) = good H L A w"
  "good H L A (w\<lparr>frames_tried := n\<rparr>) = good H L A w"
  "good H L A (w\<lparr>clock := t\<rparr>) = good H L A w"
  by (simp_all add: good_def lock_flags_def db_wf_def)

lemma good_boot: "db_wf db \<Longrightarrow> \<not> db_mutex db \<Longrightarrow> good {} [] [] (boot db)"
  by (simp add: good_def lock_flags_def registry_ok_def heap_ok_def boot_def db_wf_def)

lemma good_live:
  assumes "good H L A w" "live L A a"
  obtains s where "heap w a = Some s" "queue_mutex s \<longleftrightarrow> QueueLock a \<in> H"
    "a \<in> snd ` set A \<longrightarrow> persist_callback s"
proof -
  have "a \<in> dom (heap w)" using assms by (auto simp: good_def heap_ok_def)
  then obtain s where s: "heap w a = Some s" by blast
  have "persist_callback s" if "a \<in> snd ` set A"
    using that assms(1) s by (auto simp: good_def registry_ok_def) fastforce
  with s assms(1) show ?thesis by (intro that) (auto simp: good_def lock_flags_def)
qed

section \<open>The store under the invariant\<close>

interpretation frame: db_two_state
  "\<lambda>s t. database.more t = (database.more s :: 'z)"
  by unfold_locales (auto simp: sql_insert_message_def sql_update_delivered_def sql_update_status_def
      sql_insert_correlation_def sql_delete_correlation_def split: if_splits)

lemma world_frame:
  fixes w w' :: world
  assumes "database.more w' = database.more w"
  shows "registry_mutex w' = registry_mutex w" "pending_sends_mutex w' = pending_sends_mutex w"
    "heap w' = heap w" "locals w' = locals w" "active_clients w' = active_clients w"
    "identity_to_name w' = identity_to_name w" "next_addr w' = next_addr w"
    "pending_sends w' = pending_sends w" "metrics_manager w' = metrics_manager w"
    "running w' = running w" "wire w' = wire w" "clock w' = clock w" "posted_sends w' = posted_sends w"
  using assms by (cases w; cases w'; simp)+

lemma good_more:
  "good H L A w \<Longrightarrow> database.more w' = database.more w \<Longrightarrow> db_wf w' \<Longrightarrow> db_mutex w' = db_mutex w
    \<Longrightarrow> good H L A w'"
  using world_frame [of w' w] by (simp add: good_def lock_flags_def)

definition calm :: "('z database_scheme, 'a) action \<Rightarrow> bool" where
  "calm m = (\<forall>db. \<not> db_mutex db \<longrightarrow> no_fault (fst (m db)) \<and> \<not> db_mutex (snd (m db)))"

lemma calm_storage:
  "calm (SaveMessage env m)" "calm (MarkDelivered env i)" "calm (MarkSent env i)"
  "calm (MarkPending env i)" "calm (SaveCorrelation env i c orig)" "calm (MarkAckReceived env i s)"
  "calm (Storage_NeedsAck env i)" "calm (FindOriginalSenderByCorrelation env c)"
  "calm (FindMessageIdByCorrelation env c)" "calm (FindMessageIdByCorrelationAndDestination env c dest)"
  "calm (LoadExpiredSent env timeout)" "calm (LoadPendingMessagesOnly env name)"
  "calm (LoadPendingRepliesForSenderOnly env name)"
  by (simp_all add: calm_def SaveMessage_apply MarkDelivered_apply MarkSent_apply MarkPending_apply
      SaveCorrelation_apply reads_apply loads_apply bump_tick_def Let_def
      MarkAckReceived_def storage_defs sql_delete_correlation_def)

lemma good_calm:
  fixes m :: "(world, 'a) action"
  assumes "calm m" and frame: "always (\<lambda>s t. database.more t = database.more s) m"
    and wf: "always (\<lambda>s t. db_wf s \<longrightarrow> db_wf t) m" and H: "DbLock \<notin> H"
  shows "keeps (good H L A) m"
proof (rule tripleI)
  fix w assume g: "good H L A w"
  obtain r t where rt: "m w = (r, t)" by (cases "m w")
  have "\<not> db_mutex w" "db_wf w" using g H by (simp_all add: good_def lock_flags_def)
  moreover have "database.more t = database.more w" using alwaysD [OF frame rt] .
  moreover have "db_wf w \<longrightarrow> db_wf t" using alwaysD [OF wf rt] .
  moreover have "no_fault r \<and> \<not> db_mutex t"
    using assms(1) rt \<open>\<not> db_mutex w\<close> by (auto simp: calm_def dest!: spec [of _ w])
  ultimately have "good H L A t" "no_fault r" using good_more [OF g] by auto
  then show "case m w of (Ok a, t) \<Rightarrow> good H L A t | (Throw e, t) \<Rightarrow> good H L A t | (Fault x, t) \<Rightarrow> False"
    using rt by (cases r) simp_all
qed

lemma good_storage:
  assumes "DbLock \<notin> H"
  shows "keeps (good H L A) (SaveMessage env m)" "keeps (good H L A) (MarkDelivered env i)"
    "keeps (good H L A) (MarkSent env i)" "keeps (good H L A) (MarkPending env i)"
    "keeps (good H L A) (SaveCorrelation env i c orig)" "keeps (good H L A) (MarkAckReceived env i s)"
    "keeps (good H L A) (Storage_NeedsAck env i)"
    "keeps (good H L A) (FindOriginalSenderByCorrelation env c)"
    "keeps (good H L A) (FindMessageIdByCorrelation env c)"
    "keeps (good H L A) (FindMessageIdByCorrelationAndDestination env c dest)"
    "keeps (good H L A) (LoadExpiredSent env timeout)"
    "keeps (good H L A) (LoadPendingMessagesOnly env name)"
    "keeps (good H L A) (LoadPendingRepliesForSenderOnly env name)"
  by (rule good_calm [OF _ _ _ assms]; rule calm_storage frame.storage_R wf_kept.storage_R)+

section \<open>Heap and lock rules\<close>

lemma good_metric: "keeps (good H L A) (metric f)"
  unfolding metric_def by (rule triple_update) simp

lemma good_ask: "keeps (good H L A) (ask f)"
  by (rule triple_ask)

lemma good_deref: "live L A a \<Longrightarrow> keeps (good H L A) (deref a f)"
  by (rule tripleI) (auto simp: deref_def elim: good_live split: option.split)

definition session_kept :: "session \<Rightarrow> session \<Rightarrow> bool" where
  "session_kept s s' = (identity s' = identity s \<and> session_name s' = session_name s
     \<and> queue_mutex s' = queue_mutex s \<and> persist_callback s' = persist_callback s)"

lemma good_heap_update:
  assumes g: "good H L A w" and s: "heap w a = Some s" and k: "session_kept s s'"
    and q: "a \<notin> snd ` set A \<Longrightarrow> outgoing_queue s' = []"
  shows "good H L A (w\<lparr>heap := (heap w)(a \<mapsto> s')\<rparr>)"
proof -
  have "registry_ok A (identity_to_name w) ((heap w)(a \<mapsto> s'))"
    using g s k by (fastforce simp: good_def registry_ok_def session_kept_def)
  moreover have "dom ((heap w)(a \<mapsto> s')) = dom (heap w)" using s by auto
  ultimately show ?thesis
    using g s k q by (auto simp: good_def heap_ok_def lock_flags_def session_kept_def db_wf_def)
qed

lemma good_assign:
  assumes "live L A a" "\<And>s. session_kept s (f s)"
    and "\<And>s. a \<notin> snd ` set A \<Longrightarrow> outgoing_queue s = [] \<Longrightarrow> outgoing_queue (f s) = []"
  shows "keeps (good H L A) (assign a f)"
proof (rule tripleI)
  fix w assume g: "good H L A w"
  obtain s where s: "heap w a = Some s" using g assms(1) by (rule good_live)
  have "outgoing_queue (f s) = []" if "a \<notin> snd ` set A"
    using that g s assms(3) by (auto simp: good_def heap_ok_def)
  then show "case assign a f w of (Ok a, t) \<Rightarrow> good H L A t | (Throw e, t) \<Rightarrow> good H L A t
      | (Fault x, t) \<Rightarrow> False"
    using good_heap_update [OF g s assms(2)] s by (simp add: assign_def)
qed

lemma good_pending_locked:
  assumes "PendingLock \<notin> H" "keeps (good (insert PendingLock H) L A) m"
  shows "keeps (good H L A) (pending_locked m)"
  unfolding pending_locked_def
proof (rule triple_locked)
  show "triple (good (insert PendingLock H) L A) m
      (\<lambda>_ s. good H L A (s\<lparr>pending_sends_mutex := False\<rparr>)) (\<lambda>s. good H L A (s\<lparr>pending_sends_mutex := False\<rparr>))"
    by (rule triple_conseq [OF assms(2)])
       (use assms(1) in \<open>auto simp: good_def lock_flags_def db_wf_def\<close>)
qed (use assms(1) in \<open>auto simp: good_def lock_flags_def db_wf_def\<close>)

lemma triple_registry_locked:
  assumes "RegistryLock \<notin> H"
    and "triple (good (insert RegistryLock H) L A) m
      (\<lambda>a w. \<exists>A'. good (insert RegistryLock H) L A' w \<and> Q a A') (\<lambda>w. \<exists>A'. good (insert RegistryLock H) L A' w \<and> E A')"
  shows "triple (good H L A) (registry_locked m)
    (\<lambda>a w. \<exists>A'. good H L A' w \<and> Q a A') (\<lambda>w. \<exists>A'. good H L A' w \<and> E A')"
  unfolding registry_locked_def
proof (rule triple_locked)
  have unlock: "good H L A' (s\<lparr>registry_mutex := False\<rparr>)" if "good (insert RegistryLock H) L A' s" for A' s
    using that assms(1) by (auto simp: good_def lock_flags_def db_wf_def)
  show "triple (good (insert RegistryLock H) L A) m
      (\<lambda>a s. \<exists>A'. good H L A' (s\<lparr>registry_mutex := False\<rparr>) \<and> Q a A')
      (\<lambda>s. \<exists>A'. good H L A' (s\<lparr>registry_mutex := False\<rparr>) \<and> E A')"
    by (rule triple_conseq [OF assms(2)]) (auto dest: unlock)
qed (use assms(1) in \<open>auto simp: good_def lock_flags_def db_wf_def\<close>)

lemma good_registry_locked:
  assumes "RegistryLock \<notin> H" "triple (good (insert RegistryLock H) L A) m
    (\<lambda>a w. good (insert RegistryLock H) L A w \<and> Q a) (good (insert RegistryLock H) L A)"
  shows "triple (good H L A) (registry_locked m) (\<lambda>a w. good H L A w \<and> Q a) (good H L A)"
  by (rule triple_conseq [OF triple_registry_locked [OF assms(1),
        where Q = "\<lambda>a A'. A' = A \<and> Q a" and E = "\<lambda>A'. A' = A"]])
     (auto intro: triple_conseq [OF assms(2)])

lemma good_queue_locked:
  assumes "QueueLock a \<notin> H" "live L A a"
    and "triple (good (insert (QueueLock a) H) L A) m (\<lambda>x w. good (insert (QueueLock a) H) L A w \<and> Q x w)
      (good (insert (QueueLock a) H) L A)"
    and "\<And>x w. Q x w \<Longrightarrow> Q x (w\<lparr>heap := (heap w)(a := map_option (\<lambda>s. s\<lparr>queue_mutex := False\<rparr>) (heap w a))\<rparr>)"
  shows "triple (good H L A) (queue_locked a m) (\<lambda>x w. good H L A w \<and> Q x w) (good H L A)"
proof -
  let ?set = "\<lambda>b w. w\<lparr>heap := (heap w)(a := map_option (\<lambda>s. s\<lparr>queue_mutex := b\<rparr>) (heap w a))\<rparr>"
  have flip: "good (if b then insert (QueueLock a) H else H) L A (?set b w)"
    if g: "good (if b then H else insert (QueueLock a) H) L A w" for b w
  proof -
    obtain s where s: "heap w a = Some s" using g assms(2) by (rule good_live)
    have "registry_ok A (identity_to_name w) ((heap w)(a \<mapsto> s\<lparr>queue_mutex := b\<rparr>))"
      using g s by (fastforce simp: good_def registry_ok_def)
    moreover have "dom ((heap w)(a \<mapsto> s\<lparr>queue_mutex := b\<rparr>)) = dom (heap w)" using s by auto
    ultimately show ?thesis
      using g s assms(1) by (auto simp: good_def heap_ok_def lock_flags_def db_wf_def)
  qed
  show ?thesis
    unfolding queue_locked_def
  proof (rule triple_seq [OF good_deref [OF assms(2)]], rule triple_locked)
    show "triple (good (insert (QueueLock a) H) L A) m
        (\<lambda>x w. good H L A (?set False w) \<and> Q x (?set False w)) (\<lambda>w. good H L A (?set False w))"
      by (rule triple_conseq [OF assms(3)]) (auto intro: assms(4) flip [of False, simplified])
    fix w assume g: "good H L A w"
    obtain s where s: "heap w a = Some s" "queue_mutex s \<longleftrightarrow> QueueLock a \<in> H"
      using g assms(2) by (rule good_live)
    then show "\<not> (case heap w a of None \<Rightarrow> False | Some s \<Rightarrow> queue_mutex s)
        \<and> good (insert (QueueLock a) H) L A (?set True w)"
      using flip [of True, simplified, OF g] assms(1) by simp
  qed
qed

end
