(* ===== verification/Session_Facts.thy ===== *)
theory Session_Facts
  imports Broker_Invariant
begin

text \<open>
  What the session operations guarantee: they keep the invariant of the running broker without
  a fault, persisting empties the queue, and a session dies only when nobody owns it and its
  queue is empty.
\<close>

section \<open>The queue of a session\<close>

definition queue_of :: "nat \<Rightarrow> world \<Rightarrow> message list" where
  "queue_of a w = (case heap w a of None \<Rightarrow> [] | Some s \<Rightarrow> outgoing_queue s)"

lemma queue_of_frame:
  "database.more w' = database.more w \<Longrightarrow> queue_of a w' = queue_of a (w :: world)"
  using world_frame(3) [of w' w] by (simp add: queue_of_def)

lemma PersistMessageForClient_frame:
  "always (\<lambda>s t. database.more t = database.more s) (PersistMessageForClient env name m)"
  unfolding PersistMessageForClient_def by (intro frame.combinators frame.SaveMessage_R)

lemma good_PersistMessageForClient:
  "DbLock \<notin> H \<Longrightarrow> keeps (good H L A) (PersistMessageForClient env name m)"
  unfolding PersistMessageForClient_def
  by (intro triple_bind [OF good_storage(1)] triple_ret) simp_all

lemma good_deref_value:
  assumes "live L A a"
  shows "triple (\<lambda>w. good H L A w \<and> X w) (deref a f)
    (\<lambda>v w. good H L A w \<and> X w \<and> (\<exists>s. heap w a = Some s \<and> v = f s)) E"
  by (rule tripleI) (auto simp: deref_def elim: good_live [OF _ assms] split: option.split)

lemma good_pop:
  assumes "live L A a"
  shows "triple (\<lambda>w. good H L A w \<and> length (queue_of a w) \<le> Suc n)
    (assign a (\<lambda>s. s\<lparr>outgoing_queue := tl (outgoing_queue s)\<rparr>))
    (\<lambda>_ w. good H L A w \<and> length (queue_of a w) \<le> n) E"
proof (rule tripleI, elim conjE)
  fix w assume g: "good H L A w" and n: "length (queue_of a w) \<le> Suc n"
  obtain s where s: "heap w a = Some s" using g assms by (rule good_live)
  have "a \<notin> snd ` set A \<Longrightarrow> outgoing_queue s = []"
    using g s by (auto simp: good_def heap_ok_def)
  then show "case assign a (\<lambda>s. s\<lparr>outgoing_queue := tl (outgoing_queue s)\<rparr>) w of
      (Ok x, t) \<Rightarrow> good H L A t \<and> length (queue_of a t) \<le> n | (Throw e, t) \<Rightarrow> E t
      | (Fault x, t) \<Rightarrow> False"
    using good_heap_update [OF g s, of "s\<lparr>outgoing_queue := tl (outgoing_queue s)\<rparr>"] n s
    by (simp add: assign_def queue_of_def session_kept_def)
qed

lemma good_persist_rounds:
  assumes "live L A a" "DbLock \<notin> H"
  shows "triple (\<lambda>w. good H L A w \<and> length (queue_of a w) \<le> k) (persist_rounds env a n)
    (\<lambda>_ w. good H L A w \<and> length (queue_of a w) \<le> k - n) (good H L A)"
proof (induction n arbitrary: k)
  case (Suc n)
  let ?q = "\<lambda>w. length (queue_of a w)"
  have pop: "triple (\<lambda>w. good H L A w \<and> ?q w \<le> Suc (k - 1))
      (seq (assign a (\<lambda>s. s\<lparr>outgoing_queue := tl (outgoing_queue s)\<rparr>)) (persist_rounds env a n))
      (\<lambda>_ w. good H L A w \<and> ?q w \<le> k - 1 - n) (good H L A)"
    by (rule triple_seq [OF good_pop [OF assms(1)] Suc.IH])
  have save: "keeps (\<lambda>w. good H L A w \<and> ?q w \<le> Suc (k - 1)) (PersistMessageForClient env name m)" for name m
    by (rule triple_always [OF good_PersistMessageForClient [OF assms(2)] PersistMessageForClient_frame])
       (drule queue_of_frame [where a = a], simp)
  have "triple (\<lambda>w. good H L A w \<and> ?q w \<le> k \<and> (\<exists>s. heap w a = Some s \<and> p = (session_name s, outgoing_queue s)))
      (case p of (name, []) \<Rightarrow> ret () | (name, front # rest) \<Rightarrow> seq (PersistMessageForClient env name front)
          (seq (assign a (\<lambda>s. s\<lparr>outgoing_queue := tl (outgoing_queue s)\<rparr>)) (persist_rounds env a n)))
      (\<lambda>_ w. good H L A w \<and> ?q w \<le> k - Suc n) (good H L A)" for p
  proof (cases p)
    case p: (Pair name queue)
    show ?thesis
    proof (cases queue)
      case Nil
      show ?thesis unfolding p Nil prod.case list.case by (rule triple_ret) (auto simp: queue_of_def)
    next
      case (Cons front rest)
      have "triple (\<lambda>w. good H L A w \<and> ?q w \<le> Suc (k - 1)) (PersistMessageForClient env name front)
          (\<lambda>_ w. good H L A w \<and> ?q w \<le> Suc (k - 1)) (good H L A)"
        by (rule triple_conseq [OF save]) auto
      from triple_seq [OF this pop] show ?thesis
        unfolding p Cons prod.case list.case by (rule triple_conseq) auto
    qed
  qed
  then show ?case unfolding persist_rounds.simps
    by (rule triple_bind [OF good_deref_value [OF assms(1)]])
qed (auto intro: triple_ret)

lemma queue_of_flag [simp]:
  "queue_of b (w\<lparr>heap := (heap w)(a := map_option (\<lambda>s. s\<lparr>queue_mutex := f\<rparr>) (heap w a))\<rparr>) = queue_of b w"
  by (simp add: queue_of_def split: option.split)

lemma good_unowned_queue: "good H L A w \<Longrightarrow> a \<notin> snd ` set A \<Longrightarrow> queue_of a w = []"
  by (auto simp: good_def heap_ok_def queue_of_def split: option.split)

text \<open>After a persist that does not throw the queue is empty.\<close>

lemma good_PersistQueueToDatabase:
  assumes "live L A a" "DbLock \<notin> H" "QueueLock a \<notin> H"
  shows "triple (good H L A) (PersistQueueToDatabase env a)
    (\<lambda>_ w. good H L A w \<and> queue_of a w = []) (good H L A)"
  unfolding PersistQueueToDatabase_def
proof (rule triple_bind)
  show "triple (good H L A) (deref a persist_callback)
      (\<lambda>callback w. good H L A w \<and> (\<not> callback \<longrightarrow> queue_of a w = [])) (good H L A)"
  proof (rule tripleI)
    fix w assume g: "good H L A w"
    obtain s where "heap w a = Some s" "queue_mutex s \<longleftrightarrow> QueueLock a \<in> H"
      "a \<in> snd ` set A \<longrightarrow> persist_callback s"
      using g assms(1) by (rule good_live)
    then show "case deref a persist_callback w of
        (Ok callback, t) \<Rightarrow> good H L A t \<and> (\<not> callback \<longrightarrow> queue_of a t = [])
        | (Throw e, t) \<Rightarrow> good H L A t | (Fault x, t) \<Rightarrow> False"
      using g good_unowned_queue [OF g, of a] by (auto simp: deref_def)
  qed
  fix callback
  have rounds: "triple (good (insert (QueueLock a) H) L A)
      (bind (deref a (\<lambda>s. length (outgoing_queue s))) (persist_rounds env a))
      (\<lambda>_ w. good (insert (QueueLock a) H) L A w \<and> queue_of a w = []) (good (insert (QueueLock a) H) L A)"
  proof (rule triple_bind)
    show "triple (good (insert (QueueLock a) H) L A) (deref a (\<lambda>s. length (outgoing_queue s)))
        (\<lambda>n w. good (insert (QueueLock a) H) L A w \<and> length (queue_of a w) \<le> n)
        (good (insert (QueueLock a) H) L A)"
      by (rule triple_conseq [OF good_deref_value [OF assms(1), where X = "\<lambda>_. True"]])
         (auto simp: queue_of_def)
    show "triple (\<lambda>w. good (insert (QueueLock a) H) L A w \<and> length (queue_of a w) \<le> n)
        (persist_rounds env a n) (\<lambda>_ w. good (insert (QueueLock a) H) L A w \<and> queue_of a w = [])
        (good (insert (QueueLock a) H) L A)" for n
      by (rule triple_conseq [OF good_persist_rounds [OF assms(1), where k = n and n = n]])
         (use assms(2) in auto)
  qed
  show "triple (\<lambda>w. good H L A w \<and> (\<not> callback \<longrightarrow> queue_of a w = []))
      (if \<not> callback then ret () else queue_locked a (bind (deref a (\<lambda>s. length (outgoing_queue s)))
         (persist_rounds env a)))
      (\<lambda>_ w. good H L A w \<and> queue_of a w = []) (good H L A)"
    by (rule triple_if, rule triple_ret, simp,
        rule triple_pre [OF good_queue_locked [OF assms(3,1) rounds]]) simp_all
qed

section \<open>Sending\<close>

lemma good_SendToClient: "PendingLock \<notin> H \<Longrightarrow> keeps (good H L A) (SendToClient ident data callback)"
  unfolding SendToClient_def ScheduleSendProcessing_def
  by (intro keeps_seq good_pending_locked triple_update) simp_all

lemma good_setters:
  assumes "live L A a"
  shows "keeps (good H L A) (MarkOffline a)" "keeps (good H L A) (MarkOnline a)"
    "keeps (good H L A) (IsOnline a)" "keeps (good H L A) (UpdateLastReceive a)"
    "keeps (good H L A) (UpdateLastActivity a)" "keeps (good H L A) (IsExpired a timeout)"
proof -
  show "keeps (good H L A) (MarkOffline a)" "keeps (good H L A) (MarkOnline a)"
    unfolding MarkOffline_def MarkOnline_def
    by (rule good_assign [OF assms]; simp add: session_kept_def)+
  show online: "keeps (good H L A) (IsOnline a)"
    unfolding IsOnline_def by (rule good_deref [OF assms])
  show "keeps (good H L A) (UpdateLastReceive a)" unfolding UpdateLastReceive_def
    by (rule keeps_at_state [where f = "\<lambda>c. assign a (\<lambda>s. s\<lparr>last_receive := c\<rparr>)"])
       (rule good_assign [OF assms]; simp add: session_kept_def)
  show "keeps (good H L A) (UpdateLastActivity a)" unfolding UpdateLastActivity_def
    by (rule keeps_at_state [where f = "\<lambda>c. assign a (\<lambda>s. s\<lparr>last_activity := c\<rparr>)"])
       (rule good_assign [OF assms]; simp add: session_kept_def)
  have "keeps (good H L A) (\<lambda>w. deref a (\<lambda>s. whole_seconds (clock w - last_receive s) > timeout) w)"
    by (rule keeps_at_state [where f = "\<lambda>c. deref a (\<lambda>s. whole_seconds (c - last_receive s) > timeout)"])
       (rule good_deref [OF assms])
  then show "keeps (good H L A) (IsExpired a timeout)" unfolding IsExpired_def
    by (intro keeps_bind keeps_if keeps_ret online)
qed

lemma good_SendZmqMessage:
  assumes "live L A a" "PendingLock \<notin> H"
  shows "keeps (good H L A) (SendZmqMessage a m)"
proof -
  have "keeps (good H L A) (try_catch (bind (of_sum (Serialize m)) (\<lambda>data.
      SendToClient ident data (Some (a, name)))) (\<lambda>_. MarkOffline a))" for ident name
    by (intro keeps_intros good_SendToClient good_setters assms)
  then show ?thesis unfolding SendZmqMessage_def
    by (intro keeps_bind good_deref assms) (simp split: prod.split)
qed

lemma good_EnqueueMessage:
  assumes "a \<in> snd ` set A" "DbLock \<notin> H" "QueueLock a \<notin> H"
  shows "keeps (good H L A) (EnqueueMessage env a m)"
proof -
  have live: "live L A a" for L using assms(1) by simp
  have rounds: "keeps (good H' L A) (persist_rounds env a n)" if "DbLock \<notin> H'" for H' n
  proof (rule tripleI)
    fix w assume "good H' L A w"
    then have "good H' L A w \<and> length (queue_of a w) \<le> length (queue_of a w)" by simp
    with good_persist_rounds [OF live that, of L _ env n]
    show "case persist_rounds env a n w of (Ok x, t) \<Rightarrow> good H' L A t | (Throw e, t) \<Rightarrow> good H' L A t
        | (Fault x, t) \<Rightarrow> False"
      by (rule tripleE) simp_all
  qed
  let ?H = "insert (QueueLock a) H"
  have body: "keeps (good ?H L A) (seq (assign a (\<lambda>s. s\<lparr>outgoing_queue := outgoing_queue s @ [m]\<rparr>))
      (bind (deref a (\<lambda>s. (length (outgoing_queue s), persist_callback s))) (\<lambda>(size, callback).
        if size > QUEUE_PERSIST_THRESHOLD \<and> callback then persist_rounds env a (size div 2)
        else ret ())))"
    by (intro keeps_seq keeps_bind good_assign good_deref live)
       (use assms in \<open>auto simp: session_kept_def intro!: rounds keeps_ret split: prod.split\<close>)
  show ?thesis unfolding EnqueueMessage_def
    by (rule triple_conseq [OF good_queue_locked [OF assms(3) live, where Q = "\<lambda>_ _. True"]])
       (use body in simp_all)
qed

lemma good_SendMessage:
  assumes "a \<in> snd ` set A" "DbLock \<notin> H" "QueueLock a \<notin> H" "PendingLock \<notin> H"
  shows "keeps (good H L A) (SendMessage env a m)"
  unfolding SendMessage_def using assms
  by (intro keeps_intros good_setters good_EnqueueMessage good_SendZmqMessage) simp_all

lemma good_flush_rounds:
  assumes "live L A a" "PendingLock \<notin> H"
  shows "keeps (good H L A) (flush_rounds a n)"
proof (induction n)
  case (Suc n)
  have "keeps (good H L A) (case p of (queue, online) \<Rightarrow> (case queue of [] \<Rightarrow> ret ()
     | msg # _ \<Rightarrow> if \<not> online then ret ()
         else seq (assign a (\<lambda>s. s\<lparr>outgoing_queue := tl (outgoing_queue s)\<rparr>))
           (seq (SendZmqMessage a msg) (flush_rounds a n))))" for p :: "message list \<times> bool"
  proof (cases p)
    case p: (Pair queue online)
    show ?thesis
    proof (cases queue)
      case (Cons m rest)
      show ?thesis unfolding p Cons prod.case list.case
        by (intro keeps_intros good_assign good_SendZmqMessage assms Suc.IH)
           (simp_all add: session_kept_def)
    next
      case Nil
      show ?thesis unfolding p Nil prod.case list.case by (rule keeps_ret)
    qed
  qed
  then show ?case unfolding flush_rounds.simps
    by (rule keeps_bind [OF good_deref [OF assms(1)]])
qed (simp only: flush_rounds.simps keeps_ret)

lemma good_queue_keeps:
  assumes "QueueLock a \<notin> H" "live L A a" "keeps (good (insert (QueueLock a) H) L A) m"
  shows "keeps (good H L A) (queue_locked a m)"
  by (rule triple_conseq [OF good_queue_locked [OF assms(1,2), where Q = "\<lambda>_ _. True"]])
     (use assms(3) in simp_all)

lemma good_FlushQueue:
  assumes "live L A a" "PendingLock \<notin> H" "QueueLock a \<notin> H"
  shows "keeps (good H L A) (FlushQueue a)"
  unfolding FlushQueue_def
  by (intro good_queue_keeps keeps_bind good_deref good_flush_rounds assms) (use assms(2) in simp)

lemma good_GetQueueSize:
  "live L A a \<Longrightarrow> QueueLock a \<notin> H \<Longrightarrow> keeps (good H L A) (GetQueueSize a)"
  unfolding GetQueueSize_def by (intro good_queue_keeps good_deref)

lemma good_persist:
  assumes "live L A a" "DbLock \<notin> H" "QueueLock a \<notin> H"
  shows "keeps (good H L A) (PersistQueueToDatabase env a)"
  by (rule triple_conseq [OF good_PersistQueueToDatabase [OF assms]]) simp_all

section \<open>Ownership\<close>

text \<open>Persisting an empty queue changes nothing.\<close>

lemma PersistQueueToDatabase_empty:
  assumes "heap w a = Some s" "outgoing_queue s = []" "\<not> queue_mutex s"
  shows "PersistQueueToDatabase env a w = (Ok (), w)"
proof -
  have "s\<lparr>queue_mutex := False\<rparr> = s" using assms(3) by simp
  then have "w\<lparr>heap := (heap w)(a \<mapsto> s\<lparr>queue_mutex := False\<rparr>)\<rparr> = w"
    using assms(1) by (simp add: map_upd_triv)
  with assms show ?thesis
    by (simp add: PersistQueueToDatabase_def queue_locked_def deref_def bind_def seq_def locked_def)
qed

text \<open>\<open>good\<close> but for the session \<open>a\<close>, which is alive although nobody may own it any more.\<close>

definition leaving :: "lock set \<Rightarrow> nat list \<Rightarrow> (string \<times> nat) list \<Rightarrow> nat \<Rightarrow> world \<Rightarrow> bool" where
  "leaving H L A a w = (good H (a # L) A (w\<lparr>locals := a # L\<rparr>) \<and> locals w = L)"

lemma registry_ok_other:
  assumes "registry_ok A I hp" "a \<notin> snd ` set A"
  shows "registry_ok A I (hp(a := x))"
proof -
  have "(n, b) \<in> set A \<Longrightarrow> b \<noteq> a" for n b using assms(2) by force
  then show ?thesis
    by (intro registry_okI registry_okD(1,2,3) [OF assms(1)])
       (use registry_okD(4,5) [OF assms(1)] in \<open>fastforce+\<close>)
qed

text \<open>The state but for the sessions and who holds them.\<close>

definition core :: "world \<Rightarrow> world" where
  "core w = w\<lparr>heap := (\<lambda>_. None), locals := []\<rparr>"

lemma core_sel [simp]:
  "identity_to_name (core w) = identity_to_name w" "active_clients (core w) = active_clients w"
  "messages (core w) = messages w" "correlations (core w) = correlations w"
  "pending_sends (core w) = pending_sends w" "wire (core w) = wire w"
  "metrics_manager (core w) = metrics_manager w" "core (w\<lparr>locals := L\<rparr>) = core w"
  by (simp_all add: core_def)

lemma collect_leaving:
  assumes w: "leaving H L A a w" and H: "QueueLock a \<notin> H"
  shows "\<exists>w'. collect env a w = (Ok (), w') \<and> good H L A w' \<and> core w' = core w"
proof -
  have g: "good H (a # L) A (w\<lparr>locals := a # L\<rparr>)" and L: "locals w = L"
    using w by (simp_all add: leaving_def)
  show ?thesis
  proof (cases "a \<in> snd ` set A \<or> a \<in> set L")
    case True
    then have "good H L A w"
      using g L by (auto simp: good_def heap_ok_def lock_flags_def db_wf_def insert_absorb)
    moreover have "active_clients w = A" using g by (simp add: good_def)
    moreover from this True L have "collect env a w = (Ok (), w)"
      by (simp add: collect_def bind_def)
    ultimately show ?thesis by auto
  next
    case False
    have "live (a # L) A a" by simp
    obtain s where s: "heap w a = Some s" "\<not> queue_mutex s"
    proof (rule good_live [OF g \<open>live (a # L) A a\<close>])
      fix s assume "heap (w\<lparr>locals := a # L\<rparr>) a = Some s" "queue_mutex s \<longleftrightarrow> QueueLock a \<in> H"
      with H show thesis by (intro that) simp_all
    qed
    have q: "outgoing_queue s = []" using g s False by (auto simp: good_def heap_ok_def)
    have A: "active_clients w = A" using g by (simp add: good_def)
    let ?w = "w\<lparr>heap := (heap w)(a := None)\<rparr>"
    have "collect env a w = (Ok (), ?w)"
      using False L A PersistQueueToDatabase_empty [OF s(1) q s(2)]
      by (simp add: collect_def Session_destructor_def no_except_def try_catch_def seq_def bind_def)
    moreover have "registry_ok A (identity_to_name w) ((heap w)(a := None))"
      using g False by (intro registry_ok_other) (auto simp: good_def)
    then have "good H L A ?w"
      using g False L s by (auto simp: good_def heap_ok_def lock_flags_def db_wf_def)
    moreover have "core ?w = core w" by (simp add: core_def)
    ultimately show ?thesis by blast
  qed
qed

text \<open>The contract of a function body under a local \<open>shared_ptr\<close>: \<open>Q\<close> and \<open>E\<close> may speak of the
  registry and of the \<open>core\<close> of the state after it.\<close>

lemma good_scoped:
  assumes H: "QueueLock a \<notin> H"
    and pre: "\<And>w. P w \<Longrightarrow> P' (w\<lparr>locals := a # locals w\<rparr>)"
    and m: "triple P' m (\<lambda>x w. \<exists>A'. good H (a # L) A' w \<and> Q x A' (core w))
      (\<lambda>w. \<exists>A'. good H (a # L) A' w \<and> E A' (core w))"
  shows "triple P (scoped env a m) (\<lambda>x w. \<exists>A'. good H L A' w \<and> Q x A' (core w))
    (\<lambda>w. \<exists>A'. good H L A' w \<and> E A' (core w))"
proof (rule tripleI)
  fix w assume "P w"
  let ?w = "w\<lparr>locals := a # locals w\<rparr>"
  have out: "\<exists>u. collect env a (t\<lparr>locals := remove1 a (locals t)\<rparr>) = (Ok (), u) \<and> good H L A' u
      \<and> core u = core t"
    if "good H (a # L) A' t" for A' t
  proof -
    have "locals t = a # L" using that by (simp add: good_def)
    moreover have "good H (a # L) A' (t\<lparr>locals := a # L\<rparr>)"
      using that by (simp add: good_def lock_flags_def db_wf_def)
    ultimately have "leaving H L A' a (t\<lparr>locals := remove1 a (locals t)\<rparr>)"
      by (simp add: leaving_def)
    from collect_leaving [OF this H] show ?thesis by (simp add: core_def)
  qed
  from m pre [OF \<open>P w\<close>] show "case scoped env a m w of (Ok x, t) \<Rightarrow> \<exists>A'. good H L A' t \<and> Q x A' (core t)
      | (Throw e, t) \<Rightarrow> \<exists>A'. good H L A' t \<and> E A' (core t) | (Fault x, t) \<Rightarrow> False"
  proof (rule tripleE)
    fix x t assume mt: "m ?w = (Ok x, t)" and "\<exists>A'. good H (a # L) A' t \<and> Q x A' (core t)"
    then obtain A' u where "collect env a (t\<lparr>locals := remove1 a (locals t)\<rparr>) = (Ok (), u)"
      "good H L A' u" "Q x A' (core u)" using out by metis
    then show ?thesis using mt by (auto simp: scoped_def bind_def seq_def try_catch_def)
  next
    fix e t assume mt: "m ?w = (Throw e, t)" and "\<exists>A'. good H (a # L) A' t \<and> E A' (core t)"
    then obtain A' u where "collect env a (t\<lparr>locals := remove1 a (locals t)\<rparr>) = (Ok (), u)"
      "good H L A' u" "E A' (core u)" using out by metis
    then show ?thesis using mt by (auto simp: scoped_def bind_def seq_def try_catch_def)
  qed
qed

lemma good_scope_enter:
  "good H L A w \<Longrightarrow> live L A a \<Longrightarrow> good H (a # L) A (w\<lparr>locals := a # locals w\<rparr>)"
  by (auto simp: good_def heap_ok_def lock_flags_def db_wf_def insert_absorb)

lemma keeps_scoped:
  assumes "QueueLock a \<notin> H" "live L A a" "keeps (good H (a # L) A) m"
  shows "keeps (good H L A) (scoped env a m)"
proof -
  have "triple (good H L A) (scoped env a m) (\<lambda>x w. \<exists>A'. good H L A' w \<and> A' = A)
      (\<lambda>w. \<exists>A'. good H L A' w \<and> A' = A)"
    by (rule good_scoped [OF assms(1)], erule good_scope_enter [OF _ assms(2)],
        rule triple_conseq [OF assms(3)]) simp_all
  then show ?thesis by simp
qed

end
