(* ===== verification/Router.thy ===== *)
theory Router
  imports Session_Facts
begin

text \<open>
  The router: include/router.hpp and src/router.cpp, all operations but \<open>RouteMessage\<close>, which
  calls the message handlers and is modelled after them. \<open>active_clients_\<close> and
  \<open>identity_to_name_\<close> are association lists without duplicate keys; the order in which a loop
  visits the hash map is the environment's.
\<close>

section \<open>Looking clients up and registering them\<close>

definition lookup_client :: "string \<Rightarrow> (world, nat option) action" where
  "lookup_client name = registry_locked (ask (\<lambda>w. map_of (active_clients w) name))"

definition FindSession :: "string \<Rightarrow> (world, nat option) action" where
  "FindSession name = lookup_client name"

text \<open>The three parts of \<open>UpsertClient\<close> under the lock: what it does to the session it replaces,
  the two map assignments, and the metrics.\<close>

definition retire_session :: "env \<Rightarrow> nat \<Rightarrow> (world, unit) action" where
  "retire_session env old_session =
     seq (PersistQueueToDatabase env old_session)
    (seq (MarkOffline old_session)
    (bind (deref old_session identity) (\<lambda>old_identity.
       update (\<lambda>w. w\<lparr>identity_to_name := AList.delete old_identity (identity_to_name w)\<rparr>))))"

definition install_session :: "string \<Rightarrow> nat \<Rightarrow> (world, unit) action" where
  "install_session name a =
     seq (update (\<lambda>w. w\<lparr>active_clients := AList.update name a (active_clients w)\<rparr>))
    (bind (deref a identity) (\<lambda>new_identity.
       update (\<lambda>w. w\<lparr>identity_to_name := AList.update new_identity name (identity_to_name w)\<rparr>)))"

definition registration_metrics :: "bool \<Rightarrow> (world, unit) action" where
  "registration_metrics replaced =
     seq (bind (ask (\<lambda>w. length (active_clients w))) (\<lambda>size. metric (SetActiveSessions size)))
    (seq (if replaced then metric IncrementClientsUnregistered else ret ())
         (metric IncrementClientsRegistered))"

definition UpsertClient :: "env \<Rightarrow> string \<Rightarrow> nat option \<Rightarrow> (world, nat option) action" where
  "UpsertClient env name session = (case session of None \<Rightarrow> ret None | Some a \<Rightarrow>
     registry_locked (
       bind (ask (\<lambda>w. map_of (active_clients w) name)) (\<lambda>old_session.
       seq (case old_session of None \<Rightarrow> ret () | Some old \<Rightarrow> retire_session env old)
      (seq (install_session name a)
      (seq (registration_metrics (old_session \<noteq> None))
           (ret old_session))))))"

definition UnregisterClient :: "env \<Rightarrow> string \<Rightarrow> (world, unit) action" where
  "UnregisterClient env name = registry_locked (
     bind (ask (\<lambda>w. map_of (active_clients w) name)) (\<lambda>it. case it of None \<Rightarrow> ret ()
       | Some a \<Rightarrow> bind (deref a identity) (\<lambda>ident.
           seq (update (\<lambda>w. w\<lparr>identity_to_name := AList.delete ident (identity_to_name w)\<rparr>))
          (seq (update (\<lambda>w. w\<lparr>active_clients := AList.delete name (active_clients w)\<rparr>))
          (seq (collect env a)
          (seq (metric IncrementClientsUnregistered)
          (bind (ask (\<lambda>w. length (active_clients w))) (\<lambda>size. metric (SetActiveSessions size)))))))))"

definition PrintActiveClients :: "env \<Rightarrow> (world, unit) action" where
  "PrintActiveClients env = registry_locked (bind (ask (\<lambda>w. map_order env (active_clients w)))
     (for_each (\<lambda>(name, a). bind (deref a identity) (\<lambda>ident. bind (GetQueueSize a) (\<lambda>size. ret True)))))"

section \<open>Delivering what the store holds\<close>

text \<open>What \<open>DeliverOfflineMessages\<close> does once it has found the session \<open>a\<close> of the client; the
  loop stops when the session goes offline.\<close>

definition deliver_one :: "env \<Rightarrow> nat \<Rightarrow> PendingMessage \<Rightarrow> (world, bool) action" where
  "deliver_one env a pending = bind (IsOnline a) (\<lambda>online.
     if \<not> online then ret False
     else seq (if NeedsAck (pm_msg pending) then MarkSent env (pm_id pending) else ret ())
       (bind (SendMessage env a (pm_msg pending)) (\<lambda>sent.
          if sent
          then seq (if \<not> NeedsAck (pm_msg pending) then MarkDelivered env (pm_id pending) else ret ())
                 (ret True)
          else ret False)))"

definition deliver_pending :: "env \<Rightarrow> nat \<Rightarrow> string \<Rightarrow> (world, unit) action" where
  "deliver_pending env a name =
     bind (LoadPendingMessagesOnly env name) (\<lambda>pending_messages.
     seq (if pending_messages \<noteq> [] then metric IncrementOfflineDelivered else ret ())
    (if pending_messages = [] then ret ()
     else seq (UpdateLastActivity a)
         (seq (UpdateLastReceive a)
         (seq (for_each (deliver_one env a) pending_messages)
              (FlushQueue a)))))"

definition DeliverOfflineMessages :: "env \<Rightarrow> string \<Rightarrow> (world, unit) action" where
  "DeliverOfflineMessages env name = bind (lookup_client name) (\<lambda>session. case session of None \<Rightarrow> ret ()
     | Some a \<Rightarrow> scoped env a (deliver_pending env a name))"

definition deliver_one_reply :: "env \<Rightarrow> nat \<Rightarrow> PendingMessage \<Rightarrow> (world, bool) action" where
  "deliver_one_reply env a reply = bind (IsOnline a) (\<lambda>online.
     if \<not> online then ret False
     else seq (if NeedsAck (pm_msg reply) then MarkSent env (pm_id reply) else ret ())
       (bind (SendMessage env a (pm_msg reply)) (\<lambda>sent.
          seq (if sent then MarkDelivered env (pm_id reply) else ret ()) (ret True))))"

definition deliver_replies :: "env \<Rightarrow> nat \<Rightarrow> string \<Rightarrow> (world, unit) action" where
  "deliver_replies env a name =
     bind (LoadPendingRepliesForSenderOnly env name) (\<lambda>pending_replies.
     if pending_replies = [] then ret ()
     else seq (UpdateLastActivity a)
         (seq (UpdateLastReceive a)
              (for_each (deliver_one_reply env a) pending_replies)))"

definition DeliverPendingReplies :: "env \<Rightarrow> string \<Rightarrow> (world, unit) action" where
  "DeliverPendingReplies env name = bind (lookup_client name) (\<lambda>session. case session of None \<Rightarrow> ret ()
     | Some a \<Rightarrow> scoped env a (deliver_replies env a name))"

section \<open>Timers\<close>

definition UpdateSessionMetrics :: "(world, unit) action" where
  "UpdateSessionMetrics = bind (ask metrics_manager) (\<lambda>m. if m = None then ret ()
     else registry_locked (bind (ask (\<lambda>w. length (active_clients w)))
       (\<lambda>size. metric (SetActiveSessions size))))"

text \<open>The first loop of \<open>CleanupInactiveSessions\<close>: \<open>to_remove\<close>.\<close>

fun inactive_names :: "env \<Rightarrow> (string \<times> nat) list \<Rightarrow> (world, string list) action" where
  "inactive_names env [] = ret []"
| "inactive_names env ((name, a) # clients) =
     bind (IsOnline a) (\<lambda>online.
     bind (if \<not> online then ret True
           else bind (if SessionTimeout (config env) > 0 then IsExpired a (SessionTimeout (config env))
                      else ret False) (\<lambda>expired.
             if expired then seq (MarkOffline a) (seq (PersistQueueToDatabase env a) (ret True))
             else ret False)) (\<lambda>should_remove.
     bind (inactive_names env clients) (\<lambda>names.
     ret (if should_remove then name # names else names))))"

definition remove_inactive :: "env \<Rightarrow> string \<Rightarrow> (world, unit) action" where
  "remove_inactive env name =
     bind (ask (\<lambda>w. map_of (active_clients w) name)) (\<lambda>it. case it of None \<Rightarrow> ret ()
       | Some a \<Rightarrow> bind (deref a identity) (\<lambda>ident.
           seq (update (\<lambda>w. w\<lparr>identity_to_name := AList.delete ident (identity_to_name w)\<rparr>))
          (seq (update (\<lambda>w. w\<lparr>active_clients := AList.delete name (active_clients w)\<rparr>))
          (seq (collect env a)
               (metric IncrementClientsTimeout)))))"

definition CleanupInactiveSessions :: "env \<Rightarrow> (world, unit) action" where
  "CleanupInactiveSessions env = registry_locked (
     bind (ask (\<lambda>w. map_order env (active_clients w))) (\<lambda>clients.
     bind (inactive_names env clients) (\<lambda>to_remove.
     seq (for_each (\<lambda>name. seq (remove_inactive env name) (ret True)) to_remove)
         (if to_remove \<noteq> [] then UpdateSessionMetrics else ret ()))))"

definition find_online :: "string \<Rightarrow> (world, nat option) action" where
  "find_online name = registry_locked (bind (ask (\<lambda>w. map_of (active_clients w) name))
     (\<lambda>it. case it of None \<Rightarrow> ret None
        | Some a \<Rightarrow> bind (IsOnline a) (\<lambda>online. ret (if online then Some a else None))))"

definition retry_send :: "env \<Rightarrow> PendingMessage \<Rightarrow> nat \<Rightarrow> (world, unit) action" where
  "retry_send env pending a = seq (MarkSent env (pm_id pending))
     (bind (SendMessage env a (pm_msg pending)) (\<lambda>sent.
        if sent then ret () else MarkPending env (pm_id pending)))"

definition retry_expired :: "env \<Rightarrow> PendingMessage \<Rightarrow> (world, bool) action" where
  "retry_expired env pending = seq (MarkPending env (pm_id pending))
     (bind (find_online (destination (pm_msg pending))) (\<lambda>session.
        seq (case session of None \<Rightarrow> ret () | Some a \<Rightarrow> scoped env a (retry_send env pending a))
            (ret True)))"

definition CheckExpiredAcks :: "env \<Rightarrow> (world, unit) action" where
  "CheckExpiredAcks env = (let ack_timeout_seconds = AckTimeout (config env) in
     if ack_timeout_seconds \<le> 0 then ret ()
     else bind (LoadExpiredSent env ack_timeout_seconds) (\<lambda>expired_messages.
       seq (if expired_messages \<noteq> [] then metric IncrementMessagesExpired else ret ())
           (for_each (retry_expired env) expired_messages)))"

end
