(* ===== verification/Handlers.thy ===== *)
theory Handlers
  imports Router
begin

text \<open>
  The message handlers (include/message_handler.hpp, src/message_handler.cpp) and
  \<open>Router::RouteMessage\<close> (src/router.cpp), which picks one by the type of the message. Each
  handler is the whole function: every call in the order of the code, every early return, and
  the \<open>try\<close> blocks with what their handlers do.
\<close>

section \<open>Registration\<close>

definition RegisterHandler :: "env \<Rightarrow> message \<Rightarrow> string \<Rightarrow> (world, unit) action" where
  "RegisterHandler env msg ident = (let client_name = sender msg in
     if client_name = [] then ret ()
     else bind (make_session ident) (\<lambda>session. scoped env session (
       seq (SetName session client_name)
      (seq (UpdateLastActivity session)
      (seq (UpdateLastReceive session)
      (seq (SetPersistCallback session)
      (bind (UpsertClient env client_name (Some session)) (\<lambda>old_session. scoped_opt env old_session (
         seq (DeliverOfflineMessages env client_name)
        (seq (DeliverPendingReplies env client_name)
             (PrintActiveClients env)))))))))))"

definition UnregisterHandler :: "env \<Rightarrow> message \<Rightarrow> (world, unit) action" where
  "UnregisterHandler env msg = bind (FindSession (sender msg)) (\<lambda>session. case session of None \<Rightarrow> ret ()
     | Some a \<Rightarrow> scoped env a (
         seq (PersistQueueToDatabase env a)
        (seq (MarkOffline a)
             (UnregisterClient env (sender msg)))))"

section \<open>Messages\<close>

text \<open>The \<open>catch\<close> of a failed send: \<open>MarkPending\<close> in a \<open>try\<close> of its own, then the session is
  marked offline and the failure counted.\<close>

definition roll_back :: "env \<Rightarrow> nat \<Rightarrow> u64 \<Rightarrow> (world, unit) action" where
  "roll_back env a message_id =
     seq (try_catch (MarkPending env message_id) (\<lambda>_. ret ()))
    (seq (MarkOffline a)
         (metric IncrementMessagesFailed))"

text \<open>The first \<open>try\<close> of \<open>MessageHandler::Handle\<close>: \<open>None\<close> for its two early returns.\<close>

definition save_first :: "env \<Rightarrow> message \<Rightarrow> bool \<Rightarrow> (world, u64 option) action" where
  "save_first env msg can_deliver_immediately = try_catch
     (bind (SaveMessage env msg) (\<lambda>message_id.
      seq (if NeedsReply msg \<or> NeedsAck msg
           then SaveCorrelation env message_id (correlation_id msg) (sender msg) else ret ())
          (ret (if can_deliver_immediately then Some message_id else None))))
     (\<lambda>_. seq (metric IncrementMessagesFailed) (ret None))"

text \<open>Its second \<open>try\<close>.\<close>

definition send_saved :: "env \<Rightarrow> message \<Rightarrow> nat \<Rightarrow> u64 \<Rightarrow> (world, unit) action" where
  "send_saved env msg a message_id = try_catch
     (seq (UpdateLastReceive a) (bind (SendMessage env a msg) (\<lambda>sent.
        if sent
        then try_catch (if NeedsAck msg then MarkSent env message_id else MarkDelivered env message_id)
               (\<lambda>_. metric IncrementMessagesFailed)
        else roll_back env a message_id)))
     (\<lambda>_. roll_back env a message_id)"

definition MessageHandler :: "env \<Rightarrow> message \<Rightarrow> (world, unit) action" where
  "MessageHandler env msg = bind (FindSession (destination msg)) (\<lambda>session. scoped_opt env session (
     bind (case session of None \<Rightarrow> ret False | Some a \<Rightarrow> IsOnline a) (\<lambda>can_deliver_immediately.
     bind (save_first env msg can_deliver_immediately) (\<lambda>saved.
       case saved of None \<Rightarrow> ret ()
       | Some message_id \<Rightarrow> (case session of None \<Rightarrow> ret ()
           | Some a \<Rightarrow> send_saved env msg a message_id)))))"

section \<open>Replies\<close>

text \<open>The first \<open>try\<close> of \<open>ReplyHandler::Handle\<close>: the reply as saved, and its id.\<close>

definition save_reply :: "env \<Rightarrow> message \<Rightarrow> (world, (message \<times> u64) option) action" where
  "save_reply env msg = try_catch
     (bind (FindOriginalSenderByCorrelation env (correlation_id msg)) (\<lambda>original_sender.
      let reply_msg = (if original_sender \<noteq> [] then msg\<lparr>destination := original_sender\<rparr> else msg) in
      bind (SaveMessage env reply_msg) (\<lambda>message_id.
      seq (SaveCorrelation env message_id (correlation_id msg)
             (if original_sender \<noteq> [] then original_sender else destination reply_msg))
          (ret (Some (reply_msg, message_id))))))
     (\<lambda>_. seq (metric IncrementMessagesFailed) (ret None))"

definition send_reply :: "env \<Rightarrow> message \<Rightarrow> nat \<Rightarrow> u64 \<Rightarrow> (world, unit) action" where
  "send_reply env reply_msg a message_id = try_catch
     (seq (if NeedsAck reply_msg then MarkSent env message_id else ret ())
     (bind (SendMessage env a reply_msg) (\<lambda>sent.
        if sent
        then (if \<not> NeedsAck reply_msg then MarkDelivered env message_id else ret ())
        else seq (if NeedsAck reply_msg then try_catch (MarkPending env message_id) (\<lambda>_. ret ()) else ret ())
            (seq (MarkOffline a) (metric IncrementMessagesFailed)))))
     (\<lambda>_. roll_back env a message_id)"

definition ReplyHandler :: "env \<Rightarrow> message \<Rightarrow> (world, unit) action" where
  "ReplyHandler env msg = bind (save_reply env msg) (\<lambda>saved. case saved of None \<Rightarrow> ret ()
     | Some (reply_msg, message_id) \<Rightarrow>
         bind (FindSession (destination reply_msg)) (\<lambda>session. case session of None \<Rightarrow> ret ()
           | Some a \<Rightarrow> scoped env a (bind (IsOnline a) (\<lambda>online.
               if online then send_reply env reply_msg a message_id else ret ()))))"

section \<open>Acknowledgements\<close>

definition ack_notification :: "message \<Rightarrow> string \<Rightarrow> message" where
  "ack_notification msg original_sender = default_message\<lparr>msg_type := Ack, sender := sender msg,
     destination := original_sender, correlation_id := correlation_id msg\<rparr>"

definition notify_original_sender :: "env \<Rightarrow> message \<Rightarrow> string \<Rightarrow> (world, unit) action" where
  "notify_original_sender env msg original_sender =
     bind (FindSession original_sender) (\<lambda>session. scoped_opt env session (
       bind (case session of None \<Rightarrow> ret False | Some a \<Rightarrow> IsOnline a) (\<lambda>online.
         case session of Some a \<Rightarrow>
             if online then bind (SendMessage env a (ack_notification msg original_sender)) (\<lambda>_. ret ())
             else bind (SaveMessage env (ack_notification msg original_sender)) (\<lambda>_. ret ())
         | None \<Rightarrow> bind (SaveMessage env (ack_notification msg original_sender)) (\<lambda>_. ret ()))))"

text \<open>\<open>AckHandler::Handle\<close> has no \<open>try\<close>: what the store throws leaves the handler.\<close>

definition AckHandler :: "env \<Rightarrow> message \<Rightarrow> (world, unit) action" where
  "AckHandler env msg = (let acked_correlation_id = correlation_id msg; ack_sender = sender msg in
     if acked_correlation_id = 0 then ret ()
     else bind (FindOriginalSenderByCorrelation env acked_correlation_id) (\<lambda>original_sender.
       bind (FindMessageIdByCorrelation env acked_correlation_id) (\<lambda>by_corr.
       bind (if by_corr = 0
             then FindMessageIdByCorrelationAndDestination env acked_correlation_id ack_sender
             else ret by_corr) (\<lambda>message_id.
       if message_id = 0 then ret ()
       else bind (Storage_NeedsAck env message_id) (\<lambda>needs_ack.
         if needs_ack
         then seq (MarkDelivered env message_id)
             (seq (MarkAckReceived env message_id ack_sender)
             (seq (metric IncrementAcksReceived)
                  (if original_sender \<noteq> [] then notify_original_sender env msg original_sender
                   else ret ())))
         else ret ())))))"

section \<open>Routing\<close>

definition Create :: "MessageType \<Rightarrow> (env \<Rightarrow> message \<Rightarrow> string \<Rightarrow> (world, unit) action) option" where
  "Create type = (case type of
     Register \<Rightarrow> Some RegisterHandler
   | Message \<Rightarrow> Some (\<lambda>env msg _. MessageHandler env msg)
   | Reply \<Rightarrow> Some (\<lambda>env msg _. ReplyHandler env msg)
   | Ack \<Rightarrow> Some (\<lambda>env msg _. AckHandler env msg)
   | Unregister \<Rightarrow> Some (\<lambda>env msg _. UnregisterHandler env msg)
   | OtherType _ \<Rightarrow> None)"

text \<open>The first block of \<open>RouteMessage\<close>: the session of the connection the frame came from.\<close>

definition touch_sender :: "string \<Rightarrow> (world, nat option) action" where
  "touch_sender ident = registry_locked (
     bind (ask (\<lambda>w. map_of (identity_to_name w) ident)) (\<lambda>it. case it of None \<Rightarrow> ret None
       | Some name \<Rightarrow> bind (ask (\<lambda>w. map_of (active_clients w) name)) (\<lambda>session_it. case session_it of
           None \<Rightarrow> ret None
         | Some a \<Rightarrow> seq (UpdateLastReceive a) (ret (Some a)))))"

definition RouteMessage :: "env \<Rightarrow> message \<Rightarrow> string \<Rightarrow> (world, unit) action" where
  "RouteMessage env msg ident = bind (touch_sender ident) (\<lambda>session. scoped_opt env session (
     case Create (msg_type msg) of None \<Rightarrow> ret () | Some handle \<Rightarrow> handle env msg ident))"

end
