(* ===== verification/Router_Facts.thy ===== *)
theory Router_Facts
  imports Handlers
begin

text \<open>
  What the router guarantees: its operations keep the invariant of the broker without a fault,
  registering a client installs its session under its name and leaves the others alone.
\<close>

section \<open>Looking up\<close>

lemma good_lookup:
  assumes "RegistryLock \<notin> H"
  shows "triple (good H L A) (lookup_client name) (\<lambda>x w. good H L A w \<and> x = map_of A name) (good H L A)"
  unfolding lookup_client_def
  by (rule good_registry_locked [OF assms]) (rule triple_ask, simp add: good_def)

lemma registered: "map_of A name = Some a \<Longrightarrow> a \<in> snd ` set A"
  by (force dest: map_of_SomeD)

lemma triple_fact:
  "(b \<Longrightarrow> triple P m Q E) \<Longrightarrow> triple (\<lambda>s. P s \<and> b) m Q E"
  by (auto simp: triple_def)

text \<open>A found session is registered.\<close>

lemma good_lookup_then:
  assumes "keeps (good {} L A) (f None)" "\<And>a. a \<in> snd ` set A \<Longrightarrow> keeps (good {} L A) (f (Some a))"
  shows "keeps (good {} L A) (bind (lookup_client name) f)" "keeps (good {} L A) (bind (FindSession name) f)"
proof -
  have "keeps (good {} L A) (f x)" if "x = map_of A name" for x
    by (cases x) (use assms that registered [of A name] in auto)
  then show "keeps (good {} L A) (bind (lookup_client name) f)"
    by (intro triple_bind [OF good_lookup] triple_fact) simp
  then show "keeps (good {} L A) (bind (FindSession name) f)" by (simp only: FindSession_def)
qed

lemma good_clients: "good H L A w \<Longrightarrow> active_clients w = A"
  by (simp add: good_def)

lemma good_ask_clients:
  assumes "keeps (good H L A) (f (g A))"
  shows "keeps (good H L A) (bind (ask (\<lambda>w. g (active_clients w))) f)"
proof (rule tripleI)
  fix w assume w: "good H L A w"
  have "bind (ask (\<lambda>w. g (active_clients w))) f w = f (g A) w"
    by (simp add: bind_def good_clients [OF w])
  then show "case bind (ask (\<lambda>w. g (active_clients w))) f w of (Ok a, t) \<Rightarrow> good H L A t
      | (Throw e, t) \<Rightarrow> good H L A t | (Fault x, t) \<Rightarrow> False"
    using assms w by (simp add: triple_def)
qed

lemma good_registry_keeps:
  assumes "RegistryLock \<notin> H" "keeps (good (insert RegistryLock H) L A) m"
  shows "keeps (good H L A) (registry_locked m)"
  using good_registry_locked [OF assms(1), where Q = "\<lambda>_. True"] assms(2) by simp

section \<open>Delivery\<close>

text \<open>A registered session, no lock held: everything an operation on it needs.\<close>

lemma good_registered:
  assumes "a \<in> snd ` set A"
  shows "keeps (good {} L A) (SendMessage env a m)" "keeps (good {} L A) (FlushQueue a)"
    "keeps (good {} L A) (IsOnline a)" "keeps (good {} L A) (MarkOffline a)"
    "keeps (good {} L A) (UpdateLastActivity a)" "keeps (good {} L A) (UpdateLastReceive a)"
    "keeps (good {} L A) (PersistQueueToDatabase env a)"
  using assms by (simp_all add: good_SendMessage good_FlushQueue good_setters good_persist)

lemma good_store:
  "keeps (good {} L A) (SaveMessage env m)" "keeps (good {} L A) (MarkDelivered env i)"
  "keeps (good {} L A) (MarkSent env i)" "keeps (good {} L A) (MarkPending env i)"
  "keeps (good {} L A) (SaveCorrelation env i c orig)" "keeps (good {} L A) (MarkAckReceived env i s)"
  "keeps (good {} L A) (Storage_NeedsAck env i)"
  "keeps (good {} L A) (FindOriginalSenderByCorrelation env c)"
  "keeps (good {} L A) (FindMessageIdByCorrelation env c)"
  "keeps (good {} L A) (FindMessageIdByCorrelationAndDestination env c dest)"
  "keeps (good {} L A) (LoadExpiredSent env timeout)"
  "keeps (good {} L A) (LoadPendingMessagesOnly env name)"
  "keeps (good {} L A) (LoadPendingRepliesForSenderOnly env name)"
  by (rule good_storage, simp)+

lemma good_scope:
  "a \<in> snd ` set A \<Longrightarrow> keeps (good {} (a # L) A) m \<Longrightarrow> keeps (good {} L A) (scoped env a m)"
  by (rule keeps_scoped) simp_all

lemma good_DeliverOfflineMessages: "keeps (good {} L A) (DeliverOfflineMessages env name)"
  unfolding DeliverOfflineMessages_def deliver_pending_def deliver_one_def
  by (rule good_lookup_then(1); simp only: option.case;
      intro keeps_intros good_scope good_store good_metric good_registered; assumption)

lemma good_DeliverPendingReplies: "keeps (good {} L A) (DeliverPendingReplies env name)"
  unfolding DeliverPendingReplies_def deliver_replies_def deliver_one_reply_def
  by (rule good_lookup_then(1); simp only: option.case;
      intro keeps_intros good_scope good_store good_metric good_registered; assumption)

lemma good_PrintActiveClients:
  assumes "keeps_entries env"
  shows "keeps (good {} L A) (PrintActiveClients env)"
proof -
  let ?H = "{RegistryLock}"
  have "set (map_order env A) = set A" using assms by (metis keeps_entries_def mset_eq_setD)
  then have all: "keeps (good ?H L A) (for_each (\<lambda>(name, a). bind (deref a identity) (\<lambda>ident.
      bind (GetQueueSize a) (\<lambda>size. ret True))) (map_order env A))"
    by (intro triple_for_each)
       (force split: prod.split intro!: keeps_intros good_deref good_GetQueueSize)
  show ?thesis unfolding PrintActiveClients_def
    by (intro good_registry_keeps good_ask_clients [where g = "map_order env"] all) simp_all
qed

section \<open>Registering\<close>

text \<open>A session that is not registered yet, with its name and its persist callback set, of the
  connection \<open>ident\<close>.\<close>

definition newcomer :: "nat list \<Rightarrow> (string \<times> nat) list \<Rightarrow> string \<Rightarrow> string \<Rightarrow> nat \<Rightarrow> world \<Rightarrow> bool" where
  "newcomer L A name ident a w = (a \<in> set L \<and> a \<notin> snd ` set A
     \<and> (\<exists>s. heap w a = Some s \<and> session_name s = name \<and> identity s = ident \<and> persist_callback s))"

text \<open>Operations on the session \<open>b\<close> leave the others alone.\<close>

definition elsewhere :: "nat \<Rightarrow> world \<Rightarrow> world \<Rightarrow> bool" where
  "elsewhere b s t = (\<forall>x. x \<noteq> b \<longrightarrow> heap t x = heap s x)"

interpretation elsewhere: two_state "elsewhere b" for b
  by unfold_locales (simp_all add: elsewhere_def)

lemma elsewhere_assign: "always (elsewhere b) (assign b f)"
  by (simp add: always_def assign_def elsewhere_def split: option.split)

lemma elsewhere_deref: "always (elsewhere b) (deref b f)"
  by (simp add: always_def deref_def elsewhere_def split: option.split)

lemma elsewhere_persist: "always (elsewhere b) (PersistMessageForClient env name m)"
  by (rule always_mono [OF PersistMessageForClient_frame]) (drule world_frame(3), simp add: elsewhere_def)

lemma elsewhere_persist_rounds: "always (elsewhere b) (persist_rounds env b n)"
proof (induction n)
  case (Suc n)
  have "always (elsewhere b) (case p of (name, queue) \<Rightarrow> (case queue of [] \<Rightarrow> ret ()
     | front # _ \<Rightarrow> seq (PersistMessageForClient env name front)
         (seq (assign b (\<lambda>s. s\<lparr>outgoing_queue := tl (outgoing_queue s)\<rparr>)) (persist_rounds env b n))))"
    for p :: "string \<times> message list"
    by (cases p; cases "snd p")
       (auto intro!: elsewhere.combinators elsewhere_persist elsewhere_assign Suc.IH)
  then show ?case unfolding persist_rounds.simps
    by (rule elsewhere.bind_always [OF elsewhere_deref])
qed (simp only: persist_rounds.simps elsewhere.ret_always)

lemma elsewhere_PersistQueueToDatabase: "always (elsewhere b) (PersistQueueToDatabase env b)"
  unfolding PersistQueueToDatabase_def queue_locked_def
  by (intro elsewhere.combinators elsewhere.locked_always elsewhere_deref elsewhere_persist_rounds)
     (simp add: elsewhere_def)

lemma newcomer_elsewhere:
  "elsewhere b s t \<Longrightarrow> b \<in> snd ` set A \<Longrightarrow> newcomer L A name ident a s \<Longrightarrow> newcomer L A name ident a t"
  by (auto simp: newcomer_def elsewhere_def)

text \<open>What holds once the session registered under \<open>name\<close>, if any, is retired.\<close>

definition vacant :: "lock set \<Rightarrow> nat list \<Rightarrow> (string \<times> nat) list \<Rightarrow> string \<Rightarrow> world \<Rightarrow> bool" where
  "vacant H L A name w = (good H L A w \<and> (\<forall>i. (i, name) \<notin> set (identity_to_name w))
     \<and> (\<forall>old. map_of A name = Some old \<longrightarrow> queue_of old w = []))"

lemma registry_ok_delete: "registry_ok A I hp \<Longrightarrow> registry_ok A (AList.delete i I) hp"
  unfolding registry_ok_def set_AList_delete by (auto intro: distinct_delete)

lemma vacant_None: "good H L A w \<Longrightarrow> map_of A name = None \<Longrightarrow> vacant H L A name w"
proof -
  assume g: "good H L A w" and n: "map_of A name = None"
  have r: "registry_ok A (identity_to_name w) (heap w)" using g by (simp add: good_def)
  have "(i, name) \<notin> set (identity_to_name w)" for i
    using registry_okD(5) [OF r, of i name] n weak_map_of_SomeI [of name _ A] by auto
  with g n show "vacant H L A name w" by (simp add: vacant_def)
qed

lemma vacant_retire:
  assumes "map_of A name = Some old" "DbLock \<notin> H" "QueueLock old \<notin> H"
  shows "triple (good H L A) (retire_session env old) (\<lambda>_. vacant H L A name) (good H L A)"
  unfolding retire_session_def
proof (rule triple_seq [OF good_PersistQueueToDatabase [OF _ assms(2,3)]])
  have old: "old \<in> snd ` set A" using assms(1) by (rule registered)
  then show "live L A old" by simp
  show "triple (\<lambda>w. good H L A w \<and> queue_of old w = []) (seq (MarkOffline old)
      (bind (deref old identity) (\<lambda>old_identity.
         update (\<lambda>w. w\<lparr>identity_to_name := AList.delete old_identity (identity_to_name w)\<rparr>))))
      (\<lambda>_. vacant H L A name) (good H L A)"
  proof (rule tripleI, elim conjE)
    fix w assume g: "good H L A w" and q: "queue_of old w = []"
    obtain s where s: "heap w old = Some s" using g \<open>live L A old\<close> by (rule good_live)
    let ?w = "w\<lparr>heap := (heap w)(old \<mapsto> s\<lparr>is_online := False\<rparr>)\<rparr>"
    let ?I = "AList.delete (identity s) (identity_to_name w)"
    have g': "good H L A ?w"
      using q s by (intro good_heap_update [OF g s]) (simp_all add: session_kept_def queue_of_def)
    then have "good H L A (?w\<lparr>identity_to_name := ?I\<rparr>)"
      by (simp add: good_def lock_flags_def db_wf_def registry_ok_delete)
    moreover have "(i, name) \<notin> set ?I" for i
    proof
      have r: "registry_ok A (identity_to_name w) (heap w)" using g by (simp add: good_def)
      assume "(i, name) \<in> set ?I"
      then have "i \<noteq> identity s" "(i, name) \<in> set (identity_to_name w)"
        by (auto simp: set_AList_delete)
      then obtain b t where "(name, b) \<in> set A" "heap w b = Some t" "identity t = i"
        using registry_okD(5) [OF r] by blast
      moreover from this have "map_of A name = Some b" using registry_okD(1) [OF r] by simp
      ultimately show False using assms(1) s \<open>i \<noteq> identity s\<close> by simp
    qed
    ultimately have "vacant H L A name (?w\<lparr>identity_to_name := ?I\<rparr>)"
      using q s assms(1) by (simp add: vacant_def queue_of_def)
    then show "case seq (MarkOffline old) (bind (deref old identity) (\<lambda>old_identity.
         update (\<lambda>w. w\<lparr>identity_to_name := AList.delete old_identity (identity_to_name w)\<rparr>))) w of
        (Ok a, t) \<Rightarrow> vacant H L A name t | (Throw e, t) \<Rightarrow> good H L A t | (Fault x, t) \<Rightarrow> False"
      using s by (simp add: MarkOffline_def assign_def deref_def seq_def bind_def)
  qed
qed

text \<open>The registry after an upsert, and the session it replaced, still to be released.\<close>

definition with_old :: "nat option \<Rightarrow> nat list \<Rightarrow> nat list" where
  "with_old old L = (case old of None \<Rightarrow> L | Some b \<Rightarrow> b # L)"

lemma install_registry:
  assumes v: "vacant H L A name w" and s: "heap w a = Some s" "session_name s = name"
      "persist_callback s" and new: "a \<notin> snd ` set A"
  shows "registry_ok (AList.update name a A) (AList.update (identity s) name (identity_to_name w)) (heap w)"
proof -
  have r: "registry_ok A (identity_to_name w) (heap w)" and free: "\<And>i. (i, name) \<notin> set (identity_to_name w)"
    using v by (simp_all add: vacant_def good_def)
  note sets = set_AList_update [OF registry_okD(1) [OF r]] set_AList_update [OF registry_okD(2) [OF r]]
  have fresh: "(n, a) \<notin> set A" for n using new by force
  show ?thesis
  proof (rule registry_okI)
    show "distinct (map fst (AList.update name a A))"
      "distinct (map fst (AList.update (identity s) name (identity_to_name w)))"
      using registry_okD(1,2) [OF r] by (simp_all add: distinct_update)
    show "n = m" if "(n, b) \<in> set (AList.update name a A)" "(m, b) \<in> set (AList.update name a A)" for n m b
      using that fresh registry_okD(3) [OF r, of n b m] by (auto simp: sets)
    show "\<exists>s. heap w b = Some s \<and> session_name s = n \<and> persist_callback s"
      if "(n, b) \<in> set (AList.update name a A)" for n b
      using that s registry_okD(4) [OF r, of n b] by (auto simp: sets)
    show "\<exists>b t. (n, b) \<in> set (AList.update name a A) \<and> heap w b = Some t \<and> identity t = i"
      if "(i, n) \<in> set (AList.update (identity s) name (identity_to_name w))" for i n
      using that s free registry_okD(5) [OF r, of i n] by (fastforce simp: sets)
  qed
qed

lemma install_heap:
  assumes v: "vacant H L A name w" and new: "a \<in> set L"
  shows "heap_ok (snd ` set (AList.update name a A)) (set (with_old (map_of A name) L)) (heap w) (next_addr w)"
proof -
  have g: "good H L A w" and q: "\<And>b. map_of A name = Some b \<Longrightarrow> queue_of b w = []"
    using v by (simp_all add: vacant_def)
  have d: "distinct (map fst A)" and h: "heap_ok (snd ` set A) (set L) (heap w) (next_addr w)"
    using g by (auto simp: good_def dest: registry_okD(1))
  have split: "snd ` set A \<subseteq> snd ` {p \<in> set A. fst p \<noteq> name} \<union> {b. map_of A name = Some b}"
    using d by auto
  have "snd ` {p \<in> set A. fst p \<noteq> name} \<union> {b. map_of A name = Some b} \<subseteq> snd ` set A"
    by (auto dest: registered)
  with split have cover: "snd ` set A = snd ` {p \<in> set A. fst p \<noteq> name} \<union> {b. map_of A name = Some b}"
    by blast
  have L': "set (with_old (map_of A name) L) = {b. map_of A name = Some b} \<union> set L"
    by (auto simp: with_old_def split: option.split)
  show ?thesis
    unfolding heap_ok_def
  proof (intro conjI allI impI)
    show "dom (heap w) = snd ` set (AList.update name a A) \<union> set (with_old (map_of A name) L)"
      using h new cover by (auto simp: heap_ok_def set_AList_update [OF d] L')
    show "\<forall>b \<in> dom (heap w). b < next_addr w" using h by (simp add: heap_ok_def)
    fix b t assume b: "heap w b = Some t \<and> b \<notin> snd ` set (AList.update name a A)"
    show "outgoing_queue t = []"
    proof (cases "map_of A name = Some b")
      case True
      then show ?thesis using q b by (simp add: queue_of_def)
    next
      case False
      then have "b \<notin> snd ` set A" using b cover by (auto simp: set_AList_update [OF d])
      then show ?thesis using h b by (auto simp: heap_ok_def)
    qed
  qed
qed

lemma good_install:
  assumes v: "vacant H L A name w" and new: "newcomer L A name ident a w"
  shows "\<exists>w'. install_session name a w = (Ok (), w') \<and>
    good H (with_old (map_of A name) L) (AList.update name a A)
      (w'\<lparr>locals := with_old (map_of A name) L\<rparr>) \<and> locals w' = L
    \<and> map_of (identity_to_name w') ident = Some name"
proof -
  obtain s where s: "heap w a = Some s" "session_name s = name" "persist_callback s" "identity s = ident"
    and a: "a \<in> set L" "a \<notin> snd ` set A" using new by (auto simp: newcomer_def)
  have A: "active_clients w = A" "locals w = L" using v by (simp_all add: vacant_def good_def)
  show ?thesis
    using v s A install_registry [OF v s(1-3) a(2)] install_heap [OF v a(1)]
    by (simp add: install_session_def deref_def seq_def bind_def vacant_def good_def lock_flags_def db_wf_def
        update_conv')
qed

text \<open>\<open>upserted\<close>: the state \<open>UpsertClient\<close> returns in. The caller holds the replaced session from
  then on; with it among the locals the invariant holds for the updated registry.\<close>

definition upserted :: "lock set \<Rightarrow> nat list \<Rightarrow> (string \<times> nat) list \<Rightarrow> string \<Rightarrow> string \<Rightarrow> nat \<Rightarrow> nat option \<Rightarrow> world \<Rightarrow> bool" where
  "upserted H L A name ident a old w = (locals w = L \<and> old = map_of A name
     \<and> map_of (identity_to_name w) ident = Some name
     \<and> good H (with_old old L) (AList.update name a A) (w\<lparr>locals := with_old old L\<rparr>))"

lemma upserted_metrics:
  "triple (upserted H L A name ident a old) (registration_metrics replaced) (\<lambda>_. upserted H L A name ident a old) E"
  by (rule tripleI) (auto simp: registration_metrics_def metric_def seq_def bind_def upserted_def
      good_def lock_flags_def db_wf_def)

lemma upserted_unlock:
  "upserted {RegistryLock} L A name ident a old w \<Longrightarrow> upserted {} L A name ident a old (w\<lparr>registry_mutex := False\<rparr>)"
  by (auto simp: upserted_def good_def lock_flags_def db_wf_def)

lemma triple_ask_client:
  assumes "triple (\<lambda>w. good H L A w \<and> X w) (f (map_of A name)) Q E"
  shows "triple (\<lambda>w. good H L A w \<and> X w) (bind (ask (\<lambda>w. map_of (active_clients w) name)) f) Q E"
proof (rule tripleI, elim conjE)
  fix w assume w: "good H L A w" "X w"
  have "bind (ask (\<lambda>w. map_of (active_clients w) name)) f w = f (map_of A name) w"
    by (simp add: bind_def good_clients [OF w(1)])
  then show "case bind (ask (\<lambda>w. map_of (active_clients w) name)) f w of (Ok a, t) \<Rightarrow> Q a t
      | (Throw e, t) \<Rightarrow> E t | (Fault x, t) \<Rightarrow> False"
    using assms w by (simp add: triple_def)
qed

lemma good_UpsertClient:
  "triple (\<lambda>w. good {} L A w \<and> newcomer L A name ident a w) (UpsertClient env name (Some a))
    (\<lambda>old. upserted {} L A name ident a old) (good {} L A)"
proof -
  let ?H = "{RegistryLock}"
  have retire: "triple (\<lambda>w. good ?H L A w \<and> newcomer L A name ident a w)
      (case map_of A name of None \<Rightarrow> ret () | Some old \<Rightarrow> retire_session env old)
      (\<lambda>_ w. vacant ?H L A name w \<and> newcomer L A name ident a w) (good ?H L A)"
  proof (cases "map_of A name")
    case None
    then show ?thesis by (auto intro!: triple_ret vacant_None)
  next
    case (Some old)
    have "always (elsewhere old) (retire_session env old)" unfolding retire_session_def MarkOffline_def
      by (intro elsewhere.combinators elsewhere_PersistQueueToDatabase elsewhere_assign elsewhere_deref
          elsewhere.update_always) (simp add: elsewhere_def)
    from triple_always [OF vacant_retire [OF Some] this]
    have "triple (\<lambda>w. good ?H L A w \<and> newcomer L A name ident a w) (retire_session env old)
        (\<lambda>_ w. vacant ?H L A name w \<and> newcomer L A name ident a w) (\<lambda>w. good ?H L A w \<and> newcomer L A name ident a w)"
      by this (use registered [OF Some] newcomer_elsewhere in auto)
    then show ?thesis by (simp add: Some) (erule triple_conseq; simp)
  qed
  have install: "triple (\<lambda>w. vacant ?H L A name w \<and> newcomer L A name ident a w) (install_session name a)
      (\<lambda>_. upserted ?H L A name ident a (map_of A name)) (good ?H L A)"
    by (rule tripleI) (auto simp: upserted_def dest!: good_install)
  have tail: "triple (upserted ?H L A name ident a (map_of A name))
      (seq (registration_metrics (map_of A name \<noteq> None)) (ret (map_of A name)))
      (\<lambda>old. upserted ?H L A name ident a old) (good ?H L A)"
    by (rule triple_seq [OF upserted_metrics triple_ret])
  have body: "triple (\<lambda>w. good ?H L A w \<and> newcomer L A name ident a w)
      (bind (ask (\<lambda>w. map_of (active_clients w) name)) (\<lambda>old_session.
       seq (case old_session of None \<Rightarrow> ret () | Some old \<Rightarrow> retire_session env old)
      (seq (install_session name a)
      (seq (registration_metrics (old_session \<noteq> None))
           (ret old_session)))))
      (\<lambda>old. upserted ?H L A name ident a old) (good ?H L A)"
    by (rule triple_ask_client, rule triple_seq [OF retire], rule triple_seq [OF install tail])
  show ?thesis unfolding UpsertClient_def option.case registry_locked_def
    by (rule triple_locked [where P' = "\<lambda>w. good ?H L A w \<and> newcomer L A name ident a w"],
        rule triple_conseq [OF body])
       (auto simp: newcomer_def good_def lock_flags_def db_wf_def intro: upserted_unlock)
qed

section \<open>Unregistering\<close>

lemma registry_remove:
  assumes r: "registry_ok A I hp" and m: "map_of A name = Some a" and s: "hp a = Some s"
  shows "registry_ok (AList.delete name A) (AList.delete (identity s) I) hp"
proof (rule registry_okI)
  show "distinct (map fst (AList.delete name A))" "distinct (map fst (AList.delete (identity s) I))"
    using registry_okD(1,2) [OF r] by (simp_all add: distinct_delete)
  show "n = k" if "(n, b) \<in> set (AList.delete name A)" "(k, b) \<in> set (AList.delete name A)" for n k b
    using that registry_okD(3) [OF r, of n b k] by (simp add: set_AList_delete)
  show "\<exists>s. hp b = Some s \<and> session_name s = n \<and> persist_callback s"
    if "(n, b) \<in> set (AList.delete name A)" for n b
    using that registry_okD(4) [OF r, of n b] by (simp add: set_AList_delete)
  show "\<exists>b t. (n, b) \<in> set (AList.delete name A) \<and> hp b = Some t \<and> identity t = i"
    if "(i, n) \<in> set (AList.delete (identity s) I)" for i n
  proof -
    have i: "i \<noteq> identity s" "(i, n) \<in> set I" using that by (auto simp: set_AList_delete)
    then obtain b t where b: "(n, b) \<in> set A" "hp b = Some t" "identity t = i"
      using registry_okD(5) [OF r] by blast
    have "n \<noteq> name"
    proof
      assume "n = name"
      then have "map_of A name = Some b" using b(1) registry_okD(1) [OF r] by simp
      then show False using m s b i by simp
    qed
    with b show ?thesis by (auto simp: set_AList_delete)
  qed
qed

lemma good_remove:
  assumes g: "good H L A w" and m: "map_of A name = Some a" and s: "heap w a = Some s"
    and L: "a \<in> set L" and q: "outgoing_queue s = []"
  shows "good H L (AList.delete name A) (w\<lparr>identity_to_name := AList.delete (identity s) (identity_to_name w),
     active_clients := AList.delete name A\<rparr>)"
proof -
  have d: "distinct (map fst A)" using g by (auto simp: good_def dest: registry_okD(1))
  have "snd ` set A \<subseteq> snd ` set (AList.delete name A) \<union> {a}"
  proof (rule image_subsetI)
    fix p assume p: "p \<in> set A"
    show "snd p \<in> snd ` set (AList.delete name A) \<union> {a}"
    proof (cases "fst p = name")
      case True
      then have "(name, snd p) \<in> set A" using p by (cases p) auto
      then have "map_of A name = Some (snd p)" using d by simp
      then show ?thesis using m by simp
    qed (use p in \<open>auto simp: set_AList_delete\<close>)
  qed
  moreover have "snd ` set (AList.delete name A) \<subseteq> snd ` set A" by (auto simp: set_AList_delete)
  ultimately have cover: "snd ` set (AList.delete name A) \<union> set L = snd ` set A \<union> set L"
    and other: "\<And>b. b \<notin> snd ` set (AList.delete name A) \<Longrightarrow> b \<noteq> a \<Longrightarrow> b \<notin> snd ` set A"
    using L by blast+
  have h: "heap_ok (snd ` set A) (set L) (heap w) (next_addr w)" using g by (simp add: good_def)
  have "outgoing_queue t = []" if "heap w b = Some t" "b \<notin> snd ` set (AList.delete name A)" for b t
    using that h other [of b] q s by (cases "b = a") (auto simp: heap_ok_def)
  then have "heap_ok (snd ` set (AList.delete name A)) (set L) (heap w) (next_addr w)"
    using h cover unfolding heap_ok_def by simp blast
  moreover have "registry_ok (AList.delete name A) (AList.delete (identity s) (identity_to_name w)) (heap w)"
    using g m s by (intro registry_remove) (simp_all add: good_def)
  ultimately show ?thesis using g by (simp add: good_def lock_flags_def db_wf_def)
qed

lemma good_UnregisterClient:
  assumes m: "map_of A name = Some a" and L: "a \<in> set L"
  shows "triple (\<lambda>w. good {} L A w \<and> queue_of a w = []) (UnregisterClient env name)
    (\<lambda>_. good {} L (AList.delete name A)) E"
proof (rule tripleI, elim conjE)
  fix w assume g: "good {} L A w" and q: "queue_of a w = []"
  obtain s where s: "heap w a = Some s" using g by (rule good_live) (rule UnI2 [OF L])
  have w: "active_clients w = A" "locals w = L" "\<not> registry_mutex w"
    using g by (simp_all add: good_def lock_flags_def)
  have "good {} L (AList.delete name A) (w\<lparr>identity_to_name := AList.delete (identity s) (identity_to_name w),
     active_clients := AList.delete name A\<rparr>)"
    using q s by (intro good_remove [OF g m s L]) (simp add: queue_of_def)
  then show "case UnregisterClient env name w of (Ok x, t) \<Rightarrow> good {} L (AList.delete name A) t
      | (Throw e, t) \<Rightarrow> E t | (Fault x, t) \<Rightarrow> False"
    using s w m L by (simp add: UnregisterClient_def registry_locked_def locked_def bind_def seq_def
        deref_def collect_def metric_def good_def lock_flags_def db_wf_def)
qed

end
