(* ===== verification/Registry_Frame.thy ===== *)
theory Registry_Frame
  imports Router_Facts
begin

text \<open>
  What sending and delivering leave alone: the registry (names, identities, the connection behind
  each session) changes only in registration, unregistration and cleanup.
\<close>

section \<open>The relation\<close>

text \<open>No session is created, and none changes its connection.\<close>

definition same_registry :: "world \<Rightarrow> world \<Rightarrow> bool" where
  "same_registry w t = (active_clients t = active_clients w \<and> identity_to_name t = identity_to_name w
     \<and> (\<forall>a s'. heap t a = Some s' \<longrightarrow> (\<exists>s. heap w a = Some s \<and> identity s' = identity s)))"

lemma same_registry_more: "database.more t = database.more w \<Longrightarrow> same_registry w t"
  using world_frame [of t w] by (simp add: same_registry_def)

interpretation registry: two_state same_registry
proof unfold_locales
  fix s t u assume st: "same_registry s t" and tu: "same_registry t u"
  show "same_registry s u" unfolding same_registry_def
  proof (intro conjI allI impI)
    fix a s' assume "heap u a = Some s'"
    then obtain v where "heap t a = Some v" "identity s' = identity v"
      using tu unfolding same_registry_def by blast
    then show "\<exists>v. heap s a = Some v \<and> identity s' = identity v"
      using st unfolding same_registry_def by metis
  qed (use st tu in \<open>simp_all add: same_registry_def\<close>)
qed (simp add: same_registry_def)

lemma registry_update:
  "(\<And>w. active_clients (f w) = active_clients w) \<Longrightarrow> (\<And>w. identity_to_name (f w) = identity_to_name w)
    \<Longrightarrow> (\<And>w. heap (f w) = heap w) \<Longrightarrow> always same_registry (update f)"
  by (rule registry.update_always) (simp add: same_registry_def)

lemma registry_storage:
  fixes m :: "(world, 'a) action"
  shows "always (\<lambda>s t. database.more t = database.more s) m \<Longrightarrow> always same_registry m"
  by (erule always_mono) (rule same_registry_more)

lemmas registry_store = frame.storage_R [THEN registry_storage]

lemma registry_deref: "always same_registry (deref a f)"
  by (simp add: always_def deref_def same_registry_def split: option.split)

lemma registry_assign: "(\<And>s. identity (f s) = identity s) \<Longrightarrow> always same_registry (assign a f)"
  by (auto simp: always_def assign_def same_registry_def split: option.split)

lemma registry_metric: "always same_registry (metric f)"
  unfolding metric_def by (rule registry_update) simp_all

lemma registry_locks:
  assumes "always same_registry m"
  shows "always same_registry (queue_locked a m)" "always same_registry (pending_locked m)"
    "always same_registry (registry_locked m)"
  unfolding queue_locked_def pending_locked_def registry_locked_def
  by (intro registry.seq_always registry.locked_always registry_deref assms;
      auto simp: same_registry_def split: option.splits)+

lemma registry_option:
  "always same_registry m \<Longrightarrow> (\<And>a. always same_registry (f a))
    \<Longrightarrow> always same_registry (case p of None \<Rightarrow> m | Some a \<Rightarrow> f a)"
  by (cases p) simp_all

lemma registry_prod:
  "(\<And>a b. always same_registry (f a b)) \<Longrightarrow> always same_registry (case p of (a, b) \<Rightarrow> f a b)"
  by (cases p) simp

lemma registry_list:
  "always same_registry m \<Longrightarrow> (\<And>x xs. always same_registry (f x xs))
    \<Longrightarrow> always same_registry (case q of [] \<Rightarrow> m | x # xs \<Rightarrow> f x xs)"
  by (cases q) simp_all

lemmas registry_rules = registry.combinators registry_store registry_deref registry_metric
  registry_locks registry_option registry_prod registry_list

section \<open>Sessions\<close>

lemma registry_setters:
  "always same_registry (IsOnline a)" "always same_registry (MarkOffline a)"
  "always same_registry (GetQueueSize a)"
  "always same_registry (UpdateLastReceive a)" "always same_registry (UpdateLastActivity a)"
proof -
  show "always same_registry (IsOnline a)" "always same_registry (MarkOffline a)"
    "always same_registry (GetQueueSize a)"
    unfolding IsOnline_def MarkOffline_def GetQueueSize_def by (intro registry_rules registry_assign; simp)+
  show "always same_registry (UpdateLastReceive a)" unfolding UpdateLastReceive_def
    by (rule registry.at_state_always [where f = "\<lambda>c. assign a (\<lambda>s. s\<lparr>last_receive := c\<rparr>)"])
       (rule registry_assign, simp)
  show "always same_registry (UpdateLastActivity a)" unfolding UpdateLastActivity_def
    by (rule registry.at_state_always [where f = "\<lambda>c. assign a (\<lambda>s. s\<lparr>last_activity := c\<rparr>)"])
       (rule registry_assign, simp)
qed

lemma registry_SendZmqMessage: "always same_registry (SendZmqMessage a m)"
  unfolding SendZmqMessage_def SendToClient_def ScheduleSendProcessing_def
  by (intro registry_rules registry_setters registry_update; simp)

lemma registry_persist_rounds: "always same_registry (persist_rounds env a n)"
proof (induction n)
  case (Suc n)
  show ?case unfolding persist_rounds.simps PersistMessageForClient_def
    by (intro registry_rules registry_assign Suc.IH; simp)
qed (simp only: persist_rounds.simps registry.ret_always)

lemma registry_flush_rounds: "always same_registry (flush_rounds a n)"
proof (induction n)
  case (Suc n)
  show ?case unfolding flush_rounds.simps
    by (intro registry_rules registry_assign registry_SendZmqMessage Suc.IH; simp)
qed (simp only: flush_rounds.simps registry.ret_always)

lemma registry_session:
  "always same_registry (PersistQueueToDatabase env a)" "always same_registry (SendMessage env a m)"
  "always same_registry (FlushQueue a)"
  unfolding PersistQueueToDatabase_def SendMessage_def EnqueueMessage_def FlushQueue_def
  by (intro registry_rules registry_setters registry_SendZmqMessage registry_persist_rounds
      registry_flush_rounds registry_assign; simp)+

lemma registry_scoped:
  "always same_registry m \<Longrightarrow> always same_registry (scoped env a m)"
  "always same_registry m \<Longrightarrow> always same_registry (scoped_opt env p m)"
proof -
  have free: "always same_registry (update (\<lambda>w. w\<lparr>heap := (heap w)(a := None)\<rparr>))" for a
    by (rule registry.update_always) (auto simp: same_registry_def)
  show one: "always same_registry (scoped env a m)" if "always same_registry m" for a
    unfolding scoped_def collect_def Session_destructor_def
    by (intro registry_rules registry_session free that registry_update; simp)
  show "always same_registry m \<Longrightarrow> always same_registry (scoped_opt env p m)"
    by (cases p) (simp_all add: scoped_opt_def one)
qed

lemmas registry_all = registry_rules registry_setters registry_session registry_scoped

section \<open>Delivery and the three message handlers\<close>

lemma registry_deliver:
  "always same_registry (lookup_client name)" "always same_registry (FindSession name)"
  "always same_registry (DeliverOfflineMessages env name)"
  "always same_registry (DeliverPendingReplies env name)" "always same_registry (PrintActiveClients env)"
  unfolding FindSession_def lookup_client_def DeliverOfflineMessages_def deliver_pending_def
    deliver_one_def DeliverPendingReplies_def deliver_replies_def deliver_one_reply_def PrintActiveClients_def
  by (intro registry_all)+

lemma registry_handlers:
  "always same_registry (MessageHandler env msg)" "always same_registry (ReplyHandler env msg)"
  "always same_registry (AckHandler env msg)"
  unfolding MessageHandler_def save_first_def send_saved_def roll_back_def ReplyHandler_def
    save_reply_def send_reply_def AckHandler_def notify_original_sender_def Let_def
  by (intro registry_all registry_deliver)+

end
