(* ===== verification/Handler_Facts.thy ===== *)
theory Handler_Facts
  imports Registry_Frame
begin

text \<open>
  What the message handlers guarantee, whatever the store and the socket answer: routing a
  message has no fault (no self-deadlock, no use of a dead session, no exception out of a
  destructor) and keeps the invariant of the broker.
\<close>

section \<open>No fault\<close>

text \<open>\<open>settled L\<close>: the invariant for some registry, with no lock held.\<close>

definition settled :: "nat list \<Rightarrow> world \<Rightarrow> bool" where
  "settled L w = (\<exists>A. good {} L A w)"

lemma settledI: "good {} L A w \<Longrightarrow> settled L w"
  by (auto simp: settled_def)

lemma settled_keeps: "(\<And>A. keeps (good {} L A) m) \<Longrightarrow> keeps (settled L) m"
  by (fastforce simp: triple_def settled_def split: outcome.splits prod.splits)

lemma settled_scoped:
  assumes "\<And>w. P w \<Longrightarrow> P' (w\<lparr>locals := a # locals w\<rparr>)"
    and "triple P' m (\<lambda>_. settled (a # L)) (settled (a # L))"
  shows "triple P (scoped env a m) (\<lambda>_. settled L) (settled L)"
proof -
  have "triple P' m (\<lambda>x w. \<exists>A'. good {} (a # L) A' w \<and> True) (\<lambda>w. \<exists>A'. good {} (a # L) A' w \<and> True)"
    using assms(2) by (simp add: settled_def [abs_def])
  from good_scoped [OF _ assms(1) this]
  show ?thesis by (simp add: settled_def [abs_def])
qed

lemma good_FindSession_keeps:
  "(keeps (good {} L A) (f None)) \<Longrightarrow> (\<And>a. a \<in> snd ` set A \<Longrightarrow> keeps (good {} L A) (f (Some a)))
    \<Longrightarrow> keeps (good {} L A) (bind (FindSession name) f)"
  by (rule good_lookup_then(2))

lemma good_roll_back: "a \<in> snd ` set A \<Longrightarrow> keeps (good {} L A) (roll_back env a i)"
  unfolding roll_back_def by (intro keeps_intros good_store good_registered good_metric; assumption)

lemma good_save_first: "keeps (good {} L A) (save_first env msg now)"
  unfolding save_first_def by (intro keeps_intros good_store good_metric)

lemma good_send_saved: "a \<in> snd ` set A \<Longrightarrow> keeps (good {} L A) (send_saved env msg a i)"
  unfolding send_saved_def
  by (intro keeps_intros good_store good_metric good_registered good_roll_back; assumption)

lemma good_MessageHandler: "keeps (good {} L A) (MessageHandler env msg)"
  unfolding MessageHandler_def
  by (rule good_FindSession_keeps; simp only: option.case scoped_opt_def;
      intro keeps_intros good_scope good_save_first good_send_saved good_registered; assumption)

lemma good_save_reply: "keeps (good {} L A) (save_reply env msg)"
  unfolding save_reply_def Let_def by (intro keeps_intros good_store good_metric)

lemma good_send_reply: "a \<in> snd ` set A \<Longrightarrow> keeps (good {} L A) (send_reply env msg a i)"
  unfolding send_reply_def
  by (intro keeps_intros good_store good_metric good_registered good_roll_back; assumption)

lemma good_ReplyHandler: "keeps (good {} L A) (ReplyHandler env msg)"
  unfolding ReplyHandler_def
proof (rule keeps_bind [OF good_save_reply], rule keeps_option, rule keeps_ret)
  fix saved p
  show "keeps (good {} L A) (case p of (reply_msg, message_id) \<Rightarrow>
         bind (FindSession (destination reply_msg)) (\<lambda>session. case session of None \<Rightarrow> ret ()
           | Some a \<Rightarrow> scoped env a (bind (IsOnline a) (\<lambda>online.
               if online then send_reply env reply_msg a message_id else ret ()))))"
    by (cases p, simp only: prod.case, rule good_FindSession_keeps; simp only: option.case;
      intro keeps_intros good_scope good_send_reply good_registered; assumption)
qed

lemma good_notify: "keeps (good {} L A) (notify_original_sender env msg orig)"
  unfolding notify_original_sender_def
  by (rule good_FindSession_keeps; simp only: option.case scoped_opt_def;
      intro keeps_intros good_scope good_store good_registered; assumption)

lemma good_AckHandler: "keeps (good {} L A) (AckHandler env msg)"
  unfolding AckHandler_def Let_def by (intro keeps_intros good_store good_metric good_notify)

lemma triple_settled:
  assumes "\<And>A. triple (good {} L A) m (\<lambda>_. settled L) (settled L)"
  shows "keeps (settled L) m"
  using assms by (fastforce simp: triple_def settled_def)

lemma triple_FindSession:
  assumes "triple (good {} L A) (f (map_of A name)) Q E" "\<And>w. good {} L A w \<Longrightarrow> E w"
  shows "triple (good {} L A) (bind (FindSession name) f) Q E"
  unfolding FindSession_def
proof (rule triple_bind)
  show "triple (good {} L A) (lookup_client name) (\<lambda>x w. good {} L A w \<and> x = map_of A name) E"
    by (rule triple_conseq [OF good_lookup]) (use assms(2) in simp_all)
  show "triple (\<lambda>w. good {} L A w \<and> x = map_of A name) (f x) Q E" for x
    by (rule triple_fact) (use assms(1) in simp)
qed

lemma settled_UnregisterHandler: "keeps (settled L) (UnregisterHandler env msg)"
  unfolding UnregisterHandler_def
proof (rule triple_settled, rule triple_FindSession [OF _ settledI])
  fix A
  show "triple (good {} L A) (case map_of A (sender msg) of None \<Rightarrow> ret ()
     | Some a \<Rightarrow> scoped env a (seq (PersistQueueToDatabase env a) (seq (MarkOffline a)
             (UnregisterClient env (sender msg))))) (\<lambda>_. settled L) (settled L)"
  proof (cases "map_of A (sender msg)")
    case None
    then show ?thesis by (auto intro!: triple_ret settledI)
  next
    case (Some a)
    have live: "live (a # L) A a" "live L A a" using registered [OF Some] by simp_all
    have offline: "triple (\<lambda>w. good {} (a # L) A w \<and> queue_of a w = []) (MarkOffline a)
        (\<lambda>_ w. good {} (a # L) A w \<and> queue_of a w = []) (settled (a # L))"
    proof (rule tripleI, elim conjE)
      fix w assume g: "good {} (a # L) A w" and q: "queue_of a w = []"
      obtain s where s: "heap w a = Some s" using g live(1) by (rule good_live)
      show "case MarkOffline a w of (Ok x, t) \<Rightarrow> good {} (a # L) A t \<and> queue_of a t = []
          | (Throw e, t) \<Rightarrow> settled (a # L) t | (Fault x, t) \<Rightarrow> False"
        using s q good_heap_update [OF g s, of "s\<lparr>is_online := False\<rparr>"]
        by (simp add: MarkOffline_def assign_def queue_of_def session_kept_def)
    qed
    have "triple (good {} (a # L) A) (seq (PersistQueueToDatabase env a) (seq (MarkOffline a)
             (UnregisterClient env (sender msg))))
        (\<lambda>_. settled (a # L)) (settled (a # L))"
    proof (rule triple_seq)
      show "triple (good {} (a # L) A) (PersistQueueToDatabase env a)
          (\<lambda>_ w. good {} (a # L) A w \<and> queue_of a w = []) (settled (a # L))"
        by (rule triple_conseq [OF good_PersistQueueToDatabase [OF live(1)]]) (auto intro: settledI)
      have "triple (\<lambda>w. good {} (a # L) A w \<and> queue_of a w = []) (UnregisterClient env (sender msg))
          (\<lambda>_. good {} (a # L) (AList.delete (sender msg) A)) (settled (a # L))"
        by (rule good_UnregisterClient [OF Some]) simp
      from triple_seq [OF offline this]
      show "triple (\<lambda>w. good {} (a # L) A w \<and> queue_of a w = [])
          (seq (MarkOffline a) (UnregisterClient env (sender msg))) (\<lambda>_. settled (a # L)) (settled (a # L))"
        by (rule triple_conseq) (auto intro: settledI)
    qed
    with good_scope_enter [OF _ live(2)]
    have "triple (good {} L A) (scoped env a (seq (PersistQueueToDatabase env a) (seq (MarkOffline a)
             (UnregisterClient env (sender msg))))) (\<lambda>_. settled L) (settled L)"
      by (rule settled_scoped [where P = "good {} L A" and P' = "good {} (a # L) A"])
    then show ?thesis by (simp add: Some)
  qed
qed

section \<open>Registration\<close>

lemma good_assign_new:
  assumes "a \<in> set L" "a \<notin> snd ` set A"
    and f: "\<And>s. queue_mutex (f s) = queue_mutex s" "\<And>s. outgoing_queue (f s) = outgoing_queue s"
    and XY: "\<And>s. X s \<Longrightarrow> Y (f s)"
  shows "triple (\<lambda>w. good H L A w \<and> (\<exists>s. heap w a = Some s \<and> X s)) (assign a f)
    (\<lambda>_ w. good H L A w \<and> (\<exists>s. heap w a = Some s \<and> Y s)) E"
proof (rule tripleI, elim conjE exE)
  fix w s assume g: "good H L A w" and s: "heap w a = Some s" "X s"
  have "registry_ok A (identity_to_name w) ((heap w)(a := Some (f s)))"
    using g assms(2) by (intro registry_ok_other) (simp_all add: good_def)
  moreover have "dom ((heap w)(a \<mapsto> f s)) = dom (heap w)" using s by auto
  ultimately have "good H L A (w\<lparr>heap := (heap w)(a \<mapsto> f s)\<rparr>)"
    using g s assms(2) f by (auto simp: good_def heap_ok_def lock_flags_def db_wf_def)
  then show "case assign a f w of (Ok x, t) \<Rightarrow> good H L A t \<and> (\<exists>s. heap t a = Some s \<and> Y s)
      | (Throw e, t) \<Rightarrow> E t | (Fault x, t) \<Rightarrow> False"
    using s XY by (simp add: assign_def)
qed

definition prepare_session :: "string \<Rightarrow> nat \<Rightarrow> (world, unit) action" where
  "prepare_session name a = seq (SetName a name) (seq (UpdateLastActivity a)
     (seq (UpdateLastReceive a) (SetPersistCallback a)))"

lemma seq_assoc: "seq (seq m n) k = seq m (seq n k)"
  by (auto simp: seq_def bind_def fun_eq_iff split: outcome.splits prod.splits)

lemma good_prepare_session:
  assumes a: "a \<in> set L" "a \<notin> snd ` set A"
  shows "triple (\<lambda>w. good {} L A w \<and> (\<exists>s. heap w a = Some s \<and> identity s = ident)) (prepare_session name a)
    (\<lambda>_ w. good {} L A w \<and> newcomer L A name ident a w) E"
proof -
  let ?P = "\<lambda>X w. good {} L A w \<and> (\<exists>s. heap w a = Some s \<and> X s)"
  let ?named = "\<lambda>s. session_name s = name \<and> identity s = ident"
  have time: "triple (?P ?named) (UpdateLastActivity a) (\<lambda>_. ?P ?named) E"
    "triple (?P ?named) (UpdateLastReceive a) (\<lambda>_. ?P ?named) E"
    unfolding UpdateLastActivity_def UpdateLastReceive_def
    by (rule triple_at_state [where f = "\<lambda>c. assign a (\<lambda>s. s\<lparr>last_activity := c\<rparr>)"],
        rule good_assign_new [OF a]; simp)
      (rule triple_at_state [where f = "\<lambda>c. assign a (\<lambda>s. s\<lparr>last_receive := c\<rparr>)"],
        rule good_assign_new [OF a]; simp)
  have name: "triple (?P (\<lambda>s. identity s = ident)) (SetName a name) (\<lambda>_. ?P ?named) E"
    unfolding SetName_def by (rule good_assign_new [OF a]) simp_all
  have callback: "triple (?P ?named) (SetPersistCallback a)
      (\<lambda>_. ?P (\<lambda>s. session_name s = name \<and> identity s = ident \<and> persist_callback s)) E"
    unfolding SetPersistCallback_def by (rule good_assign_new [OF a]) simp_all
  have "triple (?P (\<lambda>s. identity s = ident)) (prepare_session name a)
      (\<lambda>_. ?P (\<lambda>s. session_name s = name \<and> identity s = ident \<and> persist_callback s)) E"
    unfolding prepare_session_def
    by (rule triple_seq [OF name triple_seq [OF time(1) triple_seq [OF time(2) callback]]])
  then show ?thesis by (rule triple_conseq) (use a in \<open>auto simp: newcomer_def\<close>)
qed

text \<open>\<open>registered_as L A name ident w\<close>: the invariant holds for \<open>A\<close> with a new session under
  \<open>name\<close>, and the connection is known under that name.\<close>

definition registered_as :: "nat list \<Rightarrow> (string \<times> nat) list \<Rightarrow> string \<Rightarrow> string \<Rightarrow> world \<Rightarrow> bool" where
  "registered_as L A name ident w = (\<exists>a. good {} L (AList.update name a A) w
     \<and> map_of (identity_to_name w) ident = Some name)"

lemma settled_registered_as: "registered_as L A name ident w \<Longrightarrow> settled L w"
  by (auto simp: registered_as_def settled_def)

text \<open>What a registration runs once the session is in the registry.\<close>

abbreviation deliver_all :: "env \<Rightarrow> string \<Rightarrow> (world, unit) action" where
  "deliver_all env name \<equiv> seq (DeliverOfflineMessages env name) (seq (DeliverPendingReplies env name)
    (PrintActiveClients env))"

lemma good_deliver_all:
  "keeps_entries env \<Longrightarrow> keeps (good {} L A) (deliver_all env name)"
  by (intro keeps_seq good_DeliverOfflineMessages good_DeliverPendingReplies good_PrintActiveClients)

lemma deliver_all_registry:
  assumes "keeps_entries env"
  shows "keeps (\<lambda>w. good {} L A w \<and> map_of (identity_to_name w) ident = Some name) (deliver_all env name)"
proof -
  have "always same_registry (deliver_all env name)" by (intro registry.combinators registry_deliver)
  from triple_always [OF good_deliver_all [OF assms] this]
  show ?thesis by this (simp add: same_registry_def)
qed

lemma after_upsert:
  assumes "keeps_entries env"
  shows "triple (upserted {} L A name ident a old) (scoped_opt env old (deliver_all env name))
    (\<lambda>_. registered_as L A name ident) (settled L)"
proof -
  let ?A = "AList.update name a A"
  let ?B = "\<lambda>L w. good {} L ?A w \<and> map_of (identity_to_name w) ident = Some name"
  have run: "triple (?B L) (deliver_all env name) (\<lambda>_. ?B L) (?B L)" for L
    by (rule deliver_all_registry [OF assms])
  show ?thesis
  proof (cases old)
    case None
    have "upserted {} L A name ident a None w \<Longrightarrow> ?B L w" for w
      by (auto simp: upserted_def with_old_def good_def lock_flags_def db_wf_def)
    then show ?thesis unfolding None scoped_opt_def option.case
      by (intro triple_conseq [OF run]) (auto simp: registered_as_def settled_def)
  next
    case (Some b)
    let ?Q = "\<lambda>A' I. A' = ?A \<and> map_of (identity_to_name I) ident = Some name"
    have body: "triple (?B (b # L)) (deliver_all env name)
        (\<lambda>_ w. \<exists>A'. good {} (b # L) A' w \<and> ?Q A' (core w))
        (\<lambda>w. \<exists>A'. good {} (b # L) A' w \<and> ?Q A' (core w))"
      by (rule triple_conseq [OF run]) simp_all
    have pre: "upserted {} L A name ident a (Some b) w \<Longrightarrow> ?B (b # L) (w\<lparr>locals := b # locals w\<rparr>)" for w
      by (auto simp: upserted_def with_old_def)
    from good_scoped [OF _ pre body]
    have "triple (upserted {} L A name ident a (Some b)) (scoped env b (deliver_all env name))
        (\<lambda>_ w. \<exists>A'. good {} L A' w \<and> ?Q A' (core w))
        (\<lambda>w. \<exists>A'. good {} L A' w \<and> ?Q A' (core w))" by simp
    then show ?thesis unfolding Some scoped_opt_def option.case
      by (rule triple_conseq) (auto simp: registered_as_def settled_def)
  qed
qed

lemma heap_ok_alloc:
  assumes "heap_ok R L hp n" "outgoing_queue s = []"
  shows "heap_ok R (insert n L) (hp(n \<mapsto> s)) (Suc n)"
proof -
  have "dom hp = R \<union> L" "\<forall>a \<in> dom hp. a < n" "\<forall>a s. hp a = Some s \<and> a \<notin> R \<longrightarrow> outgoing_queue s = []"
    using assms(1) by (simp_all add: heap_ok_def)
  then show ?thesis using assms(2) unfolding heap_ok_def by (auto simp del: domIff intro: less_SucI)
qed

lemma result_RegisterHandler:
  assumes "keeps_entries env" "sender msg \<noteq> []"
  shows "triple (good {} L A) (RegisterHandler env msg ident) (\<lambda>_. registered_as L A (sender msg) ident) (settled L)"
proof -
  let ?name = "sender msg"
  let ?m = "\<lambda>a. seq (prepare_session ?name a)
      (bind (UpsertClient env ?name (Some a)) (\<lambda>old. scoped_opt env old (deliver_all env ?name)))"
  let ?new = "\<lambda>L A a w. good {} L A w \<and> (\<exists>s. heap w a = Some s \<and> identity s = ident)"
  have eq: "RegisterHandler env msg ident = bind (make_session ident) (\<lambda>a. scoped env a (?m a))"
    using assms(2) by (simp add: RegisterHandler_def prepare_session_def seq_assoc Let_def)
  have body: "triple (?new L A a) (?m a) (\<lambda>_. registered_as L A ?name ident) (settled L)"
    if a: "a \<in> set L" "a \<notin> snd ` set A" for a L
  proof (rule triple_seq [OF good_prepare_session [OF a]], rule triple_bind)
    show "triple (\<lambda>w. good {} L A w \<and> newcomer L A ?name ident a w)
        (UpsertClient env ?name (Some a)) (\<lambda>old. upserted {} L A ?name ident a old) (settled L)"
      by (rule triple_conseq [OF good_UpsertClient]) (auto intro: settledI)
  qed (rule after_upsert [OF assms(1)])
  show ?thesis unfolding eq
  proof (rule tripleI)
    fix w assume g: "good {} L A w"
    let ?a = "next_addr w"
    let ?w = "w\<lparr>heap := (heap w)(?a \<mapsto> new_session ident (clock w)), next_addr := Suc ?a\<rparr>"
    have h: "heap_ok (snd ` set A) (set L) (heap w) ?a" and "registry_ok A (identity_to_name w) (heap w)"
      using g by (simp_all add: good_def)
    have new: "?a \<notin> snd ` set A" "?a \<notin> set L" using h unfolding heap_ok_def by auto
    then have "registry_ok A (identity_to_name w) ((heap w)(?a \<mapsto> new_session ident (clock w)))"
      using g by (intro registry_ok_other) (simp_all add: good_def)
    then have start: "?new (?a # L) A ?a (?w\<lparr>locals := ?a # locals ?w\<rparr>)"
      using g heap_ok_alloc [OF h, of "new_session ident (clock w)"]
      by (auto simp: good_def lock_flags_def db_wf_def new_session_def)
    let ?Q = "\<lambda>A' I. (\<exists>a. A' = AList.update ?name a A) \<and> map_of (identity_to_name I) ident = Some ?name"
    have "triple (?new (?a # L) A ?a) (?m ?a)
        (\<lambda>_ w. \<exists>A'. good {} (?a # L) A' w \<and> ?Q A' (core w))
        (\<lambda>w. \<exists>A'. good {} (?a # L) A' w \<and> True)"
      by (rule triple_conseq [OF body]) (use new in \<open>auto simp: registered_as_def settled_def\<close>)
    from good_scoped [OF _ _ this, of "\<lambda>v. v = ?w"] start
    have "triple (\<lambda>v. v = ?w) (scoped env ?a (?m ?a))
        (\<lambda>_ w. \<exists>A'. good {} L A' w \<and> ?Q A' (core w)) (\<lambda>w. \<exists>A'. good {} L A' w \<and> True)"
      by simp
    from this refl show "case bind (make_session ident) (\<lambda>a. scoped env a (?m a)) w of
        (Ok x, t) \<Rightarrow> registered_as L A ?name ident t | (Throw e, t) \<Rightarrow> settled L t | (Fault x, t) \<Rightarrow> False"
      by (rule tripleE) (auto simp: make_session_def bind_def registered_as_def settled_def)
  qed
qed

lemma settled_RegisterHandler:
  assumes "keeps_entries env"
  shows "keeps (settled L) (RegisterHandler env msg ident)"
proof (cases "sender msg = []")
  case True
  then show ?thesis by (simp add: RegisterHandler_def keeps_ret)
next
  case False
  show ?thesis
    by (rule triple_settled, rule triple_conseq [OF result_RegisterHandler [OF assms False]])
       (auto intro: settled_registered_as)
qed

section \<open>Routing\<close>

lemma touch_sender_registered:
  "triple (good {} L A) (touch_sender ident)
    (\<lambda>x w. good {} L A w \<and> (\<forall>a. x = Some a \<longrightarrow> a \<in> snd ` set A)) (good {} L A)"
  unfolding touch_sender_def
proof (rule good_registry_locked)
  let ?H = "{RegistryLock}"
  let ?Q = "\<lambda>x w. good ?H L A w \<and> (\<forall>a. x = Some a \<longrightarrow> a \<in> snd ` set A)"
  have "triple (good ?H L A) (bind (ask (\<lambda>w. map_of (active_clients w) name)) (\<lambda>session_it.
     case session_it of None \<Rightarrow> ret None | Some a \<Rightarrow> seq (UpdateLastReceive a) (ret (Some a)))) ?Q
     (good ?H L A)" for name
  proof (rule triple_pre [OF triple_ask_client [where X = "\<lambda>_. True"]])
    show "triple (\<lambda>w. good ?H L A w \<and> True) (case map_of A name of None \<Rightarrow> ret None
        | Some a \<Rightarrow> seq (UpdateLastReceive a) (ret (Some a))) ?Q (good ?H L A)"
    proof (cases "map_of A name")
      case (Some a)
      have "keeps (good ?H L A) (UpdateLastReceive a)"
        using registered [OF Some] by (intro good_setters) simp
      from triple_seq [OF this triple_ret, of ?Q "Some a"] registered [OF Some]
      show ?thesis by (simp add: Some)
    qed (auto intro: triple_ret)
  qed simp
  then show "triple (good (insert RegistryLock {}) L A) (bind (ask (\<lambda>w. map_of (identity_to_name w) ident))
     (\<lambda>it. case it of None \<Rightarrow> ret None
       | Some name \<Rightarrow> bind (ask (\<lambda>w. map_of (active_clients w) name)) (\<lambda>session_it. case session_it of
           None \<Rightarrow> ret None
         | Some a \<Rightarrow> seq (UpdateLastReceive a) (ret (Some a)))))
     (\<lambda>x w. good (insert RegistryLock {}) L A w \<and> (\<forall>a. x = Some a \<longrightarrow> a \<in> snd ` set A))
     (good (insert RegistryLock {}) L A)"
    by (intro triple_bind [OF good_ask]) (auto split: option.split intro: triple_ret)
qed simp

lemma settled_Create:
  assumes "keeps_entries env" "Create t = Some handle"
  shows "keeps (settled L) (handle env msg ident)"
  using assms settled_RegisterHandler settled_UnregisterHandler
    settled_keeps [OF good_MessageHandler] settled_keeps [OF good_ReplyHandler]
    settled_keeps [OF good_AckHandler]
  by (cases t) (auto simp: Create_def)

lemma settled_RouteMessage:
  assumes "keeps_entries env"
  shows "keeps (settled L) (RouteMessage env msg ident)"
  unfolding RouteMessage_def
proof (rule triple_settled, rule triple_bind)
  fix A
  show "triple (good {} L A) (touch_sender ident)
    (\<lambda>x w. good {} L A w \<and> (\<forall>a. x = Some a \<longrightarrow> a \<in> snd ` set A)) (settled L)"
    by (rule triple_conseq [OF touch_sender_registered]) (auto intro: settledI)
  fix x
  have handle: "keeps (settled L') (case Create (msg_type msg) of None \<Rightarrow> ret ()
      | Some handle \<Rightarrow> handle env msg ident)" for L'
    by (intro keeps_option keeps_ret settled_Create [OF assms])
  show "triple (\<lambda>w. good {} L A w \<and> (\<forall>a. x = Some a \<longrightarrow> a \<in> snd ` set A)) (scoped_opt env x
      (case Create (msg_type msg) of None \<Rightarrow> ret () | Some handle \<Rightarrow> handle env msg ident))
      (\<lambda>_. settled L) (settled L)"
  proof (cases x)
    case None
    show ?thesis unfolding None scoped_opt_def option.case
      by (rule triple_pre [OF handle]) (auto intro: settledI)
  next
    case (Some a)
    show ?thesis unfolding Some scoped_opt_def option.case
      by (rule settled_scoped [OF _ handle]) (auto intro!: settledI good_scope_enter)
  qed
qed

end
