(* ===== verification/Server.thy ===== *)
theory Server
  imports Handlers
begin

text \<open>
  The server: include/server.hpp and src/server.cpp. Its handlers run on worker threads of an
  \<open>io_context\<close>; a handler is an action here, and \<open>worker\<close> is the thread function around it,
  which lets no exception out. The socket's answers to \<open>send\<close> are the environment's; \<open>wire\<close>
  lists the frames it accepted, each with its \<open>sndmore\<close> flag.
\<close>

section \<open>Sending\<close>

definition run_callback :: "(nat \<times> string) option \<Rightarrow> bool \<Rightarrow> (world, unit) action" where
  "run_callback callback success = (case callback of None \<Rightarrow> ret ()
     | Some (a, client_name) \<Rightarrow> if success then ret () else MarkOffline a)"

definition send_part :: "env \<Rightarrow> bytes \<Rightarrow> bool \<Rightarrow> (world, bool) action" where
  "send_part env frame sndmore = (\<lambda>w. let w' = w\<lparr>frames_tried := Suc (frames_tried w)\<rparr> in
     case send_frame env (frames_tried w) of
       FrameSent \<Rightarrow> (Ok True, w'\<lparr>wire := wire w @ [(frame, sndmore)]\<rparr>)
     | WouldBlock \<Rightarrow> (Ok False, w')
     | FrameError \<Rightarrow> (Throw ZmqError, w'))"

text \<open>One round of the loop of \<open>ProcessPendingSends\<close> up to the metrics: \<open>None\<close> where the code
  goes on with the next send, otherwise \<open>success\<close>.\<close>

definition process_send :: "env \<Rightarrow> PendingSend \<Rightarrow> (world, bool option) action" where
  "process_send env send = try_catch
     (bind (send_part env (map byte_of_char (ps_identity send)) True) (\<lambda>result.
      if \<not> result then seq (run_callback (ps_callback send) False) (ret None)
      else bind (send_part env [] True) (\<lambda>result.
      if \<not> result then seq (run_callback (ps_callback send) False) (ret None)
      else bind (send_part env (ps_data send) False) (\<lambda>result.
        seq (run_callback (ps_callback send) result) (ret (Some result))))))
     (\<lambda>_. seq (run_callback (ps_callback send) False) (ret (Some False)))"

fun process_sends :: "env \<Rightarrow> PendingSend list \<Rightarrow> (world, unit) action" where
  "process_sends env [] = ret ()"
| "process_sends env (send # sends) = bind (process_send env send) (\<lambda>result.
     seq (case result of None \<Rightarrow> ret ()
          | Some success \<Rightarrow> metric (if success then IncrementMessagesSent else IncrementMessagesFailed))
         (process_sends env sends))"

definition UpdateQueueMetrics :: "(world, unit) action" where
  "UpdateQueueMetrics = bind (ask metrics_manager) (\<lambda>m. if m = None then ret ()
     else pending_locked (bind (ask (\<lambda>w. length (pending_sends w)))
       (\<lambda>size. metric (SetPendingSendQueueSize size))))"

definition take_pending :: "(world, PendingSend list) action" where
  "take_pending = pending_locked (bind (ask pending_sends) (\<lambda>sends.
     seq (update (\<lambda>w. w\<lparr>pending_sends := [], sending_in_progress := sends \<noteq> []\<rparr>)) (ret sends)))"

definition ProcessPendingSends :: "env \<Rightarrow> (world, unit) action" where
  "ProcessPendingSends env = bind take_pending (\<lambda>sends.
     if sends = [] then ret ()
     else seq (process_sends env sends)
         (seq (pending_locked (seq (update (\<lambda>w. w\<lparr>sending_in_progress := False\<rparr>))
                (bind (ask pending_sends) (\<lambda>queue. if queue \<noteq> [] then ScheduleSendProcessing else ret ()))))
              UpdateQueueMetrics))"

text \<open>The task \<open>ScheduleSendProcessing\<close> posts.\<close>

definition posted_task :: "env \<Rightarrow> (world, unit) action" where
  "posted_task env = seq (update (\<lambda>w. w\<lparr>posted_sends := posted_sends w - 1\<rparr>))
     (bind (ask (\<lambda>w. running w \<and> \<not> sending_in_progress w)) (\<lambda>go.
        if go then ProcessPendingSends env else ret ()))"

section \<open>Receiving\<close>

datatype error_code = NoErrorCode | OperationAborted | OtherErrorCode

text \<open>What the socket holds when it is read: frames, or an error \<open>recv\<close> throws. At the end of
  the list \<open>recv\<close> would block.\<close>

datatype recv_item = Frame bytes | RecvError

text \<open>What \<open>router_socket_.get(zmq::sockopt::events)\<close> answers: whether \<open>ZMQ_POLLIN\<close> is set, or an error
  it throws (EINTR, ETERM). \<open>ZMQ_POLLOUT\<close> is only logged.\<close>

datatype socket_events = Events bool | EventsError

definition get_events :: "socket_events \<Rightarrow> (world, bool) action" where
  "get_events events = (case events of Events pollin \<Rightarrow> ret pollin | EventsError \<Rightarrow> throw ZmqError)"

definition process_frame :: "env \<Rightarrow> bytes \<Rightarrow> bytes \<Rightarrow> (world, unit) action" where
  "process_frame env ident data = try_catch
     (seq (metric IncrementMessagesReceived)
     (bind (of_sum (Deserialize data)) (\<lambda>msg. RouteMessage env msg (map char_of_byte ident))))
     (\<lambda>_. metric IncrementMessagesFailed)"

fun receive_loop :: "env \<Rightarrow> recv_item list \<Rightarrow> (world, unit) action" where
  "receive_loop env [] = ret ()"
| "receive_loop env (RecvError # items) = throw ZmqError"
| "receive_loop env [Frame ident] = ret ()"
| "receive_loop env (Frame ident # RecvError # items) = throw ZmqError"
| "receive_loop env (Frame ident # Frame data # items) = seq (process_frame env ident data)
     (bind (ask running) (\<lambda>go. if go then receive_loop env items else ret ()))"

text \<open>The result says whether the handler waits for the socket again.\<close>

definition OnZmqEvent :: "env \<Rightarrow> error_code \<Rightarrow> socket_events \<Rightarrow> recv_item list \<Rightarrow> (world, bool) action" where
  "OnZmqEvent env ec events items = bind (ask running) (\<lambda>go.
     if \<not> go then ret False
     else if ec = OperationAborted then ret False
     else if ec = OtherErrorCode then ask running
     else seq UpdateQueueMetrics
         (seq (ProcessPendingSends env)
         (bind (get_events events) (\<lambda>pollin.
          seq (bind (ask running) (\<lambda>go. if pollin \<and> go then receive_loop env items else ret ()))
              (ask running)))))"

section \<open>Timers and shutdown\<close>

text \<open>Whether the timer is armed.\<close>

definition SetupCleanupTimer :: "(world, bool) action" where
  "SetupCleanupTimer = ask running"

definition SetupAckTimeoutTimer :: "env \<Rightarrow> (world, bool) action" where
  "SetupAckTimeoutTimer env = ask (\<lambda>w. running w \<and> AckTimeout (config env) > 0)"

definition cleanup_timer_fires :: "env \<Rightarrow> bool \<Rightarrow> (world, bool) action" where
  "cleanup_timer_fires env ec = bind (ask running) (\<lambda>go.
     if \<not> ec \<and> go then seq (CleanupInactiveSessions env) SetupCleanupTimer else ret False)"

definition ack_timer_fires :: "env \<Rightarrow> bool \<Rightarrow> (world, bool) action" where
  "ack_timer_fires env ec = bind (ask running) (\<lambda>go.
     if \<not> ec \<and> go then seq (CheckExpiredAcks env) (SetupAckTimeoutTimer env) else ret False)"

definition Stop :: "(world, unit) action" where
  "Stop = bind (ask running) (\<lambda>was_running. if \<not> was_running then ret ()
     else seq (update (\<lambda>w. w\<lparr>running := False\<rparr>))
         (pending_locked (bind (ask pending_sends)
            (for_each (\<lambda>send. seq (run_callback (ps_callback send) False)
              (seq (update (\<lambda>w. w\<lparr>pending_sends := tl (pending_sends w)\<rparr>)) (ret True)))))))"

definition worker :: "(world, 'a) action \<Rightarrow> (world, 'a) action" where
  "worker m = no_except m"

end
