(* ===== verification/Broker_Log.thy ===== *)
theory Broker_Log
  imports Server
begin

text \<open>
  Two-state properties of the whole broker: a relation on the tables that every statement of the
  store respects is respected by every operation of the session, the router, the handlers and
  the server, because none of them touches the tables by another way. The instance is the
  message log: whatever the broker does, rows are only added, and only their status changes.
\<close>

section \<open>Relations every handler respects\<close>

text \<open>Nothing but the sessions and the registry differs: the tables, the send queue and the socket
  are as before, and there is a metrics manager or not as before.\<close>

definition same_server :: "world \<Rightarrow> world \<Rightarrow> bool" where
  "same_server s t = (database.truncate t = database.truncate s
     \<and> (metrics_manager t = None \<longleftrightarrow> metrics_manager s = None) \<and> running t = running s
     \<and> pending_sends t = pending_sends s \<and> posted_sends t = posted_sends s
     \<and> sending_in_progress t = sending_in_progress s \<and> wire t = wire s \<and> frames_tried t = frames_tried s)"

lemmas server_simps = same_server_def database.truncate_def

locale handler_relation = two_state R for R :: "world \<Rightarrow> world \<Rightarrow> bool" +
  assumes store_calls:
    "always R (SaveMessage (env :: env) m)" "always R (MarkDelivered (env :: env) i)" "always R (MarkSent (env :: env) i)"
    "always R (MarkPending (env :: env) i)" "always R (SaveCorrelation (env :: env) i c orig)" "always R (MarkAckReceived (env :: env) i orig)"
    "always R (Storage_NeedsAck (env :: env) i)" "always R (FindOriginalSenderByCorrelation (env :: env) c)"
    "always R (FindMessageIdByCorrelation (env :: env) c)" "always R (FindMessageIdByCorrelationAndDestination (env :: env) c dest)"
    "always R (LoadExpiredSent (env :: env) timeout)" "always R (LoadPendingMessagesOnly (env :: env) name)"
    "always R (LoadPendingRepliesForSenderOnly (env :: env) name)"
    and send_step: "Serialize msg = Inr data \<Longrightarrow> always R (SendToClient ident data callback)"
    and other_steps: "same_server s t \<Longrightarrow> R s t"
begin

lemma world_update: "(\<And>w. same_server w (f w)) \<Longrightarrow> always R (update f)"
  by (rule update_always) (rule other_steps)

lemma deref_R: "always R (deref a f)"
  by (simp add: always_def deref_def refl_R split: option.split)

lemma assign_R: "always R (assign a f)"
  by (simp add: always_def assign_def refl_R other_steps server_simps split: option.split)

lemma metric_R: "always R (metric f)"
  unfolding metric_def by (rule world_update) (simp_all add: server_simps)

lemma locks_R:
  assumes "always R m"
  shows "always R (queue_locked a m)" "always R (pending_locked m)" "always R (registry_locked m)"
  unfolding queue_locked_def pending_locked_def registry_locked_def
  by (intro seq_always locked_always deref_R assms other_steps; simp add: server_simps)+

lemma option_R: "always R m \<Longrightarrow> (\<And>a. always R (f a)) \<Longrightarrow> always R (case p of None \<Rightarrow> m | Some a \<Rightarrow> f a)"
  by (cases p) simp_all

lemma prod_R: "(\<And>a b. always R (f a b)) \<Longrightarrow> always R (case p of (a, b) \<Rightarrow> f a b)"
  by (cases p) simp

lemma list_R: "always R m \<Longrightarrow> (\<And>x xs. always R (f x xs)) \<Longrightarrow> always R (case q of [] \<Rightarrow> m | x # xs \<Rightarrow> f x xs)"
  by (cases q) simp_all

lemmas rules = combinators store_calls deref_R assign_R metric_R locks_R option_R prod_R list_R

subsection \<open>Sessions\<close>

lemma time_R: "always R (UpdateLastReceive a)" "always R (UpdateLastActivity a)" "always R (IsExpired a n)"
proof -
  show "always R (UpdateLastReceive a)" unfolding UpdateLastReceive_def
    by (rule at_state_always [where f = "\<lambda>c. assign a (\<lambda>s. s\<lparr>last_receive := c\<rparr>)"]) (rule assign_R)
  show "always R (UpdateLastActivity a)" unfolding UpdateLastActivity_def
    by (rule at_state_always [where f = "\<lambda>c. assign a (\<lambda>s. s\<lparr>last_activity := c\<rparr>)"]) (rule assign_R)
  have "always R (\<lambda>w. deref a (\<lambda>s. whole_seconds (clock w - last_receive s) > n) w)"
    by (rule at_state_always [where f = "\<lambda>c. deref a (\<lambda>s. whole_seconds (c - last_receive s) > n)"])
       (rule deref_R)
  then show "always R (IsExpired a n)" unfolding IsExpired_def IsOnline_def by (intro rules)
qed

lemma SendZmqMessage_R: "always R (SendZmqMessage a m)"
proof -
  have send: "always R (bind (of_sum (Serialize m)) (\<lambda>data. SendToClient ident data (Some (a, name))))" for ident name
    by (cases "Serialize m") (simp_all add: of_sum_def bind_def send_step alwaysI refl_R alwaysD [OF send_step])
  show ?thesis unfolding SendZmqMessage_def MarkOffline_def
    by (intro bind_always [OF deref_R] prod_R try_always send assign_R)
qed

lemma session_R:
  "always R (SetName a name)" "always R (SetPersistCallback a)" "always R (IsOnline a)"
  "always R (MarkOffline a)" "always R (MarkOnline a)" "always R (GetQueueSize a)"
  "always R (SendZmqMessage a m)" "always R (make_session ident)"
  unfolding SetName_def SetPersistCallback_def IsOnline_def MarkOffline_def MarkOnline_def GetQueueSize_def
  by (intro rules SendZmqMessage_R)+
     (simp add: make_session_def always_def other_steps server_simps)

lemma persist_rounds_R: "always R (persist_rounds env a n)"
proof (induction n)
  case (Suc n)
  show ?case unfolding persist_rounds.simps PersistMessageForClient_def by (intro rules Suc.IH)
qed (simp only: persist_rounds.simps ret_always)

lemma flush_rounds_R: "always R (flush_rounds a n)"
proof (induction n)
  case (Suc n)
  show ?case unfolding flush_rounds.simps by (intro rules session_R Suc.IH)
qed (simp only: flush_rounds.simps ret_always)

lemma queue_R: "always R (PersistQueueToDatabase env a)" "always R (EnqueueMessage env a m)"
  "always R (FlushQueue a)"
  unfolding PersistQueueToDatabase_def EnqueueMessage_def FlushQueue_def
  by (intro rules persist_rounds_R flush_rounds_R)+

lemma SendMessage_R: "always R (SendMessage env a m)"
  unfolding SendMessage_def by (intro rules time_R session_R queue_R)

lemma collect_R: "always R (collect env a)"
  unfolding collect_def Session_destructor_def
  by (intro rules queue_R world_update) (simp_all add: server_simps)

lemma scoped_R: "always R m \<Longrightarrow> always R (scoped env a m)" "always R m \<Longrightarrow> always R (scoped_opt env p m)"
proof -
  show "always R (scoped env a m)" if "always R m" for a
    unfolding scoped_def by (intro rules collect_R world_update that; simp add: server_simps)
  then show "always R m \<Longrightarrow> always R (scoped_opt env p m)"
    by (cases p) (simp_all add: scoped_opt_def)
qed

lemmas session_rules = rules time_R session_R queue_R SendMessage_R collect_R scoped_R

subsection \<open>Router and handlers\<close>

lemma router_R:
  "always R (FindSession name)" "always R (lookup_client name)" "always R (UpsertClient env name p)"
  "always R (UnregisterClient env name)" "always R (PrintActiveClients env)"
  "always R (DeliverOfflineMessages env name)" "always R (DeliverPendingReplies env name)"
  unfolding FindSession_def lookup_client_def UpsertClient_def retire_session_def install_session_def
    registration_metrics_def UnregisterClient_def PrintActiveClients_def DeliverOfflineMessages_def
    deliver_pending_def deliver_one_def DeliverPendingReplies_def deliver_replies_def deliver_one_reply_def
  by (intro session_rules world_update; simp add: server_simps)+

lemma inactive_names_R: "always R (inactive_names env clients)"
proof (induction clients)
  case (Cons c clients)
  then show ?case by (cases c) (simp only: inactive_names.simps, intro session_rules)
qed (simp only: inactive_names.simps ret_always)

lemma timers_R: "always R (CleanupInactiveSessions env)" "always R (CheckExpiredAcks env)"
  unfolding CleanupInactiveSessions_def remove_inactive_def UpdateSessionMetrics_def CheckExpiredAcks_def
    retry_expired_def find_online_def retry_send_def Let_def
  by (intro session_rules inactive_names_R world_update; simp add: server_simps)+

lemma handlers_R:
  "always R (RegisterHandler env msg ident)" "always R (UnregisterHandler env msg)"
  "always R (MessageHandler env msg)" "always R (ReplyHandler env msg)" "always R (AckHandler env msg)"
  unfolding RegisterHandler_def UnregisterHandler_def MessageHandler_def save_first_def send_saved_def
    roll_back_def ReplyHandler_def save_reply_def send_reply_def AckHandler_def notify_original_sender_def Let_def
  by (intro session_rules router_R)+

lemma RouteMessage_R: "always R (RouteMessage env msg ident)"
proof -
  have "always R (case Create (msg_type msg) of None \<Rightarrow> ret () | Some handle \<Rightarrow> handle env msg ident)"
    by (cases "msg_type msg") (simp_all add: Create_def handlers_R ret_always)
  moreover have "always R (touch_sender ident)" unfolding touch_sender_def by (intro session_rules)
  ultimately show ?thesis unfolding RouteMessage_def by (intro bind_always scoped_R(2))
qed

subsection \<open>Receiving and the timers\<close>

lemma run_callback_R: "always R (run_callback c ok)"
  unfolding run_callback_def by (intro session_rules)

lemma get_events_R: "always R (get_events events)"
  by (cases events) (simp_all add: get_events_def ret_always throw_always)

lemma receive_loop_R: "always R (receive_loop env items)"
proof (induction env items rule: receive_loop.induct)
  case (5 env ident data items)
  have "always R (process_frame env ident data)"
    unfolding process_frame_def by (intro session_rules RouteMessage_R)
  moreover have "always R (receive_loop env items)" using 5 [of True] by simp
  ultimately show ?case unfolding receive_loop.simps by (intro session_rules)
qed (simp_all only: receive_loop.simps ret_always throw_always)

lemma timer_R: "always R (cleanup_timer_fires env err)" "always R (ack_timer_fires env err)"
  unfolding cleanup_timer_fires_def ack_timer_fires_def SetupCleanupTimer_def SetupAckTimeoutTimer_def
  by (intro session_rules timers_R)+

end

section \<open>Relations the server respects as well\<close>

locale world_relation = two_state R for R :: "world \<Rightarrow> world \<Rightarrow> bool" +
  assumes store_steps:
    "always R (SaveMessage (env :: env) m)" "always R (MarkDelivered (env :: env) i)" "always R (MarkSent (env :: env) i)"
    "always R (MarkPending (env :: env) i)" "always R (SaveCorrelation (env :: env) i c orig)" "always R (MarkAckReceived (env :: env) i orig)"
    "always R (Storage_NeedsAck (env :: env) i)" "always R (FindOriginalSenderByCorrelation (env :: env) c)"
    "always R (FindMessageIdByCorrelation (env :: env) c)" "always R (FindMessageIdByCorrelationAndDestination (env :: env) c dest)"
    "always R (LoadExpiredSent (env :: env) timeout)" "always R (LoadPendingMessagesOnly (env :: env) name)"
    "always R (LoadPendingRepliesForSenderOnly (env :: env) name)"
    and all_steps: "database.truncate t = database.truncate s
      \<Longrightarrow> metrics_manager t = None \<longleftrightarrow> metrics_manager s = None \<Longrightarrow> R s t"

sublocale world_relation \<subseteq> handler_relation
proof unfold_locales
  show "always R (SendToClient ident data callback)" for ident data callback
    unfolding SendToClient_def ScheduleSendProcessing_def pending_locked_def
    by (intro combinators locked_always update_always all_steps) (simp_all add: database.truncate_def)
qed (rule store_steps | simp add: all_steps same_server_def)+

context world_relation
begin

lemma server_update:
  "(\<And>w. database.truncate (f w) = database.truncate w) \<Longrightarrow> (\<And>w. metrics_manager (f w) = None \<longleftrightarrow> metrics_manager w = None)
    \<Longrightarrow> always R (update f)"
  by (rule update_always) (rule all_steps)

lemma send_part_R: "always R (send_part env frame sndmore)"
  by (simp add: always_def send_part_def Let_def all_steps database.truncate_def split: frame_result.split)

lemma process_sends_R: "always R (process_sends env sends)"
proof (induction sends)
  case (Cons send sends)
  show ?case unfolding process_sends.simps process_send_def
    by (intro session_rules run_callback_R send_part_R Cons.IH)
qed (simp only: process_sends.simps ret_always)

lemma sends_R: "always R (ProcessPendingSends env)" "always R UpdateQueueMetrics" "always R (posted_task env)"
proof -
  show q: "always R UpdateQueueMetrics" unfolding UpdateQueueMetrics_def by (intro session_rules)
  show p: "always R (ProcessPendingSends env)"
    unfolding ProcessPendingSends_def take_pending_def ScheduleSendProcessing_def
    by (intro session_rules process_sends_R q server_update; simp add: database.truncate_def)
  show "always R (posted_task env)" unfolding posted_task_def
    by (intro session_rules p server_update; simp add: database.truncate_def)
qed

lemma server_R: "always R (OnZmqEvent env ec events items)" "always R Stop"
  unfolding OnZmqEvent_def Stop_def
  by (intro session_rules sends_R get_events_R receive_loop_R run_callback_R server_update;
      simp add: database.truncate_def)+

end

text \<open>A relation that only reads the tables is one that every statement respects.\<close>

locale world_two_state = db_two_state R for R :: "world \<Rightarrow> world \<Rightarrow> bool" +
  assumes same_tables: "database.truncate t = database.truncate s \<Longrightarrow> R s t"

sublocale world_two_state \<subseteq> world_relation
  by unfold_locales (rule storage_R same_tables, assumption?)+

interpretation world_log: world_two_state "log_extends :: world \<Rightarrow> world \<Rightarrow> bool"
  by unfold_locales (auto simp: database.truncate_def database.defs intro: log_extends_same)

text \<open>Row ids are never given twice.\<close>

definition ids_grow :: "'z database_scheme \<Rightarrow> 'z database_scheme \<Rightarrow> bool" where
  "ids_grow s t = (seq_messages s \<le> seq_messages t \<and> seq_correlations s \<le> seq_correlations t)"

interpretation world_ids: world_two_state "ids_grow :: world \<Rightarrow> world \<Rightarrow> bool"
  by unfold_locales (auto simp: ids_grow_def database.truncate_def database.defs sql_insert_message_def
      sql_update_delivered_def sql_update_status_def sql_insert_correlation_def sql_delete_correlation_def
      split: if_splits)

text \<open>The metrics manager is created once and never dropped.\<close>

definition same_metrics :: "world \<Rightarrow> world \<Rightarrow> bool" where
  "same_metrics s t = (metrics_manager t = None \<longleftrightarrow> metrics_manager s = None)"

lemma same_metrics_store:
  assumes "always (\<lambda>s t. database.more t = database.more s) (m :: (world, 'a) action)"
  shows "always same_metrics m"
  using assms by (rule always_mono) (drule world_frame(9), simp add: same_metrics_def)

interpretation world_metrics: world_relation same_metrics
  by unfold_locales (rule frame.storage_R [THEN same_metrics_store] | simp add: same_metrics_def)+

end
