(* ===== verification/Store_Properties.thy ===== *)
theory Store_Properties
  imports Storage_Queries
begin

text \<open>
  The properties of the store over its abstract map, each with a concrete database on which its
  hypotheses hold.
\<close>

section \<open>A concrete store\<close>

definition plain_sqlite :: sqlite where
  "plain_sqlite = \<lparr>step_ok = (\<lambda>_. True), sqlite_errmsg = (\<lambda>_. ''disk I/O error''), wall_clock = int, order_mrows = (\<lambda>_. sort_key row_created),
     order_crows = (\<lambda>_. sort_key (\<lambda>c. - cr_created c)),
     order_joined = (\<lambda>_. sort_key (\<lambda>p. - cr_created (snd p)))\<rparr>"

lemma sorted_rev_uminus: "sorted (map (\<lambda>x. - f x) xs) \<Longrightarrow> sorted (rev (map f xs))" for f :: "'a \<Rightarrow> int"
  by (induction xs) (auto simp: sorted_append)

lemma plain_orders: "sqlite_orders plain_sqlite"
  unfolding sqlite_orders_def plain_sqlite_def by (auto simp: comp_def intro: sorted_rev_uminus)

definition ask_al :: message where
  "ask_al = \<lparr>msg_type = Message, flags = FlagNeedsAck, correlation_id = 7, sender = ''al'',
     destination = ''bob'', payload = [1]\<rparr>"

definition answer_bob :: message where
  "answer_bob = \<lparr>msg_type = Reply, flags = FlagNone, correlation_id = 7, sender = ''bob'',
     destination = ''al'', payload = [2]\<rparr>"

text \<open>Three rows: a pending message, one waiting for its acknowledgement and a pending reply.\<close>

definition sample_db :: database where
  "sample_db = empty_database\<lparr>messages := [row_of_message ask_al STATUS_PENDING 1 0,
       row_of_message ask_al STATUS_SENT 2 0, row_of_message answer_bob STATUS_PENDING 3 50],
     seq_messages := 3, correlations := [\<lparr>cr_id = 1, cr_message_id = 2, cr_corr = 7, cr_sender = ''al'',
       cr_created = 0\<rparr>], seq_correlations := 1, db_tick := 99\<rparr>"

lemma sample_ready: "ready sample_db" "ready empty_database"
  using db_wf_empty
  by (simp_all add: ready_def db_wf_def sample_db_def empty_database_def column_ok_row_of_message MAX_ROWID_def)

lemma sample_names: "stored_form ask_al = ask_al" "stored_form answer_bob = answer_bob"
  by (simp_all add: stored_form_def ask_al_def answer_bob_def c_str_def)

lemma sample_rows:
  "message_of_row (row_of_message ask_al st i now) = ask_al"
  "message_of_row (row_of_message answer_bob st i now) = answer_bob"
proof -
  have "proper_type (msg_type ask_al)" "proper_type (msg_type answer_bob)"
    by (simp_all add: ask_al_def answer_bob_def)
  then show "message_of_row (row_of_message ask_al st i now) = ask_al"
    "message_of_row (row_of_message answer_bob st i now) = answer_bob"
    by (simp_all only: message_of_row_of_message sample_names)
qed

lemma sample_stored:
  "stored sample_db 1 = Some (ask_al, STATUS_PENDING)" "stored sample_db 2 = Some (ask_al, STATUS_SENT)"
  "stored sample_db 3 = Some (answer_bob, STATUS_PENDING)"
  by (simp_all add: stored_def sample_db_def sample_rows column_int64_def)

section \<open>Saving and marking\<close>

text \<open>C39. Saving a message: it gets a fresh non-zero id under which the store holds it as PENDING
  (its names cut at the first NUL byte), every other message stays as it is, and the tables keep
  their invariant; when SQLite fails the save throws and the store holds what it held. There is
  no third outcome.\<close>

theorem save_message:
  assumes "ready db" "proper_type (msg_type m)"
  shows "case SaveMessage env m db of
      (Ok i, t) \<Rightarrow> ready t \<and> i \<noteq> 0 \<and> stored db i = None
        \<and> stored t = (stored db)(i \<mapsto> (stored_form m, STATUS_PENDING))
    | (Throw e, t) \<Rightarrow> ready t \<and> stored t = stored db
    | (Fault x, t) \<Rightarrow> False"
  using ready_SaveMessage [OF assms(1), of env m] store_total(1) [OF assms(1), of env m]
    stored_SaveMessage [OF assms] stored_throw(1) [OF assms(1)]
  by (auto split: prod.split outcome.split)

theorem save_message_witness:
  "case SaveMessage plain_sqlite ask_al empty_database of
      (Ok i, t) \<Rightarrow> ready t \<and> i \<noteq> 0 \<and> stored empty_database i = None
        \<and> stored t = (stored empty_database)(i \<mapsto> (stored_form ask_al, STATUS_PENDING))
    | (Throw e, t) \<Rightarrow> ready t \<and> stored t = stored empty_database
    | (Fault x, t) \<Rightarrow> False"
  by (rule save_message [OF sample_ready(2)]) (simp add: ask_al_def)

text \<open>What a status change promises of the abstract map.\<close>

definition changes_status :: "(MessageStatus \<Rightarrow> MessageStatus) \<Rightarrow> u64
    \<Rightarrow> ('z database_scheme, unit) action \<Rightarrow> 'z database_scheme \<Rightarrow> bool" where
  "changes_status next i op db = (case op db of
      (Ok u, t) \<Rightarrow> ready t \<and> stored t = (stored db)(i := map_option (\<lambda>(m, old). (m, next old)) (stored db i))
    | (Throw e, t) \<Rightarrow> ready t \<and> stored t = stored db
    | (Fault x, t) \<Rightarrow> False)"

lemma mark_as_changes:
  assumes "ready db"
  shows "changes_status (next_status new) i (mark_as env new i) db"
proof -
  obtain r t where rt: "mark_as env new i db = (r, t)" by (cases "mark_as env new i db")
  note ready = ready_mark_as [OF assms, of env new i, unfolded rt snd_conv]
  show ?thesis
  proof (cases r)
    case (Ok u)
    from ready stored_mark_as [OF assms rt [unfolded Ok]] show ?thesis
      unfolding changes_status_def rt Ok by simp
  next
    case (Throw e)
    from ready stored_throw(2) [OF assms rt [unfolded Throw]] show ?thesis
      unfolding changes_status_def rt Throw by simp
  next
    case (Fault x)
    then show ?thesis using store_total(2) [OF assms, of env new i] rt by simp
  qed
qed

lemma next_statuses:
  "next_status STATUS_DELIVERED = (\<lambda>old. STATUS_DELIVERED)"
  "next_status STATUS_SENT = (\<lambda>old. if old = STATUS_PENDING then STATUS_SENT else old)"
  "next_status STATUS_PENDING = (\<lambda>old. if old = STATUS_SENT then STATUS_PENDING else old)"
  by (simp_all add: fun_eq_iff)

text \<open>C40. The three status changes: \<open>MarkDelivered\<close> delivers from any status, \<open>MarkSent\<close> moves a
  PENDING message only and \<open>MarkPending\<close> a SENT one only; the message itself and all others are
  untouched, an unknown id changes nothing, and a failure throws and changes nothing.\<close>

theorem mark_statuses:
  assumes "ready db"
  shows "changes_status (\<lambda>old. STATUS_DELIVERED) i (MarkDelivered env i) db
    \<and> changes_status (\<lambda>old. if old = STATUS_PENDING then STATUS_SENT else old) i (MarkSent env i) db
    \<and> changes_status (\<lambda>old. if old = STATUS_SENT then STATUS_PENDING else old) i (MarkPending env i) db"
  using mark_as_changes [OF assms, of STATUS_DELIVERED i env] mark_as_changes [OF assms, of STATUS_SENT i env]
    mark_as_changes [OF assms, of STATUS_PENDING i env]
  by (simp only: next_statuses mark_as.simps)

theorem mark_statuses_witness:
  "changes_status (\<lambda>old. if old = STATUS_PENDING then STATUS_SENT else old) 1 (MarkSent plain_sqlite 1) sample_db"
  using mark_statuses [OF sample_ready(1), of 1 plain_sqlite] by simp

text \<open>Whatever sequence of saves and status changes runs, whichever of them SQLite refuses, a
  message once stored keeps its id and its content, and once delivered it stays delivered.\<close>

theorem calls_keep_messages:
  assumes "ready db" "\<forall>m. Save m \<in> set cs \<longrightarrow> proper_type (msg_type m)" "stored db i = Some (m, st)"
  shows "\<exists>st'. stored (run_calls (SaveMessage env) (mark_as env) cs db) i = Some (m, st')
    \<and> (st = STATUS_DELIVERED \<longrightarrow> st' = STATUS_DELIVERED)"
  using store.run_calls_keep [OF assms] by blast

theorem calls_keep_messages_witness:
  "\<exists>st'. stored (run_calls (SaveMessage plain_sqlite) (mark_as plain_sqlite)
      [Mark STATUS_SENT 1, Save answer_bob, Mark STATUS_PENDING 2] sample_db) 1 = Some (ask_al, st')"
  using calls_keep_messages [OF sample_ready(1) _ sample_stored(1), of
      "[Mark STATUS_SENT 1, Save answer_bob, Mark STATUS_PENDING 2]" plain_sqlite]
  by (auto simp: answer_bob_def)

text \<open>The retry cycle: a PENDING message that is marked SENT and, its acknowledgement missing,
  marked PENDING again leaves the store exactly as it was, so it is delivered again.\<close>

theorem sent_then_expired:
  assumes "ready db" "stored db i = Some (m, STATUS_PENDING)"
    and "MarkSent env i db = (Ok (), t)" "MarkPending env i t = (Ok (), u)"
  shows "stored t i = Some (m, STATUS_SENT) \<and> stored u = stored db"
  using store.retry_cycle [OF assms(1,2), of env "()" t "()" u] assms(3,4) by simp

theorem sent_then_expired_witness:
  "stored (snd (MarkSent plain_sqlite 1 sample_db)) 1 = Some (ask_al, STATUS_SENT)
   \<and> stored (snd (MarkPending plain_sqlite 1 (snd (MarkSent plain_sqlite 1 sample_db)))) = stored sample_db"
  by (rule sent_then_expired [OF sample_ready(1) sample_stored(1), where env = plain_sqlite])
     (simp_all add: MarkSent_apply MarkPending_apply sample_db_def empty_database_def plain_sqlite_def)

section \<open>The loads\<close>

definition id_and_message :: "PendingMessage list \<Rightarrow> (u64 \<times> message) set" where
  "id_and_message ps = (\<lambda>p. (pm_id p, pm_msg p)) ` set ps"

text \<open>The creation time of a stored message.\<close>

definition created_at :: "'z database_scheme \<Rightarrow> u64 \<Rightarrow> int" where
  "created_at db i = the (map_of (map (\<lambda>r. (column_int64 (row_id r), row_created r)) (messages db)) i)"

lemma created_at_row:
  assumes "ready db" "r \<in> set (messages db)"
  shows "created_at db (column_int64 (row_id r)) = row_created r"
proof -
  have "distinct (map fst (map (\<lambda>r. (column_int64 (row_id r), row_created r)) (messages db)))"
    using distinct_columns [OF assms(1)] by (simp add: comp_def)
  then show ?thesis unfolding created_at_def
    by (subst map_of_is_SomeI [of _ _ "row_created r"]) (use assms(2) in auto)
qed

text \<open>\<open>loads env op Q db\<close>: \<open>op\<close> returns each stored message that \<open>Q\<close> selects exactly once, oldest
  first, and changes nothing.\<close>

definition loads :: "('z database_scheme, PendingMessage list) action
    \<Rightarrow> (u64 \<Rightarrow> message \<Rightarrow> MessageStatus \<Rightarrow> bool) \<Rightarrow> 'z database_scheme \<Rightarrow> bool" where
  "loads op Q db = (case op db of
      (Ok ps, t) \<Rightarrow> id_and_message ps = {(i, m). \<exists>st. stored db i = Some (m, st) \<and> Q i m st}
        \<and> distinct (map pm_id ps) \<and> sorted (map (created_at db \<circ> pm_id) ps)
        \<and> t = db\<lparr>db_tick := db_tick t\<rparr>
    | _ \<Rightarrow> False)"

lemma loads_rows:
  assumes r: "ready db" and op: "op db = (Ok (map pending_of_row rows), db\<lparr>db_tick := n\<rparr>)"
    and rows: "sorted (map row_created rows)" "distinct rows" "set rows = {x \<in> set (messages db). P x}"
    and Q: "\<And>x. x \<in> set (messages db) \<Longrightarrow> P x \<longleftrightarrow> Q (column_int64 (row_id x)) (message_of_row x) (row_status x)"
  shows "loads op Q db"
proof -
  have "map (created_at db \<circ> pm_id) (map pending_of_row rows) = map row_created rows"
    using created_at_row [OF r] rows(3) by simp
  moreover have "distinct (map pm_id (map pending_of_row rows))"
    by (rule distinct_pending [OF r rows(2)]) (use rows(3) in auto)
  moreover have "id_and_message (map pending_of_row rows) = {(i, m). \<exists>st. stored db i = Some (m, st) \<and> Q i m st}"
    unfolding id_and_message_def by (rule pending_rows_view [OF r rows(3) Q])
  ultimately show ?thesis using rows(1)
    unfolding loads_def op by (simp del: map_map)
qed

text \<open>\<open>LoadPendingMessagesOnly\<close> returns each PENDING message for the client that is not a
  reply, exactly once, oldest first, and nothing else; the store is left as it was.\<close>

theorem pending_messages_exact:
  assumes "ready db" "sqlite_orders env" "\<And>n. step_ok env n"
  shows "loads (LoadPendingMessagesOnly env name)
    (\<lambda>i m st. st = STATUS_PENDING \<and> destination m = c_str name \<and> msg_type m \<noteq> Reply) db"
proof (rule load_pending [OF assms, of name])
  fix rows
  assume "LoadPendingMessagesOnly env name db =
       (Ok (map pending_of_row rows), db\<lparr>db_tick := Suc (db_tick db + length rows)\<rparr>)"
    "sorted (map row_created rows)" "distinct rows"
    "set rows = {x \<in> set (messages db). row_dest x = c_str name \<and> row_status x = STATUS_PENDING
       \<and> row_type x \<noteq> uint (type_byte Reply)}"
  then show ?thesis by (rule loads_rows [OF assms(1)]) (auto simp: row_columns [OF assms(1)])
qed

lemma plain_steps: "step_ok plain_sqlite n"
  by (simp add: plain_sqlite_def)

theorem pending_messages_exact_witness:
  "loads (LoadPendingMessagesOnly plain_sqlite ''bob'')
    (\<lambda>i m st. st = STATUS_PENDING \<and> destination m = c_str ''bob'' \<and> msg_type m \<noteq> Reply) sample_db"
  by (rule pending_messages_exact [OF sample_ready(1) plain_orders plain_steps])

text \<open>\<open>LoadExpiredSent\<close> returns each SENT message created more than the timeout ago, exactly
  once, oldest first, and nothing else. The age counts from the creation of the message, not
  from the moment it was sent.\<close>

theorem expired_sent_exact:
  assumes "ready db" "sqlite_orders env" "\<And>n. step_ok env n"
  shows "loads (LoadExpiredSent env timeout)
    (\<lambda>i m st. st = STATUS_SENT \<and> wall_clock env (db_tick db) - created_at db i > timeout) db"
proof (rule load_expired [OF assms, of timeout])
  fix rows
  assume "LoadExpiredSent env timeout db =
       (Ok (map pending_of_row rows), db\<lparr>db_tick := Suc (db_tick db + length rows)\<rparr>)"
    "sorted (map row_created rows)" "distinct rows"
    "set rows = {x \<in> set (messages db). row_status x = STATUS_SENT
       \<and> wall_clock env (db_tick db) - row_created x > timeout}"
  then show ?thesis by (rule loads_rows [OF assms(1)]) (auto simp: created_at_row [OF assms(1)])
qed

theorem expired_sent_exact_witness:
  "loads (LoadExpiredSent plain_sqlite 30)
    (\<lambda>i m st. st = STATUS_SENT \<and> wall_clock plain_sqlite (db_tick sample_db) - created_at sample_db i > 30)
    sample_db"
  by (rule expired_sent_exact [OF sample_ready(1) plain_orders plain_steps])

text \<open>\<open>LoadPendingRepliesForSenderOnly\<close> returns each reply, PENDING or SENT, whose correlation
  id is recorded for the client as original sender, exactly once although several correlations
  may match, oldest first, and nothing else.\<close>

theorem pending_replies_exact:
  assumes "ready db" "sqlite_orders env" "\<And>n. step_ok env n"
  shows "loads (LoadPendingRepliesForSenderOnly env name)
    (\<lambda>i m st. st \<noteq> STATUS_DELIVERED \<and> msg_type m = Reply
       \<and> (bind_int64 (correlation_id m), c_str name) \<in> (\<lambda>c. (cr_corr c, cr_sender c)) ` set (correlations db)) db"
proof (rule load_replies [OF assms, of name])
  fix rows
  assume "LoadPendingRepliesForSenderOnly env name db =
       (Ok (map pending_of_row rows), db\<lparr>db_tick := Suc (db_tick db + length rows)\<rparr>)"
    "sorted (map row_created rows)" "distinct rows"
    "set rows = {x \<in> set (messages db). row_status x \<noteq> STATUS_DELIVERED
      \<and> row_type x = uint (type_byte Reply)
      \<and> (\<exists>c \<in> set (correlations db). cr_corr c = row_corr x \<and> cr_sender c = c_str name)}"
  then show ?thesis
    by (rule loads_rows [OF assms(1)]) (force simp: row_columns [OF assms(1)] image_iff)
qed

theorem pending_replies_exact_witness:
  "loads (LoadPendingRepliesForSenderOnly plain_sqlite ''al'')
    (\<lambda>i m st. st \<noteq> STATUS_DELIVERED \<and> msg_type m = Reply
       \<and> (bind_int64 (correlation_id m), c_str ''al'') \<in> (\<lambda>c. (cr_corr c, cr_sender c)) ` set (correlations sample_db))
    sample_db"
  by (rule pending_replies_exact [OF sample_ready(1) plain_orders plain_steps])

section \<open>Correlations\<close>

lemma newest_first:
  assumes "sqlite_orders env" "q \<noteq> SelectOriginalSenderByMsgId" "c \<in> set cs"
    and "\<And>x. x \<in> set cs \<Longrightarrow> x \<noteq> c \<Longrightarrow> cr_created x < cr_created c"
  shows "\<exists>rest. order_crows env q cs = c # rest"
proof (cases "order_crows env q cs")
  case Nil
  then show ?thesis using sqlite_orders_set(2) [OF assms(1), of q cs] assms(3) by simp
next
  case (Cons x rest)
  have "sorted (rev (map cr_created (x # rest)))"
    using assms(1,2) Cons by (metis sqlite_orders_def)
  moreover have "set (x # rest) = set cs" using sqlite_orders_set(2) [OF assms(1), of q cs] Cons by simp
  ultimately have "x = c" using assms(3) assms(4) [of x] by (fastforce simp: sorted_append)
  then show ?thesis using Cons by simp
qed

text \<open>A correlation that was saved routes the answer: with every earlier record of the
  correlation id older, \<open>FindOriginalSenderByCorrelation\<close> gives the saved sender and
  \<open>FindMessageIdByCorrelation\<close> the saved message, and a correlation saved again for the same
  sender replaces the old record.\<close>

theorem correlation_found:
  assumes "ready db" "sqlite_orders env" "\<And>n. step_ok env n"
    and "\<And>c. c \<in> set (correlations db) \<Longrightarrow> cr_corr c = bind_int64 corr \<Longrightarrow> cr_created c < wall_clock env (db_tick db)"
    and "SaveCorrelation env i corr orig db = (Ok (), t)"
  shows "fst (FindOriginalSenderByCorrelation env corr t) = Ok (c_str orig)
    \<and> fst (FindMessageIdByCorrelation env corr t) = Ok i
    \<and> {c \<in> set (correlations t). cr_corr c = bind_int64 corr \<and> cr_sender c = c_str orig}
       = {\<lparr>cr_id = seq_correlations t, cr_message_id = bind_int64 i, cr_corr = bind_int64 corr,
           cr_sender = c_str orig, cr_created = wall_clock env (db_tick db)\<rparr>}"
proof -
  let ?new = "\<lparr>cr_id = seq_correlations db + 1, cr_message_id = bind_int64 i, cr_corr = bind_int64 corr,
     cr_sender = c_str orig, cr_created = wall_clock env (db_tick db)\<rparr>"
  have t: "correlations t = filter (\<lambda>x. \<not> (cr_corr x = bind_int64 corr \<and> cr_sender x = c_str orig))
      (correlations db) @ [?new]" "\<not> db_mutex t" "seq_correlations t = seq_correlations db + 1"
    using assms(5) readyD(2) [OF assms(1)] by (auto simp: SaveCorrelation_apply split: if_splits)
  have "\<exists>rest. sql_select_by_corr env q (bind_int64 corr) t = ?new # rest"
    if "q \<noteq> SelectOriginalSenderByMsgId" for q
    unfolding sql_select_by_corr_def by (rule newest_first [OF assms(2) that]) (auto simp: t assms(4))
  from this [of SelectOriginalSender] this [of SelectMessageIdByCorr]
  show ?thesis using t assms(3) by (auto simp: reads_apply)
qed

theorem correlation_found_witness:
  "fst (FindOriginalSenderByCorrelation plain_sqlite 7 (snd (SaveCorrelation plain_sqlite 3 7 ''al'' sample_db)))
    = Ok (c_str ''al'')"
  using correlation_found [OF sample_ready(1) plain_orders plain_steps, of 7 3 "''al''"]
  by (simp add: SaveCorrelation_apply sample_db_def empty_database_def plain_sqlite_def bind_int64_def
      MAX_ROWID_def)

end
