(* ===== verification/Scenario.thy ===== *)
theory Scenario
  imports Handler_Facts Broker_Log Store_Properties
begin

text \<open>
  Concrete broker states, computed from the model: an empty broker, one with the client
  \<open>bob\<close> registered from the connection \<open>X\<close>, and the rules that evaluate an operation on such a
  state.
\<close>

section \<open>Evaluation rules\<close>

lemmas run_session = scoped_def scoped_opt_def collect_def Session_destructor_def no_except_def
  make_session_def new_session_def SetName_def SetPersistCallback_def IsOnline_def MarkOffline_def
  MarkOnline_def UpdateLastReceive_def UpdateLastActivity_def IsExpired_def GetQueueSize_def
  PersistQueueToDatabase_def EnqueueMessage_def SendZmqMessage_def SendMessage_def FlushQueue_def
  PersistMessageForClient_def SendToClient_def ScheduleSendProcessing_def deref_def assign_def
  queue_locked_def pending_locked_def registry_locked_def metric_def locked_def bind_def seq_def
  try_catch_def of_sum_def

lemmas run_router = lookup_client_def FindSession_def UpsertClient_def retire_session_def
  install_session_def registration_metrics_def UnregisterClient_def PrintActiveClients_def
  DeliverOfflineMessages_def deliver_pending_def deliver_one_def DeliverPendingReplies_def
  deliver_replies_def deliver_one_reply_def

lemmas run_handlers = RegisterHandler_def UnregisterHandler_def MessageHandler_def save_first_def
  send_saved_def roll_back_def save_reply_def send_reply_def ReplyHandler_def AckHandler_def
  notify_original_sender_def touch_sender_def RouteMessage_def Create_def Let_def

lemmas run_store = SaveMessage_apply MarkDelivered_apply MarkSent_apply MarkPending_apply
  SaveCorrelation_apply reads_apply loads_apply bump_tick_def sql_select_pending_messages_def
  sql_select_pending_replies_def

lemmas run_rules = run_session run_router run_handlers run_store

section \<open>An environment and its broker\<close>

definition demo_env :: env where
  "demo_env = \<lparr>step_ok = (\<lambda>_. True), sqlite_errmsg = (\<lambda>_. ''disk I/O error''), wall_clock = int, order_mrows = (\<lambda>_. sort_key row_created),
     order_crows = (\<lambda>_. sort_key (\<lambda>c. - cr_created c)),
     order_joined = (\<lambda>_. sort_key (\<lambda>p. - cr_created (snd p))), send_frame = (\<lambda>_. FrameSent),
     map_order = (\<lambda>xs. xs), config = default_config\<rparr>"

lemma demo_orders: "sqlite_orders demo_env" "keeps_entries demo_env" "step_ok demo_env n"
  unfolding sqlite_orders_def keeps_entries_def demo_env_def
  by (auto simp: comp_def intro: sorted_rev_uminus)

lemma settled_boot: "ready db \<Longrightarrow> settled [] (boot db)"
  using good_boot by (auto simp: settled_def ready_def)

definition hello_bob :: message where
  "hello_bob = default_message\<lparr>msg_type := Register, sender := ''bob''\<rparr>"

definition bob_session :: session where
  "bob_session = \<lparr>identity = ''X'', session_name = ''bob'', is_online = True, outgoing_queue = [],
     queue_mutex = False, last_receive = 0, last_activity = 0, persist_callback = True\<rparr>"

definition bob_world :: world where
  "bob_world = (boot empty_database)\<lparr>db_tick := 2,
     metrics_manager := Some (zero_metrics\<lparr>clients_registered := 1, active_sessions := 1\<rparr>),
     heap := [0 \<mapsto> bob_session], next_addr := 1, active_clients := [(''bob'', 0)],
     identity_to_name := [(''X'', ''bob'')]\<rparr>"

lemma run_hello: "RouteMessage demo_env hello_bob ''X'' (boot empty_database) = (Ok (), bob_world)"
  by (simp add: run_rules boot_def empty_database_def demo_env_def hello_bob_def bob_world_def
      bob_session_def default_message_def IncrementClientsRegistered_def SetActiveSessions_def
      zero_metrics_def)

lemma settled_bob: "settled [] bob_world"
  using settled_RouteMessage [OF demo_orders(2)] settled_boot [OF sample_ready(2)] run_hello
  by (rule keeps_Ok)

text \<open>\<open>al\<close> writes to \<open>bob\<close> and asks for an acknowledgement.\<close>

lemma ask_al_frame: "Serialize ask_al = Inr (wire_format ask_al)"
  by (rule Serialize_fits) (simp add: fits_frame_def ask_al_def)

lemma bob_world_sel [simp]:
  "active_clients bob_world = [(''bob'', 0)]" "heap bob_world 0 = Some bob_session"
  "is_online bob_session" "pending_sends bob_world = []" "seq_messages bob_world = 0"
  "seq_correlations bob_world = 0" "messages bob_world = []" "correlations bob_world = []"
  "identity_to_name bob_world = [(''X'', ''bob'')]" "running bob_world"
  by (simp_all add: bob_world_def boot_def empty_database_def bob_session_def)

lemma ask_al_sel [simp]:
  "destination ask_al = ''bob''" "sender ask_al = ''al''" "msg_type ask_al = Message"
  "correlation_id ask_al = 7" "NeedsAck ask_al" "\<not> NeedsReply ask_al"
  by (simp_all add: ask_al_def needs_bits bit_flags)

end
