(* ===== verification/Message_Flow.thy ===== *)
theory Message_Flow
  imports Scenario
begin

text \<open>
  The way of a message through the broker: how each handler evaluates, what the store holds and
  what is queued for the socket afterwards.
\<close>

section \<open>Evaluating the parts\<close>

lemma good_unlocked:
  assumes "good {} L A w"
  shows "\<not> registry_mutex w" "\<not> pending_sends_mutex w" "\<not> db_mutex w" "ready w"
    "active_clients w = A" "locals w = L"
  using assms by (auto simp: good_def lock_flags_def ready_def)

lemma eval_FindSession:
  assumes "good {} L A w"
  shows "FindSession name w = (Ok (map_of A name), w)"
  using good_unlocked [OF assms]
  by (simp add: FindSession_def lookup_client_def registry_locked_def locked_def)

lemma eval_IsOnline: "heap w a = Some s \<Longrightarrow> IsOnline a w = (Ok (is_online s), w)"
  by (simp add: IsOnline_def deref_def)

lemma eval_scoped:
  assumes "m (w\<lparr>locals := a # locals w\<rparr>) = (r, t)" "no_fault r" "a \<in> snd ` set A"
    and "good {} (a # L) A t"
  shows "scoped env a m w = (r, t\<lparr>locals := L\<rparr>)"
  using assms by (cases r) (simp_all add: scoped_def seq_def bind_def try_catch_def collect_def good_def)

lemma good_leave: "good {} (a # L) A t \<Longrightarrow> a \<in> snd ` set A \<Longrightarrow> good {} L A (t\<lparr>locals := L\<rparr>)"
  by (auto simp: good_def heap_ok_def lock_flags_def db_wf_def insert_absorb)

text \<open>A SQLite that works: no step fails and the row ids do not run out.\<close>

definition sqlite_works :: "env \<Rightarrow> world \<Rightarrow> bool" where
  "sqlite_works env w = ((\<forall>n. step_ok env n) \<and> seq_messages w < MAX_ROWID \<and> seq_correlations w < MAX_ROWID)"

lemma eval_save:
  assumes g: "good {} L A w" and ok: "sqlite_works env w" and p: "proper_type (msg_type m)"
  obtains i t where "SaveMessage env m w = (Ok i, t)" "good {} L A t" "database.more t = database.more w"
    "stored w i = None" "stored t = (stored w)(i \<mapsto> (stored_form m, STATUS_PENDING))"
    "correlations t = correlations w" "seq_correlations t = seq_correlations w"
    "bind_int64 i \<in> row_id ` set (messages t)"
proof -
  note w = good_unlocked [OF g]
  obtain i t where it: "SaveMessage env m w = (Ok i, t)"
    using ok w by (simp add: SaveMessage_apply sqlite_works_def)
  have pos: "0 \<le> seq_messages w + 1" "seq_messages w + 1 \<le> MAX_ROWID"
    using ok w(4) by (simp_all add: sqlite_works_def ready_def db_wf_def)
  show ?thesis
    using that [OF it keeps_Ok [OF good_store(1) g it] alwaysD [OF frame.SaveMessage_R it]]
      stored_SaveMessage [OF w(4) p it] it ok w bind_column_int64 [OF pos]
    by (auto simp: SaveMessage_apply sqlite_works_def)
qed

lemma eval_mark:
  assumes g: "good {} L A w" and ok: "\<forall>n. step_ok env n"
  obtains t where "mark_as env st i w = (Ok (), t)" "good {} L A t" "database.more t = database.more w"
    "stored t = (stored w)(i := map_option (\<lambda>(m, old). (m, next_status st old)) (stored w i))"
    "correlations t = correlations w"
proof -
  note w = good_unlocked [OF g]
  obtain t where t: "mark_as env st i w = (Ok (), t)"
    using ok w by (cases st) (simp_all add: MarkDelivered_apply MarkSent_apply MarkPending_apply)
  have "keeps (good {} L A) (mark_as env st i)" by (cases st) (simp_all add: good_store)
  from this g t have "good {} L A t" by (rule keeps_Ok)
  moreover have "always (\<lambda>s t. database.more t = database.more s) (mark_as env st i)"
    by (cases st) (simp_all add: frame.storage_R)
  then have "database.more t = database.more w" using t by (rule alwaysD)
  moreover have "correlations t = correlations w"
    using t ok w by (cases st) (auto simp: MarkDelivered_apply MarkSent_apply MarkPending_apply)
  ultimately show ?thesis using that t stored_mark_as [OF w(4) t] by blast
qed

definition correlation_row :: "world \<Rightarrow> env \<Rightarrow> u64 \<Rightarrow> u64 \<Rightarrow> string \<Rightarrow> crow" where
  "correlation_row w env i corr orig = \<lparr>cr_id = seq_correlations w + 1, cr_message_id = bind_int64 i,
     cr_corr = bind_int64 corr, cr_sender = c_str orig, cr_created = wall_clock env (db_tick w)\<rparr>"

lemma eval_correlation:
  assumes g: "good {} L A w" and ok: "\<forall>n. step_ok env n" "seq_correlations w < MAX_ROWID"
    and i: "bind_int64 i \<in> row_id ` set (messages w)"
  obtains t where "SaveCorrelation env i corr orig w = (Ok (), t)" "good {} L A t"
    "database.more t = database.more w" "stored t = stored w"
    "correlations t = filter (\<lambda>c. \<not> (cr_corr c = bind_int64 corr \<and> cr_sender c = c_str orig)) (correlations w)
       @ [correlation_row w env i corr orig]"
proof -
  note w = good_unlocked [OF g]
  obtain t where t: "SaveCorrelation env i corr orig w = (Ok (), t)"
    using ok w i by (simp add: SaveCorrelation_apply)
  then have "messages t = messages w" "correlations t = filter (\<lambda>c. \<not> (cr_corr c = bind_int64 corr
       \<and> cr_sender c = c_str orig)) (correlations w) @ [correlation_row w env i corr orig]"
    using ok w i by (auto simp: SaveCorrelation_apply correlation_row_def)
  then show ?thesis
    using that [OF t keeps_Ok [OF good_store(5) g t] alwaysD [OF frame.SaveCorrelation_R t]] stored_cong
    by auto
qed

text \<open>\<open>correlated i m w t\<close>: the correlation id of \<open>m\<close> now leads to message \<open>i\<close> and to the sender of \<open>m\<close>.\<close>

definition correlated :: "u64 \<Rightarrow> message \<Rightarrow> world \<Rightarrow> world \<Rightarrow> bool" where
  "correlated i m w t = (\<exists>c. correlations t = filter (\<lambda>c. \<not> (cr_corr c = bind_int64 (correlation_id m)
       \<and> cr_sender c = c_str (sender m))) (correlations w) @ [c]
     \<and> cr_message_id c = bind_int64 i \<and> cr_corr c = bind_int64 (correlation_id m) \<and> cr_sender c = c_str (sender m))"

lemma correlated_record: "correlated i m w t \<Longrightarrow> \<exists>c \<in> set (correlations t). cr_message_id c = bind_int64 i
    \<and> cr_corr c = bind_int64 (correlation_id m) \<and> cr_sender c = c_str (sender m)"
  by (auto simp: correlated_def)

lemma eval_send_online:
  assumes "good {} L A w" "heap w a = Some s" "is_online s" "Serialize m = Inr data"
  shows "SendMessage env a m w = (Ok True, w\<lparr>heap := (heap w)(a \<mapsto> s\<lparr>last_activity := clock w\<rparr>),
     pending_sends := pending_sends w @ [\<lparr>ps_identity = identity s, ps_data = data,
       ps_callback = Some (a, session_name s)\<rparr>], posted_sends := Suc (posted_sends w)\<rparr>)"
  using assms(2-) good_unlocked [OF assms(1)]
  by (simp add: SendMessage_def UpdateLastActivity_def assign_def IsOnline_def SendZmqMessage_def
      SendToClient_def pending_locked_def locked_def ScheduleSendProcessing_def deref_def seq_def bind_def
      try_catch_def)

text \<open>What is queued for the socket when \<open>data\<close> is sent to the session \<open>s\<close> at \<open>a\<close>.\<close>

definition send_to :: "nat \<Rightarrow> session \<Rightarrow> bytes \<Rightarrow> PendingSend" where
  "send_to a s data = \<lparr>ps_identity = identity s, ps_data = data, ps_callback = Some (a, session_name s)\<rparr>"

lemma eval_send_saved:
  assumes g: "good {} L A w" and a: "a \<in> snd ` set A" and s: "heap w a = Some s" "is_online s"
    and data: "Serialize m = Inr data" and ok: "\<forall>n. step_ok env n"
  obtains t where "send_saved env m a i w = (Ok (), t)" "good {} L A t"
    "stored t = (stored w)(i := map_option (\<lambda>(x, old).
       (x, next_status (if NeedsAck m then STATUS_SENT else STATUS_DELIVERED) old)) (stored w i))"
    "correlations t = correlations w" "pending_sends t = pending_sends w @ [send_to a s data]"
    "wire t = wire w" "heap t = (heap w)(a \<mapsto> s\<lparr>last_receive := clock w, last_activity := clock w\<rparr>)"
proof -
  let ?st = "if NeedsAck m then STATUS_SENT else STATUS_DELIVERED"
  define s1 where "s1 = s\<lparr>last_receive := clock w\<rparr>"
  define w1 where "w1 = w\<lparr>heap := (heap w)(a \<mapsto> s1)\<rparr>"
  have w1: "UpdateLastReceive a w = (Ok (), w1)"
    using s by (simp add: UpdateLastReceive_def assign_def w1_def s1_def)
  have g1: "good {} L A w1" by (rule keeps_Ok [OF good_registered(6) [OF a] g w1])
  define w2 where "w2 = w1\<lparr>heap := (heap w1)(a \<mapsto> s1\<lparr>last_activity := clock w1\<rparr>),
     pending_sends := pending_sends w1 @ [\<lparr>ps_identity = identity s1, ps_data = data,
       ps_callback = Some (a, session_name s1)\<rparr>], posted_sends := Suc (posted_sends w1)\<rparr>"
  have w2: "SendMessage env a m w1 = (Ok True, w2)"
    using eval_send_online [OF g1 _ _ data, of a s1 env] s by (simp add: w2_def) (simp add: w1_def s1_def)
  have g2: "good {} L A w2" by (rule keeps_Ok [OF good_registered(1) [OF a] g1 w2])
  obtain t where t: "mark_as env ?st i w2 = (Ok (), t)" "good {} L A t"
    "database.more t = database.more w2"
    "stored t = (stored w2)(i := map_option (\<lambda>(x, old). (x, next_status ?st old)) (stored w2 i))"
    "correlations t = correlations w2"
    by (rule eval_mark [OF g2 ok])
  have mark: "(if NeedsAck m then MarkSent env i else MarkDelivered env i) = mark_as env ?st i" by simp
  have "send_saved env m a i w = (Ok (), t)"
    unfolding send_saved_def mark by (simp add: seq_def bind_def try_catch_def w1 w2 t(1) del: mark_as.simps)
  moreover have "stored w2 = stored w" "correlations w2 = correlations w"
    by (simp_all add: w2_def w1_def stored_def)
  moreover have "pending_sends t = pending_sends w @ [send_to a s data]" "wire t = wire w"
    "heap t = (heap w)(a \<mapsto> s\<lparr>last_receive := clock w, last_activity := clock w\<rparr>)"
    using world_frame(3,8,11) [OF t(3)] by (simp_all add: w2_def w1_def s1_def send_to_def)
  ultimately show ?thesis using that t by simp
qed

lemma eval_save_first:
  assumes g: "good {} L A w" and ok: "sqlite_works env w" and p: "proper_type (msg_type m)"
  obtains i t where "save_first env m now w = (Ok (if now then Some i else None), t)" "good {} L A t"
    "database.more t = database.more w" "stored w i = None"
    "stored t = (stored w)(i \<mapsto> (stored_form m, STATUS_PENDING))"
    "NeedsReply m \<or> NeedsAck m \<Longrightarrow> correlated i m w t"
proof -
  obtain i w1 where w1: "SaveMessage env m w = (Ok i, w1)" "good {} L A w1" "database.more w1 = database.more w"
    "stored w i = None" "stored w1 = (stored w)(i \<mapsto> (stored_form m, STATUS_PENDING))"
    "seq_correlations w1 = seq_correlations w" "correlations w1 = correlations w" "bind_int64 i \<in> row_id ` set (messages w1)"
    using eval_save [OF g ok p] by metis
  show ?thesis
  proof (cases "NeedsReply m \<or> NeedsAck m")
    case True
    have steps: "\<forall>n. step_ok env n" "seq_correlations w1 < MAX_ROWID" using ok w1(6) by (simp_all add: sqlite_works_def)
    obtain t where t: "SaveCorrelation env i (correlation_id m) (sender m) w1 = (Ok (), t)"
      "good {} L A t" "database.more t = database.more w1" "stored t = stored w1"
      "correlations t = filter (\<lambda>c. \<not> (cr_corr c = bind_int64 (correlation_id m) \<and> cr_sender c = c_str (sender m)))
         (correlations w1) @ [correlation_row w1 env i (correlation_id m) (sender m)]"
      by (rule eval_correlation [OF w1(2) steps w1(8)])
    then have "correlated i m w t" using w1(7) by (simp add: correlated_def correlation_row_def)
    moreover have "save_first env m now w = (Ok (if now then Some i else None), t)"
      using True w1(1) t(1) by (simp add: save_first_def seq_def bind_def try_catch_def)
    ultimately show ?thesis using that t w1 by simp
  next
    case False
    then have "save_first env m now w = (Ok (if now then Some i else None), w1)"
      using w1(1) by (simp add: save_first_def seq_def bind_def try_catch_def)
    then show ?thesis using that w1 False by blast
  qed
qed

section \<open>Messages\<close>

lemma settled_good: "settled L w \<Longrightarrow> good {} L (active_clients w) w"
  by (auto simp: settled_def good_def)

lemma eval_MessageHandler:
  assumes g: "good {} L A w" and x: "x = map_of A (destination m)"
    and online: "online = (case x of None \<Rightarrow> False | Some a \<Rightarrow> is_online (the (heap w a)))"
  shows "MessageHandler env m w = scoped_opt env x (bind (save_first env m online) (\<lambda>saved.
     case saved of None \<Rightarrow> ret () | Some message_id \<Rightarrow> (case x of None \<Rightarrow> ret ()
       | Some a \<Rightarrow> send_saved env m a message_id))) w"
proof (cases x)
  case None
  show ?thesis using eval_FindSession [OF g, of "destination m", folded x] online unfolding None
    by (simp add: MessageHandler_def bind_def scoped_opt_def)
next
  case (Some a)
  have "live L A a" using registered [of A "destination m" a] Some x by simp
  then obtain s where s: "heap w a = Some s" using g by (metis good_live)
  have "IsOnline a (w\<lparr>locals := a # locals w\<rparr>) = (Ok online, w\<lparr>locals := a # locals w\<rparr>)"
    using eval_IsOnline [of "w\<lparr>locals := a # locals w\<rparr>" a s] s online Some by simp
  then show ?thesis using eval_FindSession [OF g, of "destination m", folded x] unfolding Some
    by (simp add: MessageHandler_def bind_def scoped_opt_def scoped_def seq_def try_catch_def)
qed

lemma online_message:
  assumes "settled [] w" "sqlite_works env w" "proper_type (msg_type m)" "Serialize m = Inr data"
    and "map_of (active_clients w) (destination m) = Some a" "heap w a = Some s" "is_online s"
  shows "\<exists>i t. MessageHandler env m w = (Ok (), t) \<and> stored w i = None
    \<and> stored t = (stored w)(i \<mapsto> (stored_form m, if NeedsAck m then STATUS_SENT else STATUS_DELIVERED))
    \<and> pending_sends t = pending_sends w @ [send_to a s data]
    \<and> (NeedsReply m \<or> NeedsAck m \<longrightarrow> correlated i m w t)
    \<and> good {} [] (active_clients w) t
    \<and> heap t = (heap w)(a \<mapsto> s\<lparr>last_receive := clock w, last_activity := clock w\<rparr>)"
proof -
  define A where "A = active_clients w"
  have g: "good {} [] A w" using settled_good [OF assms(1)] by (simp add: A_def)
  have a: "a \<in> snd ` set A" using assms(5) by (simp add: A_def registered)
  let ?w = "w\<lparr>locals := a # locals w\<rparr>"
  have g0: "good {} [a] A ?w" using a by (intro good_scope_enter [OF g]) simp
  have ok0: "sqlite_works env ?w" using assms(2) by (simp add: sqlite_works_def)
  obtain i w1 where w1: "save_first env m True ?w = (Ok (Some i), w1)" "good {} [a] A w1"
    "database.more w1 = database.more ?w" "stored ?w i = None"
    "stored w1 = (stored ?w)(i \<mapsto> (stored_form m, STATUS_PENDING))"
    "NeedsReply m \<or> NeedsAck m \<Longrightarrow> correlated i m ?w w1"
    by (rule eval_save_first [OF g0 ok0 assms(3), of True]) simp
  have h1: "heap w1 a = Some s" using world_frame(3) [OF w1(3)] assms(6) by simp
  have steps: "\<forall>n. step_ok env n" using assms(2) by (simp add: sqlite_works_def)
  obtain t where t: "send_saved env m a i w1 = (Ok (), t)" "good {} [a] A t"
    "stored t = (stored w1)(i := map_option (\<lambda>(x, old).
       (x, next_status (if NeedsAck m then STATUS_SENT else STATUS_DELIVERED) old)) (stored w1 i))"
    "correlations t = correlations w1" "pending_sends t = pending_sends w1 @ [send_to a s data]" "wire t = wire w1"
    "heap t = (heap w1)(a \<mapsto> s\<lparr>last_receive := clock w1, last_activity := clock w1\<rparr>)"
    by (rule eval_send_saved [OF w1(2) a h1 assms(7,4) steps])
  let ?m = "bind (save_first env m True) (\<lambda>saved. case saved of None \<Rightarrow> ret () | Some message_id \<Rightarrow>
      (case Some a of None \<Rightarrow> ret () | Some a \<Rightarrow> send_saved env m a message_id))"
  have run: "?m ?w = (Ok (), t)"
    using w1(1) t(1) by (simp add: bind_def)
  have "MessageHandler env m w = (Ok (), t\<lparr>locals := []\<rparr>)"
    using eval_MessageHandler [OF g, of "Some a" m True env] eval_scoped [where m = ?m and w = w and a = a and r = "Ok ()" and t = t and A = A and L = "[]" and env = env] run a t(2) assms(5-7)
    by (simp add: A_def scoped_opt_def)
  moreover have "pending_sends t = pending_sends w @ [send_to a s data]"
    using t(5) world_frame(8) [OF w1(3)] by simp
  moreover have "stored ?w = stored w" "stored (t\<lparr>locals := []\<rparr>) = stored t" by (rule stored_cong, simp)+
  moreover have "NeedsReply m \<or> NeedsAck m \<longrightarrow> correlated i m w (t\<lparr>locals := []\<rparr>)"
    using w1(6) t(4) by (simp add: correlated_def)
  moreover have "good {} [] A (t\<lparr>locals := []\<rparr>)" using t(2) a by (rule good_leave)
  moreover have "heap t = (heap w)(a \<mapsto> s\<lparr>last_receive := clock w, last_activity := clock w\<rparr>)"
    using t(7) world_frame(3,12) [OF w1(3)] by simp
  ultimately show ?thesis using w1(4,5) t(3) by (intro exI [of _ i] exI [of _ "t\<lparr>locals := []\<rparr>"]) (simp add: A_def)
qed

text \<open>C2. A message for a client that is online: it is saved first, then its frame is queued for
  that client's connection, and its row ends SENT when it asks for an acknowledgement and
  DELIVERED otherwise; when it asks for a reply or an acknowledgement its correlation id is
  recorded for the sender. No other stored message changes.\<close>

theorem message_to_online_client:
  assumes "settled [] w" "sqlite_works env w" "proper_type (msg_type m)" "Serialize m = Inr data"
    and "map_of (active_clients w) (destination m) = Some a" "heap w a = Some s" "is_online s"
  shows "\<exists>i t. MessageHandler env m w = (Ok (), t) \<and> stored w i = None
    \<and> stored t = (stored w)(i \<mapsto> (stored_form m, if NeedsAck m then STATUS_SENT else STATUS_DELIVERED))
    \<and> pending_sends t = pending_sends w @ [send_to a s data]
    \<and> (NeedsReply m \<or> NeedsAck m \<longrightarrow> (\<exists>c \<in> set (correlations t). cr_message_id c = bind_int64 i
         \<and> cr_corr c = bind_int64 (correlation_id m) \<and> cr_sender c = c_str (sender m)))"
  using online_message [OF assms] correlated_record by blast

lemma bob_works: "sqlite_works demo_env bob_world"
  by (simp add: sqlite_works_def demo_orders MAX_ROWID_def)

theorem message_to_online_client_witness:
  "\<exists>t. MessageHandler demo_env ask_al bob_world = (Ok (), t)
    \<and> pending_sends t = [send_to 0 bob_session (wire_format ask_al)]
    \<and> (\<exists>i. stored t i = Some (ask_al, STATUS_SENT))"
  using message_to_online_client [OF settled_bob bob_works _ ask_al_frame, of 0 bob_session]
  by (auto simp: sample_names)

text \<open>C3. A message for a client that is not registered, or not online: it is saved as PENDING, its
  correlation recorded as above, and nothing is queued for any connection.\<close>

theorem message_to_offline_client:
  assumes "settled [] w" "sqlite_works env w" "proper_type (msg_type m)"
    and "\<And>a. map_of (active_clients w) (destination m) = Some a \<Longrightarrow> \<not> is_online (the (heap w a))"
  shows "\<exists>i t. MessageHandler env m w = (Ok (), t) \<and> stored w i = None
    \<and> stored t = (stored w)(i \<mapsto> (stored_form m, STATUS_PENDING))
    \<and> pending_sends t = pending_sends w
    \<and> (NeedsReply m \<or> NeedsAck m \<longrightarrow> (\<exists>c \<in> set (correlations t). cr_message_id c = bind_int64 i
         \<and> cr_corr c = bind_int64 (correlation_id m) \<and> cr_sender c = c_str (sender m)))"
proof -
  define A where "A = active_clients w"
  have g: "good {} [] A w" using settled_good [OF assms(1)] by (simp add: A_def)
  show ?thesis
  proof (cases "map_of A (destination m)")
    case None
    obtain i t where t: "save_first env m False w = (Ok None, t)" "database.more t = database.more w"
      "stored w i = None" "stored t = (stored w)(i \<mapsto> (stored_form m, STATUS_PENDING))"
      "NeedsReply m \<or> NeedsAck m \<Longrightarrow> correlated i m w t"
      by (rule eval_save_first [OF g assms(2,3), of False]) simp
    have "MessageHandler env m w = (Ok (), t)"
      using eval_MessageHandler [OF g, of None m False env] None t(1) by (simp add: scoped_opt_def bind_def)
    then show ?thesis using t(3-5) world_frame(8) [OF t(2)] correlated_record by (intro exI [of _ i] exI [of _ t]) auto
  next
    case (Some a)
    have a: "a \<in> snd ` set A" using Some by (rule registered)
    let ?w = "w\<lparr>locals := a # locals w\<rparr>"
    have g0: "good {} [a] A ?w" using a by (intro good_scope_enter [OF g]) simp
    have ok0: "sqlite_works env ?w" using assms(2) by (simp add: sqlite_works_def)
    obtain i t where t: "save_first env m False ?w = (Ok None, t)" "good {} [a] A t"
      "database.more t = database.more ?w" "stored ?w i = None"
      "stored t = (stored ?w)(i \<mapsto> (stored_form m, STATUS_PENDING))"
      "NeedsReply m \<or> NeedsAck m \<Longrightarrow> correlated i m ?w t"
      by (rule eval_save_first [OF g0 ok0 assms(3), of False]) simp
    let ?m = "bind (save_first env m False) (\<lambda>saved. case saved of None \<Rightarrow> ret () | Some message_id \<Rightarrow>
        (case Some a of None \<Rightarrow> ret () | Some a \<Rightarrow> send_saved env m a message_id))"
    have run: "?m ?w = (Ok (), t)"
      using t(1) by (simp add: bind_def)
    have "MessageHandler env m w = (Ok (), t\<lparr>locals := []\<rparr>)"
      using eval_MessageHandler [OF g, of "Some a" m False env] eval_scoped [where m = ?m and w = w and a = a and r = "Ok ()" and t = t and A = A and L = "[]" and env = env] run a t(2) assms(4) Some
      by (simp add: A_def scoped_opt_def)
    moreover have "pending_sends t = pending_sends w" using world_frame(8) [OF t(3)] by simp
    moreover have "stored ?w = stored w" "stored (t\<lparr>locals := []\<rparr>) = stored t" by (rule stored_cong, simp)+
    ultimately show ?thesis using t(4-6) correlated_record [of i m ?w t] by (intro exI [of _ i] exI [of _ "t\<lparr>locals := []\<rparr>"]) auto
  qed
qed

theorem message_to_offline_client_witness:
  "\<exists>t. MessageHandler demo_env answer_bob bob_world = (Ok (), t) \<and> pending_sends t = []
    \<and> (\<exists>i. stored t i = Some (answer_bob, STATUS_PENDING))"
proof -
  have "proper_type (msg_type answer_bob)" "map_of (active_clients bob_world) (destination answer_bob) = None"
    by (simp_all add: answer_bob_def)
  then show ?thesis
    using message_to_offline_client [OF settled_bob bob_works, of answer_bob] by (auto simp: sample_names)
qed

section \<open>Nothing is sent that was not saved\<close>

text \<open>\<open>saved_row n m w\<close>: row number \<open>n\<close> of the log holds \<open>m\<close>.\<close>

definition saved_row :: "nat \<Rightarrow> message \<Rightarrow> world \<Rightarrow> bool" where
  "saved_row n m w = (n < length (messages w) \<and> message_of_row (messages w ! n) = stored_form m)"

lemma saved_row_kept:
  assumes "log_extends s t" "saved_row n m s"
  shows "saved_row n m t"
proof -
  obtain rs new where t: "messages t = rs @ new" and rs: "list_all2 row_kept (messages s) rs"
    using assms(1) by (auto simp: log_extends_def)
  have n: "n < length (messages s)" "message_of_row (messages s ! n) = stored_form m"
    using assms(2) by (simp_all add: saved_row_def)
  have "row_kept (messages s ! n) (rs ! n)" "length rs = length (messages s)"
    using rs n by (auto simp: list_all2_conv_all_nth)
  moreover from this(1) have "message_of_row (rs ! n) = message_of_row (messages s ! n)"
    by (metis row_kept_def row_content_def message_of_row_status)
  ultimately show ?thesis using n t by (simp add: saved_row_def nth_append)
qed

lemma nothrow_session:
  "nothrow (deref a f)" "nothrow (assign a g)" "nothrow (metric k)" "nothrow (IsOnline a)"
  "nothrow (MarkOffline a)" "nothrow (FindSession name)"
  by (simp_all add: nothrow_def deref_def assign_def metric_def IsOnline_def MarkOffline_def
      FindSession_def lookup_client_def registry_locked_def locked_def split: option.split)

lemma nothrow_scoped:
  assumes "nothrow m"
  shows "nothrow (scoped env a m)" "nothrow (scoped_opt env p m)"
proof -
  have collect: "nothrow (collect env a)" for a
    unfolding collect_def Session_destructor_def by (intro nothrow_rules)
  have "scoped env a m w \<noteq> (Throw e, t)" for a w e t
  proof -
    obtain r u where ru: "m (w\<lparr>locals := a # locals w\<rparr>) = (r, u)" by (cases "m (w\<lparr>locals := a # locals w\<rparr>)")
    then have "\<not> (\<exists>e. r = Throw e)" using assms by (auto simp: nothrow_def)
    then show ?thesis using ru collect [of a] by (cases r)
        (auto simp: scoped_def seq_def bind_def try_catch_def nothrow_def split: prod.splits outcome.splits)
  qed
  then show "nothrow (scoped env a m)" by (simp add: nothrow_def)
  with assms show "nothrow (scoped_opt env p m)"
    using \<open>\<And>a w e t. scoped env a m w \<noteq> (Throw e, t)\<close> by (cases p) (simp_all add: scoped_opt_def nothrow_def)
qed

lemma nothrow_roll_back: "nothrow (roll_back env a i)"
  unfolding roll_back_def by (intro nothrow_rules nothrow_session)

lemma nothrow_handlers: "nothrow (MessageHandler env m)" "nothrow (ReplyHandler env m)"
proof -
  show "nothrow (MessageHandler env m)"
    unfolding MessageHandler_def save_first_def send_saved_def
    by (intro nothrow_rules nothrow_session nothrow_scoped nothrow_roll_back)
  have "nothrow (case p of (reply_msg, message_id) \<Rightarrow>
         bind (FindSession (destination reply_msg)) (\<lambda>session. case session of None \<Rightarrow> ret ()
           | Some a \<Rightarrow> scoped env a (bind (IsOnline a) (\<lambda>online.
               if online then send_reply env reply_msg a message_id else ret ()))))" for p
    by (cases p, simp only: prod.case send_reply_def)
       (intro nothrow_rules nothrow_session nothrow_scoped nothrow_roll_back)
  then show "nothrow (ReplyHandler env m)" unfolding ReplyHandler_def save_reply_def
    by (intro nothrow_rules nothrow_session)
qed

lemma save_first_pending:
  assumes "\<not> db_mutex w" "save_first env m now w = (Ok x, t)"
  shows "pending_sends t = pending_sends w" "x \<noteq> None \<Longrightarrow> proper_type (msg_type m) \<Longrightarrow> saved_row (length (messages w)) m t"
  using assms by (auto simp: save_first_def SaveMessage_apply SaveCorrelation_apply seq_def bind_def
      try_catch_def metric_def bump_tick_def saved_row_def nth_append message_of_row_of_message split: if_splits)

text \<open>C1. Persist before send: whatever SQLite answers, \<open>MessageHandler\<close> returns without an
  exception and without a fault, and it has queued something for the socket only if the message
  is in the log, as the row after those that were there.\<close>

theorem no_send_without_save:
  assumes "settled [] w" "proper_type (msg_type m)"
  shows "\<exists>t. MessageHandler env m w = (Ok (), t) \<and> settled [] t
    \<and> (pending_sends t = pending_sends w \<or> saved_row (length (messages w)) m t)"
proof -
  define A where "A = active_clients w"
  have g: "good {} [] A w" using settled_good [OF assms(1)] by (simp add: A_def)
  obtain t where t: "MessageHandler env m w = (Ok (), t)" "settled [] t"
    using settled_keeps [OF good_MessageHandler] nothrow_handlers(1) assms(1) by (rule keeps_nothrow) simp
  define x where "x = map_of A (destination m)"
  define online where "online = (case x of None \<Rightarrow> False | Some a \<Rightarrow> is_online (the (heap w a)))"
  note run = eval_MessageHandler [OF g x_def online_def, of env]
  have "pending_sends t = pending_sends w \<or> saved_row (length (messages w)) m t"
  proof (cases x)
    case None
    obtain y u where "save_first env m online w = (Ok y, u)"
      using good_save_first _ g by (rule keeps_nothrow)
        (auto simp: save_first_def intro!: nothrow_rules nothrow_session)
    then show ?thesis using run t save_first_pending(1) [OF good_unlocked(3) [OF g], of env m online y u]
      by (cases y) (auto simp: None scoped_opt_def bind_def)
  next
    case (Some a)
    have a: "a \<in> snd ` set A" using Some by (simp add: x_def registered)
    let ?w = "w\<lparr>locals := a # locals w\<rparr>"
    have g0: "good {} [a] A ?w" using a by (intro good_scope_enter [OF g]) simp
    obtain y u where y: "save_first env m online ?w = (Ok y, u)" "good {} [a] A u"
      using good_save_first _ g0 by (rule keeps_nothrow)
        (auto simp: save_first_def intro!: nothrow_rules nothrow_session)
    note u = save_first_pending [OF good_unlocked(3) [OF g0] y(1)]
    let ?m = "bind (save_first env m online) (\<lambda>saved. case saved of None \<Rightarrow> ret ()
      | Some message_id \<Rightarrow> send_saved env m a message_id)"
    have handler: "MessageHandler env m w = scoped env a ?m w" using run by (simp add: Some scoped_opt_def)
    show ?thesis
    proof (cases y)
      case None
      have "?m ?w = (Ok (), u)" using y None by (simp add: bind_def)
      then show ?thesis
        using t handler u(1) eval_scoped [where m = ?m and w = w and a = a and r = "Ok ()" and t = u and A = A and L = "[]" and env = env] a y(2)
        by auto
    next
      case (Some i)
      obtain v where v: "send_saved env m a i u = (Ok (), v)" "good {} [a] A v"
        using good_send_saved [OF a] _ y(2) by (rule keeps_nothrow)
          (auto simp: send_saved_def intro!: nothrow_rules nothrow_roll_back)
      have "?m ?w = (Ok (), v)" using y Some v(1) by (simp add: bind_def)
      then have "t = v\<lparr>locals := []\<rparr>"
        using t handler eval_scoped [where m = ?m and w = w and a = a and r = "Ok ()" and t = v and A = A and L = "[]" and env = env] a v(2)
        by auto
      moreover have "always log_extends (send_saved env m a i)" unfolding send_saved_def roll_back_def
        by (intro world_log.session_rules)
      then have "log_extends u v" using v(1) by (rule alwaysD)
      then have "saved_row (length (messages w)) m v" using saved_row_kept u(2) Some assms(2) by simp
      ultimately show ?thesis by (simp add: saved_row_def)
    qed
  qed
  with t show ?thesis by blast
qed

theorem no_send_without_save_witness:
  "\<exists>t. MessageHandler (demo_env\<lparr>step_ok := even\<rparr>) ask_al bob_world = (Ok (), t) \<and> settled [] t
    \<and> (pending_sends t = pending_sends bob_world \<or> saved_row (length (messages bob_world)) ask_al t)"
  by (rule no_send_without_save [OF settled_bob]) simp

end
