(* ===== verification/Send_Queue.thy ===== *)
theory Send_Queue
  imports Server Router_Facts
begin

text \<open>
  The send queue of the server: what \<open>ProcessPendingSends\<close> puts on the wire, which sends it
  reports as failed, and when it is safe to run.
\<close>

section \<open>A reference account of the sends\<close>

text \<open>The three frames of a send, each with its \<open>sndmore\<close> flag.\<close>

definition frames_of :: "PendingSend \<Rightarrow> (bytes \<times> bool) list" where
  "frames_of p = [(map byte_of_char (ps_identity p), True), ([], True), (ps_data p, False)]"

text \<open>How one send ends, from the socket's answers alone: \<open>Skipped\<close> when the identity or the
  delimiter frame would block, \<open>Failed\<close> when the data frame would block or the socket throws;
  with the number of frames tried.\<close>

datatype attempt = Skipped | Failed | Delivered

definition try_send :: "env \<Rightarrow> nat \<Rightarrow> attempt \<times> nat" where
  "try_send env n = (case send_frame env n of WouldBlock \<Rightarrow> (Skipped, 1) | FrameError \<Rightarrow> (Failed, 1)
     | FrameSent \<Rightarrow> (case send_frame env (n + 1) of WouldBlock \<Rightarrow> (Skipped, 2) | FrameError \<Rightarrow> (Failed, 2)
     | FrameSent \<Rightarrow> (if send_frame env (n + 2) = FrameSent then Delivered else Failed, 3)))"

fun attempts :: "env \<Rightarrow> nat \<Rightarrow> PendingSend list \<Rightarrow> (PendingSend \<times> attempt \<times> nat) list" where
  "attempts env n [] = []"
| "attempts env n (p # ps) = (p, try_send env n) # attempts env (n + snd (try_send env n)) ps"

text \<open>The frames of a send the socket took.\<close>

definition frames_taken :: "PendingSend \<times> attempt \<times> nat \<Rightarrow> (bytes \<times> bool) list" where
  "frames_taken x = (case x of (p, r, k) \<Rightarrow> take (if r = Delivered then k else k - 1) (frames_of p))"

text \<open>The sessions whose callback is told of a failure.\<close>

definition told_offline :: "(PendingSend \<times> attempt \<times> nat) list \<Rightarrow> nat set" where
  "told_offline xs = {a. \<exists>p r k name. (p, r, k) \<in> set xs \<and> r \<noteq> Delivered \<and> ps_callback p = Some (a, name)}"

definition take_offline :: "nat set \<Rightarrow> (nat \<Rightarrow> session option) \<Rightarrow> nat \<Rightarrow> session option" where
  "take_offline as h = (\<lambda>a. if a \<in> as then map_option (\<lambda>s. s\<lparr>is_online := False\<rparr>) (h a) else h a)"

definition count_attempts :: "attempt \<Rightarrow> (PendingSend \<times> attempt \<times> nat) list \<Rightarrow> u64" where
  "count_attempts r xs = word_of_nat (length (filter (\<lambda>x. fst (snd x) = r) xs))"

definition callback_alive :: "(nat \<Rightarrow> session option) \<Rightarrow> PendingSend \<Rightarrow> bool" where
  "callback_alive h p = (case ps_callback p of None \<Rightarrow> True | Some (a, name) \<Rightarrow> h a \<noteq> None)"

text \<open>Every send that fails has a callback whose session is alive.\<close>

definition callbacks_safe :: "(nat \<Rightarrow> session option) \<Rightarrow> (PendingSend \<times> attempt \<times> nat) list \<Rightarrow> bool" where
  "callbacks_safe h xs = list_all (\<lambda>(p, r, k). r = Delivered \<or> callback_alive h p) xs"

section \<open>The loop meets the account\<close>

lemma callback_failed:
  assumes "callback_alive (heap w) p"
  shows "run_callback (ps_callback p) False w
    = (Ok (), w\<lparr>heap := take_offline (told_offline [(p, Failed, k)]) (heap w)\<rparr>)"
proof (cases "ps_callback p")
  case None
  then show ?thesis by (simp add: run_callback_def told_offline_def take_offline_def)
next
  case (Some c)
  obtain a name where c: "c = (a, name)" by (cases c)
  obtain s where s: "heap w a = Some s" using assms Some c by (auto simp: callback_alive_def)
  have "{b. b = a} = {a}" by auto
  then have "take_offline (told_offline [(p, Failed, k)]) (heap w) = (heap w)(a \<mapsto> s\<lparr>is_online := False\<rparr>)"
    using Some c s by (auto simp: told_offline_def take_offline_def fun_eq_iff)
  with Some c s show ?thesis by (simp add: run_callback_def MarkOffline_def assign_def)
qed

lemma told_offline_cons:
  "told_offline (x # xs) = told_offline [x] \<union> told_offline xs"
  "told_offline [(p, Delivered, k)] = {}" "told_offline [(p, Skipped, k)] = told_offline [(p, Failed, k)]"
  by (cases x, fastforce simp: told_offline_def) (auto simp: told_offline_def)

lemma told_offline_simps:
  "told_offline [] = {}"
  "told_offline [(p, r, k)] = (if r = Delivered then {} else case ps_callback p of None \<Rightarrow> {} | Some (a, _) \<Rightarrow> {a})"
  by (auto simp: told_offline_def split: option.split)

lemma take_offline_compose:
  "take_offline {} h = h" "take_offline A (take_offline B h) = take_offline (B \<union> A) h"
  by (auto simp: take_offline_def fun_eq_iff option.map_comp comp_def)

lemma callback_alive_kept [simp]: "callback_alive (take_offline A h) p = callback_alive h p"
  by (simp add: callback_alive_def take_offline_def split: option.split prod.split)

lemma send_part_apply:
  "send_frame env (frames_tried w) = FrameSent \<Longrightarrow> send_part env f b w
     = (Ok True, w\<lparr>frames_tried := Suc (frames_tried w), wire := wire w @ [(f, b)]\<rparr>)"
  "send_frame env (frames_tried w) = WouldBlock \<Longrightarrow> send_part env f b w
     = (Ok False, w\<lparr>frames_tried := Suc (frames_tried w)\<rparr>)"
  "send_frame env (frames_tried w) = FrameError \<Longrightarrow> send_part env f b w
     = (Throw ZmqError, w\<lparr>frames_tried := Suc (frames_tried w)\<rparr>)"
  by (simp_all add: send_part_def Let_def)

lemma callback_ok: "run_callback c True w = (Ok (), w)"
  by (simp add: run_callback_def split: option.split prod.split)

lemma process_send_exact:
  assumes alive: "r = Delivered \<or> callback_alive (heap w) p" and result: "try_send env (frames_tried w) = (r, k)"
  shows "process_send env p w = (Ok (case r of Skipped \<Rightarrow> None | Failed \<Rightarrow> Some False | Delivered \<Rightarrow> Some True),
    w\<lparr>frames_tried := frames_tried w + k, wire := wire w @ frames_taken (p, r, k),
      heap := take_offline (told_offline [(p, r, k)]) (heap w)\<rparr>)"
proof -
  note rules = process_send_def try_catch_def bind_def seq_def send_part_apply callback_ok
    callback_failed [where k = k] frames_taken_def frames_of_def told_offline_cons(2)
    told_offline_cons(3) take_offline_compose(1) try_send_def
  show ?thesis
  proof (cases "callback_alive (heap w) p")
    case False
    with assms have "try_send env (frames_tried w) = (Delivered, k)" "r = Delivered" by simp_all
    then show ?thesis by (auto simp: rules split: frame_result.splits if_splits)
  next
    case alive: True
    show ?thesis
    proof (cases "send_frame env (frames_tried w)")
      case FrameSent
      note first = FrameSent
      show ?thesis
      proof (cases "send_frame env (Suc (frames_tried w))")
        case FrameSent
        with first result alive show ?thesis
          by (cases "send_frame env (Suc (Suc (frames_tried w)))") (auto simp: rules)
      qed (use first result alive in \<open>auto simp: rules\<close>)
    qed (use result alive in \<open>auto simp: rules\<close>)
  qed
qed

lemma process_sends_exact:
  assumes "callbacks_safe (heap w) (attempts env (frames_tried w) ps)"
  shows "process_sends env ps w = (Ok (), let xs = attempts env (frames_tried w) ps in
    w\<lparr>frames_tried := frames_tried w + sum_list (map (snd \<circ> snd) xs),
      wire := wire w @ concat (map frames_taken xs), heap := take_offline (told_offline xs) (heap w),
      metrics_manager := map_option (\<lambda>k. k\<lparr>messages_sent := messages_sent k + count_attempts Delivered xs,
        messages_failed := messages_failed k + count_attempts Failed xs\<rparr>) (metrics_manager w)\<rparr>)"
  using assms
proof (induction ps arbitrary: w)
  case Nil
  show ?case
    by (simp add: told_offline_simps Let_def told_offline_simps take_offline_compose count_attempts_def option.map_ident)
next
  case (Cons p ps)
  obtain r k where rk: "try_send env (frames_tried w) = (r, k)" by (cases "try_send env (frames_tried w)")
  let ?w = "w\<lparr>frames_tried := frames_tried w + k, wire := wire w @ frames_taken (p, r, k),
      heap := take_offline (told_offline [(p, r, k)]) (heap w)\<rparr>"
  let ?v = "?w\<lparr>metrics_manager := map_option (case r of Skipped \<Rightarrow> \<lambda>m. m | Failed \<Rightarrow> IncrementMessagesFailed
      | Delivered \<Rightarrow> IncrementMessagesSent) (metrics_manager w)\<rparr>"
  have send: "process_send env p w = (Ok (case r of Skipped \<Rightarrow> None | Failed \<Rightarrow> Some False
      | Delivered \<Rightarrow> Some True), ?w)"
    using Cons.prems rk by (intro process_send_exact) (simp_all add: callbacks_safe_def)
  have "process_sends env (p # ps) w = process_sends env ps ?v"
    using send by (cases r) (simp_all add: bind_def seq_def metric_def option.map_ident)
  also have "\<dots> = (Ok (), let xs = attempts env (frames_tried ?v) ps in
    ?v\<lparr>frames_tried := frames_tried ?v + sum_list (map (snd \<circ> snd) xs),
      wire := wire ?v @ concat (map frames_taken xs), heap := take_offline (told_offline xs) (heap ?v),
      metrics_manager := map_option (\<lambda>k. k\<lparr>messages_sent := messages_sent k + count_attempts Delivered xs,
        messages_failed := messages_failed k + count_attempts Failed xs\<rparr>) (metrics_manager ?v)\<rparr>)"
    by (rule Cons.IH) (use Cons.prems rk in \<open>simp add: callbacks_safe_def\<close>)
  finally show ?case using rk told_offline_cons(1) [of "(p, r, k)" "attempts env (frames_tried w + k) ps"]
    by (cases r) (simp_all add: Let_def take_offline_compose add.assoc count_attempts_def
        option.map_comp comp_def IncrementMessagesFailed_def IncrementMessagesSent_def)
qed

lemma ProcessPendingSends_exact:
  assumes "\<not> pending_sends_mutex w"
    and "callbacks_safe (heap w) (attempts env (frames_tried w) (pending_sends w))"
  shows "let xs = attempts env (frames_tried w) (pending_sends w) in
    \<exists>t. ProcessPendingSends env w = (Ok (), t)
    \<and> pending_sends t = [] \<and> \<not> sending_in_progress t
    \<and> wire t = wire w @ concat (map frames_taken xs)
    \<and> heap t = take_offline (told_offline xs) (heap w)
    \<and> metrics_manager t = map_option (\<lambda>k. k\<lparr>messages_sent := messages_sent k + count_attempts Delivered xs,
        messages_failed := messages_failed k + count_attempts Failed xs,
        pending_send_queue := if pending_sends w = [] then pending_send_queue k else 0\<rparr>) (metrics_manager w)"
proof (cases "pending_sends w = []")
  case True
  with True assms show ?thesis
    by (simp add: ProcessPendingSends_def take_pending_def pending_locked_def locked_def bind_def seq_def
        told_offline_simps take_offline_compose count_attempts_def option.map_ident)
next
  case False
  let ?w = "w\<lparr>pending_sends := [], sending_in_progress := True\<rparr>"
  have "take_pending w = (Ok (pending_sends w), ?w)"
    using False assms(1) by (simp add: take_pending_def pending_locked_def locked_def bind_def seq_def)
  moreover have "process_sends env (pending_sends w) ?w = (Ok (), let xs = attempts env (frames_tried ?w) (pending_sends w) in
    ?w\<lparr>frames_tried := frames_tried ?w + sum_list (map (snd \<circ> snd) xs),
      wire := wire ?w @ concat (map frames_taken xs), heap := take_offline (told_offline xs) (heap ?w),
      metrics_manager := map_option (\<lambda>k. k\<lparr>messages_sent := messages_sent k + count_attempts Delivered xs,
        messages_failed := messages_failed k + count_attempts Failed xs\<rparr>) (metrics_manager ?w)\<rparr>)"
    by (rule process_sends_exact) (use assms(2) in simp)
  ultimately show ?thesis using False assms(1)
    by (simp add: ProcessPendingSends_def UpdateQueueMetrics_def pending_locked_def locked_def bind_def seq_def
        metric_def Let_def option.map_comp comp_def SetPendingSendQueueSize_def)
qed

section \<open>The invariant\<close>

text \<open>Whatever the callbacks find, the queue is processed under the invariant; the one fault is a
  callback of a session that is gone.\<close>

lemma callback_tolerates: "tolerates {UseAfterFree} (good H L A) (run_callback c b)"
proof -
  have "tolerates {UseAfterFree} (good H L A) (MarkOffline a)" for a
  proof -
    have "good H L A (w\<lparr>heap := (heap w)(a \<mapsto> s\<lparr>is_online := False\<rparr>)\<rparr>)"
      if g: "good H L A w" and s: "heap w a = Some s" for w s
      using g s by (rule good_heap_update) (use g s in \<open>auto simp: session_kept_def good_def heap_ok_def\<close>)
    then show ?thesis
      by (auto simp: tolerates_def MarkOffline_def assign_def split: option.split)
  qed
  moreover have "tolerates {UseAfterFree} (good H L A) (ret ())"
    by (rule tolerates_keeps [OF keeps_ret])
  ultimately show ?thesis unfolding run_callback_def
    by (intro tolerates_option) (simp_all split: prod.split)
qed

lemma good_send_part: "keeps (good H L A) (send_part env f b)"
  by (rule tripleI) (simp add: send_part_def Let_def split: frame_result.split)

lemma process_sends_tolerates: "tolerates {UseAfterFree} (good H L A) (process_sends env ps)"
proof (induction ps)
  case (Cons p ps)
  show ?case unfolding process_sends.simps process_send_def
    by (intro tolerates_intros callback_tolerates tolerates_keeps [OF good_send_part]
        tolerates_keeps [OF good_metric] tolerates_keeps [OF keeps_ret] Cons.IH)
qed (simp only: process_sends.simps tolerates_keeps [OF keeps_ret])

lemma tolerates_pending_locked:
  assumes "PendingLock \<notin> H" "tolerates F (good (insert PendingLock H) L A) m"
  shows "tolerates F (good H L A) (pending_locked m)"
  unfolding tolerates_def
proof (intro allI impI)
  fix w assume w: "good H L A w"
  have lock: "good (insert PendingLock H) L A (w\<lparr>pending_sends_mutex := True\<rparr>)" "\<not> pending_sends_mutex w"
    using w assms(1) by (auto simp: good_def lock_flags_def db_wf_def)
  have unlock: "good H L A (t\<lparr>pending_sends_mutex := False\<rparr>)" if "good (insert PendingLock H) L A t" for t
    using that assms(1) by (auto simp: good_def lock_flags_def db_wf_def)
  from assms(2) lock(1) show "case pending_locked m w of (Ok a, t) \<Rightarrow> good H L A t | (Throw e, t) \<Rightarrow> good H L A t
      | (Fault x, t) \<Rightarrow> x \<in> F"
    by (rule toleratesE) (simp_all add: pending_locked_def locked_def lock(2) unlock)
qed

lemma good_UpdateQueueMetrics: "PendingLock \<notin> H \<Longrightarrow> keeps (good H L A) UpdateQueueMetrics"
  unfolding UpdateQueueMetrics_def by (intro keeps_intros good_pending_locked good_metric)

lemma good_take_pending: "PendingLock \<notin> H \<Longrightarrow> keeps (good H L A) take_pending"
  unfolding take_pending_def
  by (intro good_pending_locked keeps_intros triple_update) simp_all

lemma ProcessPendingSends_tolerates:
  "PendingLock \<notin> H \<Longrightarrow> tolerates {UseAfterFree} (good H L A) (ProcessPendingSends env)"
  unfolding ProcessPendingSends_def ScheduleSendProcessing_def
  by (intro tolerates_intros process_sends_tolerates tolerates_keeps [OF good_take_pending]
      tolerates_keeps [OF keeps_ret] tolerates_keeps [OF good_UpdateQueueMetrics]
      tolerates_keeps [OF good_pending_locked] keeps_intros triple_update) simp_all

lemma posted_task_tolerates: "tolerates {UseAfterFree} (good {} L A) (posted_task env)"
  unfolding posted_task_def
  by (intro tolerates_intros ProcessPendingSends_tolerates tolerates_keeps [OF triple_update]
      tolerates_keeps [OF keeps_ask] tolerates_keeps [OF keeps_ret]) simp_all

section \<open>Properties\<close>

text \<open>C15. One run of \<open>ProcessPendingSends\<close>, whatever the socket answers to each frame, while the
  sends that fail have callbacks to live sessions: it returns, the queue is empty afterwards, the
  frames on the wire are exactly those the account gives, in the order of the queue, each send
  from its identity frame on; a session goes offline just when one of its sends did not get all
  three frames out, and the counters count the sends, except that a send whose identity or
  delimiter frame would block counts neither as sent nor as failed.\<close>

theorem pending_sends_processed:
  assumes "\<not> pending_sends_mutex w"
    and "callbacks_safe (heap w) (attempts env (frames_tried w) (pending_sends w))"
  shows "let xs = attempts env (frames_tried w) (pending_sends w) in
    \<exists>t. ProcessPendingSends env w = (Ok (), t)
    \<and> pending_sends t = [] \<and> \<not> sending_in_progress t
    \<and> wire t = wire w @ concat (map frames_taken xs)
    \<and> heap t = take_offline (told_offline xs) (heap w)
    \<and> metrics_manager t = map_option (\<lambda>k. k\<lparr>messages_sent := messages_sent k + count_attempts Delivered xs,
        messages_failed := messages_failed k + count_attempts Failed xs,
        pending_send_queue := if pending_sends w = [] then pending_send_queue k else 0\<rparr>) (metrics_manager w)"
  using ProcessPendingSends_exact [OF assms] by (simp add: Let_def)

text \<open>Two sends to the connection \<open>X\<close>; the socket takes the first and would block on the second.\<close>

definition two_sends :: world where
  "two_sends = (boot empty_database)\<lparr>heap := [0 \<mapsto> new_session ''X'' 0],
     pending_sends := [\<lparr>ps_identity = ''X'', ps_data = [1], ps_callback = Some (0, ''x'')\<rparr>,
       \<lparr>ps_identity = ''X'', ps_data = [2], ps_callback = Some (0, ''x'')\<rparr>]\<rparr>"

definition full_socket :: "nat \<Rightarrow> env" where
  "full_socket n = \<lparr>step_ok = (\<lambda>_. True), sqlite_errmsg = (\<lambda>_. []), wall_clock = int, order_mrows = (\<lambda>_ rs. rs),
     order_crows = (\<lambda>_ cs. cs), order_joined = (\<lambda>_ ps. ps),
     send_frame = (\<lambda>k. if k < n then FrameSent else WouldBlock), map_order = (\<lambda>xs. xs), config = default_config\<rparr>"

theorem pending_sends_processed_witness:
  "\<exists>t. ProcessPendingSends (full_socket 3) two_sends = (Ok (), t) \<and> pending_sends t = []
    \<and> wire t = [([88], True), ([], True), ([1], False)] \<and> \<not> is_online (the (heap t 0))
    \<and> messages_sent (the (metrics_manager t)) = 1 \<and> messages_failed (the (metrics_manager t)) = 0"
proof -
  have xs: "attempts (full_socket 3) (frames_tried two_sends) (pending_sends two_sends)
      = [(pending_sends two_sends ! 0, Delivered, 3), (pending_sends two_sends ! 1, Skipped, 1)]"
    by (simp add: two_sends_def try_send_def full_socket_def boot_def)
  then have "callbacks_safe (heap two_sends) (attempts (full_socket 3) (frames_tried two_sends) (pending_sends two_sends))"
    by (simp add: callbacks_safe_def callback_alive_def two_sends_def)
  moreover have "\<not> pending_sends_mutex two_sends" by (simp add: two_sends_def boot_def)
  ultimately obtain t where t: "ProcessPendingSends (full_socket 3) two_sends = (Ok (), t)" "pending_sends t = []"
    "wire t = wire two_sends @ concat (map frames_taken [(pending_sends two_sends ! 0, Delivered, 3),
       (pending_sends two_sends ! 1, Skipped, 1)])"
    "heap t = take_offline (told_offline [(pending_sends two_sends ! 0, Delivered, 3),
       (pending_sends two_sends ! 1, Skipped, 1)]) (heap two_sends)"
    "metrics_manager t = map_option (\<lambda>k. k\<lparr>messages_sent := messages_sent k
         + count_attempts Delivered [(pending_sends two_sends ! 0, Delivered, 3), (pending_sends two_sends ! 1, Skipped, 1)],
       messages_failed := messages_failed k
         + count_attempts Failed [(pending_sends two_sends ! 0, Delivered, 3), (pending_sends two_sends ! 1, Skipped, 1)],
       pending_send_queue := if pending_sends two_sends = [] then pending_send_queue k else 0\<rparr>) (metrics_manager two_sends)"
    using pending_sends_processed [of two_sends "full_socket 3"] unfolding xs Let_def by blast
  then show ?thesis
    by (intro exI [of _ t]) (simp add: two_sends_def boot_def frames_taken_def frames_of_def byte_of_char_def
        told_offline_simps told_offline_cons(1) [of _ "[_]"] take_offline_def zero_metrics_def
        count_attempts_def new_session_def)
qed

text \<open>First in, first out: when the socket takes every frame, a run of \<open>ProcessPendingSends\<close> puts
  identity, empty delimiter and data of each queued send on the wire, in the order they were
  queued, nothing else, and touches no session, whether or not they are alive.\<close>

theorem sends_in_order:
  assumes "\<not> pending_sends_mutex w" "\<And>n. send_frame env n = FrameSent"
  shows "\<exists>t. ProcessPendingSends env w = (Ok (), t) \<and> pending_sends t = [] \<and> heap t = heap w
    \<and> wire t = wire w @ concat (map (\<lambda>p. [(map byte_of_char (ps_identity p), True), ([], True),
        (ps_data p, False)]) (pending_sends w))"
proof -
  let ?xs = "attempts env (frames_tried w) (pending_sends w)"
  have "?xs = map (\<lambda>p. (p, Delivered, 3)) (pending_sends w)"
  proof -
    have "attempts env n ps = map (\<lambda>p. (p, Delivered, 3)) ps" for n ps
      by (induction ps arbitrary: n) (simp_all add: try_send_def assms(2))
    then show ?thesis .
  qed
  moreover from this have "callbacks_safe (heap w) ?xs" by (auto simp: callbacks_safe_def list_all_iff)
  moreover have "told_offline (map (\<lambda>p. (p, Delivered, 3)) ps) = {}" for ps
    by (auto simp: told_offline_def)
  ultimately show ?thesis using ProcessPendingSends_exact [OF assms(1), of env]
    by (auto simp: Let_def frames_taken_def frames_of_def comp_def take_offline_compose(1))
qed

theorem sends_in_order_witness:
  "\<exists>t. ProcessPendingSends (full_socket 99\<lparr>send_frame := (\<lambda>_. FrameSent)\<rparr>) two_sends = (Ok (), t)
    \<and> wire t = [([88], True), ([], True), ([1], False), ([88], True), ([], True), ([2], False)]"
  using sends_in_order [of two_sends "full_socket 99\<lparr>send_frame := (\<lambda>_. FrameSent)\<rparr>"]
  by (auto simp: two_sends_def boot_def byte_of_char_def)

end
