(* ===== verification/Timers.thy ===== *)
theory Timers
  imports Message_Flow Send_Queue
begin

text \<open>
  The two timers of the server: the cleanup of inactive sessions, which can end well only when
  there is nothing to clean up, and the retry of SENT messages older than the ACK timeout.
\<close>

section \<open>Which sessions are inactive\<close>

definition inactive :: "env \<Rightarrow> world \<Rightarrow> nat \<Rightarrow> bool" where
  "inactive env w a = (case heap w a of None \<Rightarrow> False | Some s \<Rightarrow> \<not> is_online s
     \<or> (SessionTimeout (config env) > 0
        \<and> whole_seconds (clock w - last_receive s) > SessionTimeout (config env)))"

text \<open>The sessions of a list are alive, with an empty queue nobody locks.\<close>

definition drained :: "(string \<times> nat) list \<Rightarrow> world \<Rightarrow> bool" where
  "drained cs w = (\<forall>(n, a) \<in> set cs. \<exists>s. heap w a = Some s \<and> outgoing_queue s = [] \<and> \<not> queue_mutex s)"

lemma drained_offline: "drained cs w \<Longrightarrow> drained cs (w\<lparr>heap := take_offline A (heap w)\<rparr>)"
  unfolding drained_def take_offline_def by (auto 0 4)

lemma inactive_offline:
  "inactive env w a \<Longrightarrow> inactive env (w\<lparr>heap := take_offline {a} (heap w)\<rparr>) b = inactive env w b"
  by (auto simp: inactive_def take_offline_def split: option.splits)

lemma inactive_names_eval:
  assumes "drained cs w"
  shows "inactive_names env cs w = (Ok (map fst (filter (\<lambda>(n, a). inactive env w a) cs)),
    w\<lparr>heap := take_offline (snd ` set (filter (\<lambda>(n, a). inactive env w a) cs)) (heap w)\<rparr>)"
  using assms
proof (induction cs arbitrary: w)
  case Nil
  show ?case by (simp add: take_offline_compose(1))
next
  case (Cons c cs)
  obtain n a where c: "c = (n, a)" by (cases c)
  obtain s where s: "heap w a = Some s" "outgoing_queue s = []" "\<not> queue_mutex s"
    using Cons.prems by (auto simp: drained_def c)
  show ?case
  proof (cases "inactive env w a")
    case True
    let ?w = "w\<lparr>heap := take_offline {a} (heap w)\<rparr>"
    have w: "w\<lparr>heap := (heap w)(a \<mapsto> s\<lparr>is_online := False\<rparr>)\<rparr> = ?w"
      using s by (simp add: take_offline_def fun_upd_def if_distrib cong: if_cong)
    have persist: "PersistQueueToDatabase env a ?w = (Ok (), ?w)"
      using s by (intro PersistQueueToDatabase_empty [where s = "s\<lparr>is_online := False\<rparr>"]) (simp_all add: take_offline_def)
    have online: "IsOnline a w = (Ok (is_online s), w)" using s by (simp add: IsOnline_def deref_def)
    have mark: "MarkOffline a w = (Ok (), ?w)" using s by (simp add: MarkOffline_def assign_def w)
    have "inactive_names env (c # cs) w = bind (inactive_names env cs) (\<lambda>names. ret (n # names)) ?w"
    proof (cases "is_online s")
      case True
      then have "SessionTimeout (config env) > 0" "IsExpired a (SessionTimeout (config env)) w = (Ok True, w)"
        using \<open>inactive env w a\<close> s online by (auto simp: IsExpired_def deref_def inactive_def bind_Ok)
      then show ?thesis using True online by (simp add: c bind_Ok bind_assoc seq_def mark persist)
    next
      case False
      then have "take_offline {a} (heap w) = heap w"
        using s by (simp add: take_offline_def fun_eq_iff)
      then show ?thesis using False online by (simp add: c bind_Ok)
    qed
    then show ?thesis using Cons.IH [of ?w] Cons.prems drained_offline [of cs w "{a}"] True
      by (simp add: c bind_def inactive_offline take_offline_compose(2) drained_def)
  next
    case False
    have online: "IsOnline a w = (Ok True, w)" using False s by (simp add: IsOnline_def deref_def inactive_def)
    have "SessionTimeout (config env) > 0 \<Longrightarrow> IsExpired a (SessionTimeout (config env)) w = (Ok False, w)"
      using False s online by (auto simp: IsExpired_def deref_def inactive_def bind_Ok)
    then have "inactive_names env (c # cs) w = inactive_names env cs w"
      using online by (cases "SessionTimeout (config env) > 0") (simp_all add: c bind_Ok bind_Ok [where a = False] bind_assoc)
    then show ?thesis using Cons False by (simp add: c drained_def)
  qed
qed

section \<open>Removing them\<close>

text \<open>What removing sessions needs of the registry.\<close>

definition removable :: "world \<Rightarrow> bool" where
  "removable w = (drained (active_clients w) w \<and> distinct (map fst (active_clients w))
     \<and> distinct (map snd (active_clients w)))"

lemma remove_inactive_eval:
  assumes "removable w"
  obtains t where "remove_inactive env name w = (Ok (), t)" "removable t"
    "registry_mutex t = registry_mutex w" "metrics_manager t = None \<longleftrightarrow> metrics_manager w = None"
proof (cases "map_of (active_clients w) name")
  case None
  then show ?thesis using that [of w] assms by (simp add: remove_inactive_def bind_def)
next
  case (Some a)
  let ?A = "AList.delete name (active_clients w)"
  have a: "(name, a) \<in> set (active_clients w)" using Some by (rule map_of_SomeD)
  then obtain s where s: "heap w a = Some s" "outgoing_queue s = []" "\<not> queue_mutex s"
    using assms by (auto simp: removable_def drained_def)
  let ?w = "w\<lparr>identity_to_name := AList.delete (identity s) (identity_to_name w), active_clients := ?A\<rparr>"
  let ?v = "if a \<in> snd ` set ?A \<or> a \<in> set (locals w) then ?w else ?w\<lparr>heap := (heap w)(a := None)\<rparr>"
  have persist: "PersistQueueToDatabase env a ?w = (Ok (), ?w)"
    using s by (intro PersistQueueToDatabase_empty [where s = s]) simp_all
  have collect: "collect env a ?w = (Ok (), ?v)"
    using persist by (simp add: collect_def Session_destructor_def no_except_def try_catch_def seq_def bind_def)
  have other: "b \<noteq> a" if b: "(n, b) \<in> set ?A" for n b
  proof
    assume "b = a"
    then have "(n, b) = (name, a)" using b a assms
      by (intro inj_onD [of snd "set (active_clients w)"])
         (auto simp: removable_def distinct_map set_AList_delete)
    then show False using b by (simp add: set_AList_delete)
  qed
  have sub: "distinct (map snd ?A)"
    using assms by (simp add: removable_def AList.delete_eq distinct_map_filter)
  have "removable (?v\<lparr>metrics_manager := k\<rparr>)" for k
    using assms other sub unfolding removable_def drained_def
    by (auto simp: set_AList_delete distinct_delete)
  then show ?thesis using that Some s collect
    by (simp add: remove_inactive_def bind_def seq_def deref_def metric_def)
qed

lemma remove_all_eval:
  assumes "removable w"
  shows "\<exists>t. for_each (\<lambda>name. seq (remove_inactive env name) (ret True)) names w = (Ok (), t)
    \<and> registry_mutex t = registry_mutex w \<and> (metrics_manager t = None \<longleftrightarrow> metrics_manager w = None)"
  using assms
proof (induction names arbitrary: w)
  case (Cons name names)
  obtain t where t: "remove_inactive env name w = (Ok (), t)" "removable t"
    "registry_mutex t = registry_mutex w" "metrics_manager t = None \<longleftrightarrow> metrics_manager w = None"
    using Cons.prems by (rule remove_inactive_eval)
  then show ?case using Cons.IH [of t] by (simp add: bind_def seq_def)
qed simp

section \<open>The cleanup\<close>

lemma registry_distinct: "registry_ok A I hp \<Longrightarrow> distinct (map snd A)"
  using registry_okD(1,3) [of A I hp] by (simp add: distinct_map) (auto simp: inj_on_def)

lemma good_removable:
  assumes "good {RegistryLock} L A w" "\<And>a s. a \<in> snd ` set A \<Longrightarrow> heap w a = Some s \<Longrightarrow> outgoing_queue s = []"
  shows "removable w"
proof -
  have r: "registry_ok A (identity_to_name w) (heap w)" "active_clients w = A"
    using assms(1) by (simp_all add: good_def)
  have "drained A w" unfolding drained_def
  proof safe
    fix n a assume a: "(n, a) \<in> set A"
    then have "live L A a" by force
    then obtain s where s: "heap w a = Some s" "queue_mutex s \<longleftrightarrow> QueueLock a \<in> {RegistryLock}"
      using assms(1) by (metis good_live)
    then show "\<exists>s. heap w a = Some s \<and> outgoing_queue s = [] \<and> \<not> queue_mutex s"
      using assms(2) [of a s] a by force
  qed
  then show ?thesis using registry_okD(1) [OF r(1)] registry_distinct [OF r(1)] r(2) by (simp add: removable_def)
qed

lemma removable_offline: "removable w \<Longrightarrow> removable (w\<lparr>heap := take_offline B (heap w)\<rparr>)"
  using drained_offline [of "active_clients w" w B] by (simp add: removable_def drained_def)

lemma metrics_deadlock:
  "registry_mutex w \<Longrightarrow> metrics_manager w \<noteq> None \<Longrightarrow> UpdateSessionMetrics w = (Fault SelfDeadlock, w)"
  by (auto simp: UpdateSessionMetrics_def registry_locked_def locked_def bind_def)

text \<open>C28. What the cleanup timer does when no session has messages queued: with every client online
  and heard from within the timeout it changes nothing; as soon as one client is inactive, the
  thread locks the registry mutex a second time in \<open>UpdateSessionMetrics\<close> and never comes back.\<close>

theorem cleanup_deadlocks:
  assumes "settled [] w" "keeps_entries env" "metrics_manager w \<noteq> None"
    and "\<And>a s. a \<in> snd ` set (active_clients w) \<Longrightarrow> heap w a = Some s \<Longrightarrow> outgoing_queue s = []"
  shows "if list_ex (\<lambda>(n, a). inactive env w a) (active_clients w)
    then fst (CleanupInactiveSessions env w) = Fault SelfDeadlock
    else CleanupInactiveSessions env w = (Ok (), w)"
proof -
  define A where "A = active_clients w"
  have g: "good {} [] A w" using settled_good [OF assms(1)] by (simp add: A_def)
  let ?w = "w\<lparr>registry_mutex := True\<rparr>"
  have "good {RegistryLock} [] A ?w" using g by (auto simp: good_def lock_flags_def db_wf_def)
  then have rem: "removable ?w" using assms(4) by (rule good_removable) (simp_all add: A_def)
  let ?cs = "map_order env A"
  let ?in = "filter (\<lambda>(n, a). inactive env ?w a) ?cs"
  have cs: "set ?cs = set A" using assms(2) by (metis keeps_entries_def mset_eq_setD)
  have in_w: "inactive env ?w = inactive env w" by (simp add: inactive_def fun_eq_iff split: option.split)
  let ?v = "?w\<lparr>heap := take_offline (snd ` set ?in) (heap ?w)\<rparr>"
  have names: "inactive_names env ?cs ?w = (Ok (map fst ?in), ?v)"
    using rem cs by (intro inactive_names_eval) (simp add: removable_def drained_def A_def)
  have run: "CleanupInactiveSessions env w = locked registry_mutex (\<lambda>b w. w\<lparr>registry_mutex := b\<rparr>)
      (\<lambda>u. seq (for_each (\<lambda>name. seq (remove_inactive env name) (ret True)) (map fst ?in))
         (if map fst ?in \<noteq> [] then UpdateSessionMetrics else ret ()) ?v) w"
    using g names by (simp add: CleanupInactiveSessions_def registry_locked_def locked_def good_unlocked(1) bind_Ok A_def)
  have unlocked: "\<not> registry_mutex w" using good_unlocked(1) [OF g] .
  have some: "list_ex (\<lambda>(n, a). inactive env w a) A \<longleftrightarrow> ?in \<noteq> []"
    using cs by (auto simp: list_ex_iff filter_empty_conv in_w)
  show ?thesis
  proof (cases "?in = []")
    case True
    have "w\<lparr>registry_mutex := False\<rparr> = w" using unlocked by simp
    with True show ?thesis using run unlocked some [unfolded A_def]
      by (simp add: locked_def take_offline_compose(1) A_def)
  next
    case False
    obtain t where "for_each (\<lambda>name. seq (remove_inactive env name) (ret True)) (map fst ?in) ?v = (Ok (), t)"
      "registry_mutex t" "metrics_manager t \<noteq> None"
      using remove_all_eval [OF removable_offline [OF rem], of env "map fst ?in" "snd ` set ?in"] assms(3) by auto
    then show ?thesis using False run unlocked some
      by (simp add: locked_def seq_def bind_def metrics_deadlock A_def)
  qed
qed

lemma settled_clock: "settled L (w\<lparr>clock := t\<rparr>) = settled L w"
  by (simp add: settled_def)

theorem cleanup_deadlocks_witness:
  "fst (CleanupInactiveSessions demo_env (bob_world\<lparr>clock := 61000000000\<rparr>)) = Fault SelfDeadlock
   \<and> CleanupInactiveSessions demo_env (bob_world\<lparr>clock := 60000000000\<rparr>) = (Ok (), bob_world\<lparr>clock := 60000000000\<rparr>)"
proof -
  have "metrics_manager bob_world \<noteq> None" "outgoing_queue bob_session = []"
    by (simp_all add: bob_world_def bob_session_def)
  moreover have "inactive demo_env (bob_world\<lparr>clock := t\<rparr>) 0 \<longleftrightarrow> 60 < whole_seconds t" for t
    by (simp add: inactive_def demo_env_def default_config_def bob_session_def)
  ultimately show ?thesis
    using cleanup_deadlocks [of "bob_world\<lparr>clock := 61000000000\<rparr>" demo_env]
      cleanup_deadlocks [of "bob_world\<lparr>clock := 60000000000\<rparr>" demo_env]
    by (simp add: settled_clock settled_bob demo_orders(2) whole_seconds_def)
qed

section \<open>The check for the ACK timeout\<close>

lemma good_find_online:
  assumes "keeps (good {} L A) (f None)" "\<And>a. a \<in> snd ` set A \<Longrightarrow> keeps (good {} L A) (f (Some a))"
  shows "keeps (good {} L A) (bind (find_online name) f)"
proof (rule triple_bind)
  show "triple (good {} L A) (find_online name)
      (\<lambda>x w. good {} L A w \<and> (\<forall>a. x = Some a \<longrightarrow> a \<in> snd ` set A)) (good {} L A)"
    unfolding find_online_def
  proof (rule good_registry_locked)
    let ?H = "{RegistryLock}"
    let ?Q = "\<lambda>x w. good ?H L A w \<and> (\<forall>a. x = Some a \<longrightarrow> a \<in> snd ` set A)"
    have found: "triple (\<lambda>w. good ?H L A w \<and> True) (case map_of A name of None \<Rightarrow> ret None
        | Some a \<Rightarrow> bind (IsOnline a) (\<lambda>online. ret (if online then Some a else None))) ?Q (good ?H L A)"
    proof (cases "map_of A name")
      case (Some a)
      have "keeps (good ?H L A) (IsOnline a)" using registered [OF Some] by (intro good_setters) simp
      moreover have "triple (good ?H L A) (ret (if online then Some a else None)) ?Q (good ?H L A)" for online
        by (rule triple_ret) (use registered [OF Some] in auto)
      ultimately show ?thesis unfolding Some option.case simp_thms by (rule triple_bind)
    qed (auto intro: triple_ret)
    show "triple (good (insert RegistryLock {}) L A) (bind (ask (\<lambda>w. map_of (active_clients w) name))
       (\<lambda>it. case it of None \<Rightarrow> ret None
          | Some a \<Rightarrow> bind (IsOnline a) (\<lambda>online. ret (if online then Some a else None))))
       (\<lambda>x w. good (insert RegistryLock {}) L A w \<and> (\<forall>a. x = Some a \<longrightarrow> a \<in> snd ` set A))
       (good (insert RegistryLock {}) L A)"
      by (rule triple_pre [OF triple_ask_client [where X = "\<lambda>_. True"]], rule found) simp
  qed simp
  show "triple (\<lambda>w. good {} L A w \<and> (\<forall>a. x = Some a \<longrightarrow> a \<in> snd ` set A)) (f x) (\<lambda>_. good {} L A) (good {} L A)" for x
    by (rule triple_fact) (use assms in \<open>cases x; simp\<close>)
qed

lemma good_CheckExpiredAcks: "keeps (good {} L A) (CheckExpiredAcks env)"
proof -
  have retry: "keeps (good {} L A) (retry_expired env p)" for p
    unfolding retry_expired_def retry_send_def
    by (rule keeps_seq [OF good_store(4)], rule good_find_online; simp only: option.case;
        intro keeps_intros good_scope good_store good_registered; assumption)
  show ?thesis unfolding CheckExpiredAcks_def Let_def
    by (intro keeps_intros good_store good_metric retry)
qed

section \<open>The invariant under the cleanup\<close>

definition same_mutex :: "world \<Rightarrow> world \<Rightarrow> bool" where
  "same_mutex s t = (registry_mutex t = registry_mutex s)"

interpretation mutex: two_state same_mutex
  by unfold_locales (simp_all add: same_mutex_def)

lemma mutex_store: "always same_mutex (PersistMessageForClient env name m)"
  by (rule always_mono [OF PersistMessageForClient_frame]) (drule world_frame(1), simp add: same_mutex_def)

lemma mutex_deref: "always same_mutex (deref a f)"
  by (simp add: always_def deref_def same_mutex_def split: option.split)

lemma mutex_assign: "always same_mutex (assign a f)"
  by (simp add: always_def assign_def same_mutex_def split: option.split)

lemma mutex_persist_rounds: "always same_mutex (persist_rounds env a n)"
proof (induction n)
  case (Suc n)
  have "always same_mutex (case p of (name, queue) \<Rightarrow> case queue of [] \<Rightarrow> ret ()
     | front # _ \<Rightarrow> seq (PersistMessageForClient env name front)
         (seq (assign a (\<lambda>s. s\<lparr>outgoing_queue := tl (outgoing_queue s)\<rparr>)) (persist_rounds env a n)))"
    for p :: "string \<times> message list"
    by (cases p; cases "snd p")
       (simp_all only: prod.case list.case snd_conv mutex.ret_always mutex.seq_always mutex_store mutex_assign Suc.IH)
  then show ?case unfolding persist_rounds.simps by (rule mutex.bind_always [OF mutex_deref])
qed (simp only: persist_rounds.simps mutex.ret_always)

lemma mutex_queue_locked: "always same_mutex m \<Longrightarrow> always same_mutex (queue_locked a m)"
  unfolding queue_locked_def
  by (intro mutex.seq_always mutex_deref mutex.locked_always) (simp_all add: same_mutex_def)

lemma mutex_remove: "always same_mutex (remove_inactive env name)"
proof -
  have persist: "always same_mutex (PersistQueueToDatabase env a)" for a
    unfolding PersistQueueToDatabase_def
    by (intro mutex.combinators mutex_deref mutex_queue_locked mutex_persist_rounds)
  have "always same_mutex (case it of None \<Rightarrow> ret () | Some a \<Rightarrow> bind (deref a identity) (\<lambda>ident.
           seq (update (\<lambda>w. w\<lparr>identity_to_name := AList.delete ident (identity_to_name w)\<rparr>))
          (seq (update (\<lambda>w. w\<lparr>active_clients := AList.delete name (active_clients w)\<rparr>))
          (seq (collect env a) (metric IncrementClientsTimeout)))))" for it
    unfolding collect_def Session_destructor_def metric_def
    by (cases it; simp only: option.case)
       (intro mutex.combinators mutex_deref persist mutex.update_always; simp add: same_mutex_def)+
  then show ?thesis unfolding remove_inactive_def by (intro mutex.combinators)
qed

text \<open>\<open>attended b a\<close>: the session at \<open>a\<close> is alive, its queue locked or not as \<open>b\<close> says, and the store is free.\<close>

definition attended :: "bool \<Rightarrow> nat \<Rightarrow> world \<Rightarrow> bool" where
  "attended b a w = (\<not> db_mutex w \<and> (\<exists>s. heap w a = Some s \<and> queue_mutex s = b))"

lemma attended_persist: "keeps (attended b a) (PersistMessageForClient env name m)"
proof -
  have "keeps (\<lambda>w. \<not> db_mutex w) (SaveMessage env msg :: (world, u64) action)" for msg
    using calm_storage(1) [of env msg] by (intro tripleI) (auto simp: calm_def split: prod.splits outcome.splits
      dest!: spec)
  then have "keeps (\<lambda>w. \<not> db_mutex w) (PersistMessageForClient env name m)"
    unfolding PersistMessageForClient_def by (intro keeps_intros)
  from triple_always [OF this PersistMessageForClient_frame, where X = "\<lambda>w. \<exists>s. heap w a = Some s \<and> queue_mutex s = b"]
  show ?thesis by (rule triple_conseq) (auto simp: attended_def dest: world_frame(3))
qed

lemma attended_deref: "keeps (attended b a) (deref a f)"
  by (rule tripleI) (auto simp: deref_def attended_def)

lemma attended_pop: "keeps (attended b a) (assign a (\<lambda>s. s\<lparr>outgoing_queue := tl (outgoing_queue s)\<rparr>))"
  by (rule tripleI) (auto simp: assign_def attended_def)

lemma attended_rounds: "keeps (attended b a) (persist_rounds env a n)"
proof (induction n)
  case (Suc n)
  have "keeps (attended b a) (case p of (name, queue) \<Rightarrow> case queue of [] \<Rightarrow> ret ()
     | front # _ \<Rightarrow> seq (PersistMessageForClient env name front)
         (seq (assign a (\<lambda>s. s\<lparr>outgoing_queue := tl (outgoing_queue s)\<rparr>)) (persist_rounds env a n)))"
    for p :: "string \<times> message list"
    by (cases p; cases "snd p") (auto intro!: keeps_seq keeps_ret attended_persist attended_pop Suc.IH)
  then show ?case unfolding persist_rounds.simps by (rule keeps_bind [OF attended_deref])
qed (simp only: persist_rounds.simps keeps_ret)

lemma attended_queue: "keeps (attended False a) (PersistQueueToDatabase env a)"
proof -
  have rounds: "keeps (attended True a) (bind (deref a (\<lambda>s. length (outgoing_queue s))) (persist_rounds env a))"
    by (intro keeps_bind attended_deref attended_rounds)
  have "keeps (attended False a) (queue_locked a (bind (deref a (\<lambda>s. length (outgoing_queue s))) (persist_rounds env a)))"
    unfolding queue_locked_def
    by (rule keeps_seq [OF attended_deref], rule triple_locked, rule triple_conseq [OF rounds])
       (auto simp: attended_def)
  then show ?thesis unfolding PersistQueueToDatabase_def
    by (intro keeps_bind attended_deref keeps_if keeps_ret)
qed

text \<open>Every registered session is alive, and removing one harms no other: the only fault is an exception
  in the destructor of the session removed.\<close>

definition attended_registry :: "world \<Rightarrow> bool" where
  "attended_registry w = (\<not> db_mutex w \<and> distinct (map snd (active_clients w))
     \<and> (\<forall>a \<in> snd ` set (active_clients w). attended False a w))"

lemma attended_destructor:
  assumes "attended False a w" "attended_registry w" "a \<notin> snd ` set (active_clients w)"
  shows "case Session_destructor env a w of (Ok x, t) \<Rightarrow> attended_registry t | (Throw e, t) \<Rightarrow> False
    | (Fault x, t) \<Rightarrow> x = Terminate"
proof -
  obtain r t where rt: "PersistQueueToDatabase env a w = (r, t)" by (cases "PersistQueueToDatabase env a w")
  have other: "elsewhere a w t" using alwaysD [OF elsewhere_PersistQueueToDatabase rt] .
  have clients: "active_clients t = active_clients w"
    using alwaysD [OF registry_session(1) rt] by (auto simp: same_registry_def)
  from attended_queue [of a env] assms(1) have "attended False a t" "no_fault r"
    by (rule tripleE; use rt in simp)+
  then show ?thesis using assms(2,3) other clients rt
    by (cases r) (auto simp: Session_destructor_def no_except_def try_catch_def seq_def bind_def attended_registry_def
        attended_def elsewhere_def)
qed

lemma attended_remove: "tolerates {Terminate} attended_registry (remove_inactive env name)"
  unfolding tolerates_def
proof (intro allI impI)
  fix w assume w: "attended_registry w"
  show "case remove_inactive env name w of (Ok x, t) \<Rightarrow> attended_registry t | (Throw e, t) \<Rightarrow> attended_registry t
      | (Fault x, t) \<Rightarrow> x \<in> {Terminate}"
  proof (cases "map_of (active_clients w) name")
    case None
    then show ?thesis using w by (simp add: remove_inactive_def bind_def)
  next
    case (Some a)
    let ?A = "AList.delete name (active_clients w)"
    have a: "(name, a) \<in> set (active_clients w)" using Some by (rule map_of_SomeD)
    then obtain s where s: "heap w a = Some s" "attended False a w"
      using w by (force simp: attended_registry_def attended_def)
    let ?w = "w\<lparr>identity_to_name := AList.delete (identity s) (identity_to_name w), active_clients := ?A\<rparr>"
    have left: "attended_registry ?w"
      using w by (auto simp: attended_registry_def attended_def AList.delete_eq distinct_map_filter set_AList_delete)
    have run: "remove_inactive env name w = bind (collect env a) (\<lambda>_. metric IncrementClientsTimeout) ?w"
      using Some s by (simp add: remove_inactive_def seq_def bind_def deref_def)
    show ?thesis
    proof (cases "a \<in> snd ` set ?A \<or> a \<in> set (locals w)")
      case True
      then have "collect env a ?w = (Ok (), ?w)" by (auto simp: collect_def bind_def)
      then show ?thesis unfolding run using left
        by (simp add: bind_def metric_def attended_registry_def attended_def)
    next
      case False
      then have "collect env a ?w = Session_destructor env a ?w" by (simp add: collect_def bind_def)
      moreover have "attended False a ?w" "a \<notin> snd ` set (active_clients ?w)"
        using s False by (simp_all add: attended_def)
      from attended_destructor [OF this(1) left this(2), of env] have
        "case Session_destructor env a ?w of (Ok x, t) \<Rightarrow> attended_registry t | (Throw e, t) \<Rightarrow> False
          | (Fault x, t) \<Rightarrow> x = Terminate" .
      ultimately show ?thesis unfolding run
        by (auto simp: bind_def metric_def attended_registry_def attended_def split: prod.splits outcome.splits)
    qed
  qed
qed

lemma nothrow_remove: "nothrow (remove_inactive env name)"
  unfolding remove_inactive_def collect_def Session_destructor_def
  by (intro nothrow_rules nothrow_session)

text \<open>Once a session is removed the cleanup does not return.\<close>

lemma removal_faults:
  assumes "registry_mutex w" "metrics_manager w \<noteq> None" "attended_registry w"
  shows "\<exists>x. fst (seq (for_each (\<lambda>name. seq (remove_inactive env name) (ret True)) names) UpdateSessionMetrics w)
      = Fault x \<and> (x = SelfDeadlock \<or> x = Terminate)"
proof -
  have "\<exists>r t. for_each (\<lambda>name. seq (remove_inactive env name) (ret True)) names w = (r, t)
      \<and> ((r = Ok () \<and> registry_mutex t \<and> metrics_manager t \<noteq> None) \<or> r = Fault Terminate)"
    using assms
  proof (induction names arbitrary: w)
    case (Cons name names)
    obtain r t where rt: "remove_inactive env name w = (r, t)" by (cases "remove_inactive env name w")
    have "always same_metrics (remove_inactive env name)" unfolding remove_inactive_def
      by (intro world_metrics.session_rules world_metrics.world_update; simp add: server_simps)
    from alwaysD [OF this rt] alwaysD [OF mutex_remove rt] Cons.prems
    have t: "registry_mutex t" "metrics_manager t \<noteq> None" by (simp_all add: same_metrics_def same_mutex_def)
    note kept = attended_remove [of env name]
    show ?case
    proof (cases r)
      case (Ok x)
      have "attended_registry t" using tolerates_Ok [OF kept Cons.prems(3)] rt Ok by blast
      then show ?thesis using Cons.IH [OF t] rt Ok by (simp add: bind_def seq_def)
    next
      case (Throw e)
      then show ?thesis using nothrow_remove rt by (auto simp: nothrow_def)
    next
      case (Fault x)
      then show ?thesis using tolerates_Fault [OF kept Cons.prems(3)] rt by (auto simp: bind_def seq_def)
    qed
  qed simp
  then show ?thesis by (auto simp: seq_def bind_def metrics_deadlock)
qed

lemma good_attended: "good {RegistryLock} [] A w \<Longrightarrow> attended_registry w"
proof -
  assume g: "good {RegistryLock} [] A w"
  then have r: "registry_ok A (identity_to_name w) (heap w)" "active_clients w = A" "\<not> db_mutex w"
    by (simp_all add: good_def lock_flags_def)
  have "attended False a w" if a: "a \<in> snd ` set A" for a
  proof -
    obtain s where "heap w a = Some s" "queue_mutex s \<longleftrightarrow> QueueLock a \<in> {RegistryLock}"
      using g a by (metis good_live UnI1)
    then show ?thesis using r(3) by (simp add: attended_def)
  qed
  then show ?thesis using r registry_distinct [OF r(1)] by (simp add: attended_registry_def)
qed

lemma inactive_names_good:
  "(\<forall>(n, a) \<in> set cs. live L A a) \<Longrightarrow> keeps (good {RegistryLock} L A) (inactive_names env cs)"
proof (induction cs)
  case (Cons c cs)
  obtain n a where c: "c = (n, a)" by (cases c)
  have a: "live L A a" using Cons.prems by (simp add: c)
  have persist: "keeps (good {RegistryLock} L A) (PersistQueueToDatabase env a)"
    by (rule good_persist [OF a]) simp_all
  have "keeps (good {RegistryLock} L A) (inactive_names env cs)" using Cons by simp
  then show ?case unfolding c inactive_names.simps
    by (intro keeps_intros good_setters [OF a] persist)
qed (simp only: inactive_names.simps keeps_ret)

text \<open>\<open>equipped\<close>: the invariant, with the metrics manager the server always has.\<close>

definition equipped :: "world \<Rightarrow> bool" where
  "equipped w = (settled [] w \<and> metrics_manager w \<noteq> None)"

lemma cleanup_tolerates:
  assumes "keeps_entries env"
  shows "tolerates {SelfDeadlock, Terminate} equipped (CleanupInactiveSessions env)"
  unfolding tolerates_def
proof (intro allI impI)
  fix w assume e: "equipped w"
  define A where "A = active_clients w"
  have g: "good {} [] A w" using settled_good [of "[]" w] e by (simp add: A_def equipped_def)
  let ?w = "w\<lparr>registry_mutex := True\<rparr>" and ?cs = "map_order env A"
  have g1: "good {RegistryLock} [] A ?w" using g by (auto simp: good_def lock_flags_def db_wf_def)
  have cs: "set ?cs = set A" using assms by (metis keeps_entries_def mset_eq_setD)
  obtain r u where ru: "inactive_names env ?cs ?w = (r, u)" by (cases "inactive_names env ?cs ?w")
  have "keeps (good {RegistryLock} [] A) (inactive_names env ?cs)"
    by (rule inactive_names_good) (use cs in force)
  from this g1 have u: "no_fault r \<and> good {RegistryLock} [] A u"
    using ru by (elim tripleE) auto
  then have free: "good {} [] A (u\<lparr>registry_mutex := False\<rparr>)"
    by (auto simp: good_def lock_flags_def db_wf_def)
  have "registry_mutex u" using u by (simp add: good_def lock_flags_def)
  moreover have "always same_metrics (inactive_names env ?cs)" by (rule world_metrics.inactive_names_R)
  from alwaysD [OF this ru] e have m: "metrics_manager u \<noteq> None" by (simp add: same_metrics_def equipped_def)
  moreover have "attended_registry u" using u by (auto intro: good_attended)
  ultimately have faults: "\<exists>x. fst (seq (for_each (\<lambda>name. seq (remove_inactive env name) (ret True)) names)
      UpdateSessionMetrics u) = Fault x \<and> (x = SelfDeadlock \<or> x = Terminate)" for names by (rule removal_faults)
  have unlocked: "\<not> registry_mutex w" using good_unlocked(1) [OF g] .
  have keep: "equipped (u\<lparr>registry_mutex := False\<rparr>)" using free m by (auto simp: equipped_def settled_def)
  show "case CleanupInactiveSessions env w of (Ok a, t) \<Rightarrow> equipped t | (Throw e, t) \<Rightarrow> equipped t
      | (Fault x, t) \<Rightarrow> x \<in> {SelfDeadlock, Terminate}"
  proof (cases r)
    case (Ok names)
    show ?thesis
    proof (cases "names = []")
      case True
      then show ?thesis using ru Ok unlocked keep
        by (simp add: CleanupInactiveSessions_def registry_locked_def locked_def bind_def seq_def A_def)
    next
      case False
      then show ?thesis using ru Ok unlocked faults [of names]
        by (auto simp: CleanupInactiveSessions_def registry_locked_def locked_def bind_Ok A_def
            split: prod.splits outcome.splits)
    qed
  next
    case (Throw x)
    then show ?thesis using ru unlocked keep
      by (simp add: CleanupInactiveSessions_def registry_locked_def locked_def bind_def A_def)
  next
    case (Fault x)
    then show ?thesis using u by simp
  qed
qed

end
