(* ===== verification/Event_Loop.thy ===== *)
theory Event_Loop
  imports Timers
begin

text \<open>
  Receiving: what one frame, and one wake-up of the server's event handler, can do to the broker.
  A frame is handled without an exception and without a fault, a frame that can not be decoded
  changes two counters, and only the send queue is written for the socket.
\<close>

section \<open>Handlers write to the send queue only\<close>

definition queue_grows :: "world \<Rightarrow> world \<Rightarrow> bool" where
  "queue_grows s t = (\<exists>new. pending_sends t = pending_sends s @ new
     \<and> posted_sends t = posted_sends s + length new \<and> sending_in_progress t = sending_in_progress s
     \<and> running t = running s \<and> wire t = wire s \<and> frames_tried t = frames_tried s)"

lemma queue_grows_frame:
  fixes m :: "(world, 'a) action"
  assumes "always (\<lambda>s t. database.more t = database.more s) m"
  shows "always queue_grows m"
proof (rule always_mono [OF assms])
  fix s t :: world
  assume "database.more t = database.more s"
  then show "queue_grows s t" by (cases s; cases t) (simp add: queue_grows_def)
qed

lemma queue_grows_send: "always queue_grows (SendToClient ident data callback)"
  by (simp add: always_def queue_grows_def SendToClient_def pending_locked_def locked_def
      ScheduleSendProcessing_def seq_def bind_def)

interpretation grows: handler_relation queue_grows
proof unfold_locales
  fix s t u assume "queue_grows s t" "queue_grows t u"
  then obtain new new' where "pending_sends t = pending_sends s @ new" "pending_sends u = pending_sends t @ new'"
    "posted_sends t = posted_sends s + length new" "posted_sends u = posted_sends t + length new'"
    "sending_in_progress u = sending_in_progress s \<and> running u = running s \<and> wire u = wire s
      \<and> frames_tried u = frames_tried s"
    by (auto simp: queue_grows_def)
  then show "queue_grows s u" unfolding queue_grows_def by (intro exI [of _ "new @ new'"]) simp
qed (rule frame.storage_R [THEN queue_grows_frame] queue_grows_send
      | simp add: queue_grows_def same_server_def)+

section \<open>One frame\<close>

lemma settled_metric: "keeps (settled L) (metric f)"
  by (rule settled_keeps) (rule good_metric)

lemma settled_process_frame:
  "keeps_entries env \<Longrightarrow> keeps (settled L) (process_frame env ident data)"
  unfolding process_frame_def
  by (intro keeps_intros settled_metric settled_RouteMessage)

lemma nothrow_process_frame: "nothrow (process_frame env ident data)"
  unfolding process_frame_def by (intro nothrow_try nothrow_session)

text \<open>C26. One received frame, whatever its bytes, whatever SQLite answers: handling it returns
  without an exception and without a fault and keeps the invariant of the broker; nothing is
  written to the socket, sends are only appended to the queue, with one processing task posted
  for each; and a frame that \<open>Deserialize\<close> refuses changes nothing but the counters of received
  and failed messages.\<close>

theorem frame_processed:
  assumes "settled [] w" "keeps_entries env"
  shows "\<exists>t. process_frame env ident data w = (Ok (), t) \<and> settled [] t
    \<and> wire t = wire w \<and> (\<exists>new. pending_sends t = pending_sends w @ new \<and> posted_sends t = posted_sends w + length new)
    \<and> (case Deserialize data of Inr m \<Rightarrow> True
       | Inl e \<Rightarrow> t = w\<lparr>metrics_manager := map_option (\<lambda>k. k\<lparr>messages_received := messages_received k + 1,
           messages_failed := messages_failed k + 1\<rparr>) (metrics_manager w)\<rparr>)"
proof -
  obtain t where t: "process_frame env ident data w = (Ok (), t)" "settled [] t"
    using settled_process_frame [OF assms(2)] nothrow_process_frame assms(1) by (rule keeps_nothrow) auto
  have "always queue_grows (process_frame env ident data)"
    unfolding process_frame_def by (intro grows.session_rules grows.RouteMessage_R)
  then have "queue_grows w t" using t(1) by (rule alwaysD)
  moreover have "t = w\<lparr>metrics_manager := map_option (\<lambda>k. k\<lparr>messages_received := messages_received k + 1,
      messages_failed := messages_failed k + 1\<rparr>) (metrics_manager w)\<rparr>" if "Deserialize data = Inl e" for e
    using t(1) that by (simp add: process_frame_def metric_def try_catch_def seq_def bind_def option.map_comp
        comp_def IncrementMessagesReceived_def IncrementMessagesFailed_def)
  ultimately show ?thesis using t by (auto simp: queue_grows_def split: sum.split)
qed

theorem frame_processed_witness:
  "\<exists>t. process_frame demo_env [65] [1, 2] bob_world = (Ok (), t) \<and> settled [] t
    \<and> pending_sends t = [] \<and> messages_failed (the (metrics_manager t)) = 1"
proof -
  have "Deserialize [1, 2] = Inl (RuntimeError ''Message too short'')"
    by (simp add: Deserialize_def HEADER_SIZE_def)
  moreover have "metrics_manager bob_world = Some (zero_metrics\<lparr>clients_registered := 1, active_sessions := 1\<rparr>)"
    by (simp add: bob_world_def)
  ultimately show ?thesis
    using frame_processed [OF settled_bob demo_orders(2), of "[65]" "[1, 2]"]
    by (auto simp: zero_metrics_def)
qed

section \<open>One wake-up\<close>

lemma tolerates_settled: "(\<And>A. tolerates F (good {} L A) m) \<Longrightarrow> tolerates F (settled L) m"
  by (fastforce simp: tolerates_def settled_def split: outcome.splits prod.splits)

lemma tolerates_equipped:
  assumes "tolerates F (settled []) m" "always same_metrics m"
  shows "tolerates F equipped m"
  unfolding tolerates_def
proof (intro allI impI)
  fix w assume e: "equipped w"
  obtain r t where rt: "m w = (r, t)" by (cases "m w")
  have "settled [] w" "metrics_manager w \<noteq> None" using e by (simp_all add: equipped_def)
  with assms(1) alwaysD [OF assms(2) rt] rt
  show "case m w of (Ok a, t) \<Rightarrow> equipped t | (Throw e, t) \<Rightarrow> equipped t | (Fault x, t) \<Rightarrow> x \<in> F"
    by (auto simp: tolerates_def equipped_def same_metrics_def dest!: spec [of _ w] split: outcome.splits)
qed

lemma settled_receive_loop: "keeps_entries env \<Longrightarrow> keeps (settled L) (receive_loop env items)"
proof (induction env items rule: receive_loop.induct)
  case (5 env ident data items)
  have "keeps (settled L) (receive_loop env items)" using 5(1) [of True] 5(2) by simp
  then show ?case unfolding receive_loop.simps
    by (intro keeps_intros settled_process_frame 5(2))
qed (simp_all only: receive_loop.simps keeps_ret keeps_throw)

lemma receive_loop_throws:
  "receive_loop env items w = (Throw e, t) \<Longrightarrow> RecvError \<in> set items"
proof (induction env items arbitrary: w rule: receive_loop.induct)
  case (5 env ident data items)
  obtain r u where ru: "process_frame env ident data w = (r, u)" by (cases "process_frame env ident data w")
  then have "\<not> (\<exists>e. r = Throw e)" using nothrow_process_frame [of env ident data] by (auto simp: nothrow_def)
  then show ?case using 5(1) [of True u] 5(2) ru
    by (cases r) (auto simp: seq_def bind_def split: if_splits)
qed simp_all

lemma keeps_get_events: "keeps I (get_events events)"
  by (cases events) (simp_all add: get_events_def keeps_ret keeps_throw)

lemma OnZmqEvent_tolerates:
  assumes "keeps_entries env"
  shows "tolerates {UseAfterFree} equipped (OnZmqEvent env ec events items)"
proof (rule tolerates_equipped [OF _ world_metrics.server_R(1)])
  have "tolerates {UseAfterFree} (settled []) (ProcessPendingSends env)"
    by (rule tolerates_settled, rule ProcessPendingSends_tolerates) simp
  moreover have "keeps (settled []) UpdateQueueMetrics"
    by (rule settled_keeps, rule good_UpdateQueueMetrics) simp
  ultimately show "tolerates {UseAfterFree} (settled []) (OnZmqEvent env ec events items)"
    unfolding OnZmqEvent_def
    by (intro tolerates_intros)
       (simp_all only: tolerates_keeps keeps_ret keeps_ask keeps_get_events settled_receive_loop assms)
qed

lemma nothrow_sends: "nothrow UpdateQueueMetrics" "nothrow (ProcessPendingSends env)"
proof -
  show metrics: "nothrow UpdateQueueMetrics"
    unfolding UpdateQueueMetrics_def pending_locked_def by (intro nothrow_rules nothrow_session)
  have callback: "nothrow (run_callback c b)" for c b
    unfolding run_callback_def
    by (intro nothrow_option nothrow_simple) (simp add: nothrow_simple nothrow_session split: prod.split)
  have "nothrow (process_sends env ps)" for ps
  proof (induction ps)
    case (Cons p ps)
    show ?case unfolding process_sends.simps process_send_def
      by (intro nothrow_rules nothrow_session callback Cons.IH)
  qed (simp only: process_sends.simps nothrow_simple)
  then show "nothrow (ProcessPendingSends env)"
    unfolding ProcessPendingSends_def take_pending_def ScheduleSendProcessing_def pending_locked_def
    by (intro nothrow_rules metrics)
qed

lemma OnZmqEvent_throws:
  assumes "OnZmqEvent env ec events items w = (Throw e, t)"
  shows "events = EventsError \<or> RecvError \<in> set items"
proof (rule ccontr)
  assume no: "\<not> (events = EventsError \<or> RecvError \<in> set items)"
  then have "nothrow (receive_loop env items)"
    using receive_loop_throws by (fastforce simp: nothrow_def)
  moreover have "nothrow (get_events events)" using no by (cases events) (simp_all add: get_events_def nothrow_simple)
  ultimately have "nothrow (OnZmqEvent env ec events items)"
    unfolding OnZmqEvent_def by (intro nothrow_rules nothrow_sends)
  then show False using assms by (simp add: nothrow_def)
qed

end
