(* ===== verification/Broker.thy ===== *)
theory Broker
  imports Event_Loop
begin

text \<open>
  The running broker as a state machine: the state of the server together with what the
  \<open>io_context\<close> has outstanding, and one step per handler the worker threads run. The answers of
  SQLite and of the socket are the environment's, the frames that arrive are arbitrary.
\<close>

section \<open>The machine\<close>

text \<open>Whether a wait on the socket and the two timers are outstanding; posted tasks are counted in
  the state of the server.\<close>

record machine =
  broker :: world
  waits_zmq :: bool
  cleanup_armed :: bool
  ack_armed :: bool

datatype event = SocketEvent error_code socket_events "recv_item list" | RunPosted
  | CleanupTick bool | AckTick bool | TimePasses nat | StopServer

text \<open>After the constructor and the two calls at the head of \<open>Server::Run\<close>.\<close>

definition Run :: "env \<Rightarrow> database \<Rightarrow> machine" where
  "Run env db = (let w = boot db in \<lparr>broker = w, waits_zmq = True,
     cleanup_armed = (fst (SetupCleanupTimer w) = Ok True),
     ack_armed = (fst (SetupAckTimeoutTimer env w) = Ok True)\<rparr>)"

definition on_broker :: "(world, 'a) action \<Rightarrow> ('a \<Rightarrow> machine \<Rightarrow> machine) \<Rightarrow> (machine, unit) action" where
  "on_broker m f = (\<lambda>M. case m (broker M) of
       (Ok x, w) \<Rightarrow> (Ok (), f x (M\<lparr>broker := w\<rparr>))
     | (Throw e, w) \<Rightarrow> (Throw e, M\<lparr>broker := w\<rparr>)
     | (Fault x, w) \<Rightarrow> (Fault x, M\<lparr>broker := w\<rparr>))"

fun enabled :: "event \<Rightarrow> machine \<Rightarrow> bool" where
  "enabled (SocketEvent ec events items) M = waits_zmq M"
| "enabled RunPosted M = (posted_sends (broker M) > 0)"
| "enabled (CleanupTick ec) M = cleanup_armed M"
| "enabled (AckTick ec) M = ack_armed M"
| "enabled (TimePasses d) M = True"
| "enabled StopServer M = True"

fun handle :: "env \<Rightarrow> event \<Rightarrow> (machine, unit) action" where
  "handle env (SocketEvent ec events items) = on_broker (worker (OnZmqEvent env ec events items))
     (\<lambda>again M. M\<lparr>waits_zmq := again\<rparr>)"
| "handle env RunPosted = on_broker (worker (posted_task env)) (\<lambda>_ M. M)"
| "handle env (CleanupTick ec) = on_broker (worker (cleanup_timer_fires env ec))
     (\<lambda>again M. M\<lparr>cleanup_armed := again\<rparr>)"
| "handle env (AckTick ec) = on_broker (worker (ack_timer_fires env ec)) (\<lambda>again M. M\<lparr>ack_armed := again\<rparr>)"
| "handle env (TimePasses d) = on_broker (update (\<lambda>w. w\<lparr>clock := clock w + int d\<rparr>)) (\<lambda>_ M. M)"
| "handle env StopServer = on_broker Stop (\<lambda>_ M. M)"

inductive step :: "env \<Rightarrow> machine \<Rightarrow> event \<Rightarrow> machine \<Rightarrow> bool" where
  handled: "enabled e M \<Longrightarrow> handle env e M = (Ok (), M') \<Longrightarrow> step env M e M'"

inductive crashes :: "env \<Rightarrow> machine \<Rightarrow> event \<Rightarrow> fault \<Rightarrow> bool" where
  faulted: "enabled e M \<Longrightarrow> handle env e M = (Fault x, M') \<Longrightarrow> crashes env M e x"

inductive runs :: "env \<Rightarrow> machine \<Rightarrow> event list \<Rightarrow> machine \<Rightarrow> bool" where
  run_empty: "runs env M [] M"
| run_step: "step env M e M' \<Longrightarrow> runs env M' es M'' \<Longrightarrow> runs env M (e # es) M''"

inductive_cases step_elim: "step env M e M'"
inductive_cases crashes_elim: "crashes env M e x"
inductive_simps runs_simps: "runs env M [] M'" "runs env M (e # es) M'"

lemma step_broker:
  assumes "step env M e M'"
  obtains (sock) ec events items b where "e = SocketEvent ec events items" "waits_zmq M"
      "OnZmqEvent env ec events items (broker M) = (Ok b, broker M')"
    | (posted) "e = RunPosted" "posted_sends (broker M) > 0" "posted_task env (broker M) = (Ok (), broker M')"
    | (clean) ec b where "e = CleanupTick ec" "cleanup_timer_fires env ec (broker M) = (Ok b, broker M')"
    | (ack) ec b where "e = AckTick ec" "ack_timer_fires env ec (broker M) = (Ok b, broker M')"
    | (time) d where "e = TimePasses d" "broker M' = (broker M)\<lparr>clock := clock (broker M) + int d\<rparr>"
    | (stop) "e = StopServer" "Stop (broker M) = (Ok (), broker M')"
proof -
  from assms have e: "enabled e M" "handle env e M = (Ok (), M')" by (auto elim: step_elim)
  show ?thesis
  proof (cases e)
    case (SocketEvent ec events items)
    with e show ?thesis using sock
      by (auto simp: on_broker_def worker_def no_except_def try_catch_def split: prod.splits outcome.splits)
  qed (use e that in \<open>auto simp: on_broker_def worker_def no_except_def try_catch_def split: prod.splits outcome.splits\<close>)
qed

section \<open>The invariant of a run\<close>

lemma equipped_good: "equipped w \<Longrightarrow> good {} [] (active_clients w) w"
  by (auto simp: equipped_def intro: settled_good)

lemma timers_tolerate:
  assumes "keeps_entries env"
  shows "tolerates {SelfDeadlock, Terminate} equipped (cleanup_timer_fires env ec)" "tolerates {} equipped (ack_timer_fires env ec)"
proof -
  show "tolerates {SelfDeadlock, Terminate} equipped (cleanup_timer_fires env ec)"
    unfolding cleanup_timer_fires_def SetupCleanupTimer_def
    by (intro tolerates_intros cleanup_tolerates assms tolerates_keeps [OF keeps_ask] tolerates_keeps [OF keeps_ret])
  have "tolerates {} (settled []) (ack_timer_fires env ec)"
    unfolding ack_timer_fires_def SetupAckTimeoutTimer_def
    by (intro tolerates_intros tolerates_keeps [OF keeps_ask] tolerates_keeps [OF keeps_ret]
        tolerates_keeps [OF settled_keeps] good_CheckExpiredAcks)
  then show "tolerates {} equipped (ack_timer_fires env ec)"
    by (rule tolerates_equipped) (rule world_metrics.timer_R)
qed

lemma posted_tolerates: "tolerates {UseAfterFree} equipped (posted_task env)"
  by (rule tolerates_equipped [OF tolerates_settled world_metrics.sends_R(3)], rule posted_task_tolerates)

lemma Stop_tolerates: "tolerates {UseAfterFree} equipped Stop"
proof (rule tolerates_equipped [OF tolerates_settled world_metrics.server_R(2)])
  fix A
  have send: "tolerates {UseAfterFree} (good {PendingLock} [] A) (seq (run_callback (ps_callback p) False)
      (seq (update (\<lambda>w. w\<lparr>pending_sends := tl (pending_sends w)\<rparr>)) (ret True)))" for p
    by (intro tolerates_seq callback_tolerates tolerates_keeps [OF triple_update] tolerates_keeps [OF keeps_ret]) simp
  have "tolerates {UseAfterFree} (good {} [] A) (pending_locked (bind (ask pending_sends)
      (for_each (\<lambda>send. seq (run_callback (ps_callback send) False)
        (seq (update (\<lambda>w. w\<lparr>pending_sends := tl (pending_sends w)\<rparr>)) (ret True))))))"
    by (intro tolerates_pending_locked tolerates_bind tolerates_for_each send tolerates_keeps [OF keeps_ask]) simp
  then show "tolerates {UseAfterFree} (good {} [] A) Stop" unfolding Stop_def
    by (intro tolerates_intros tolerates_keeps [OF keeps_ask] tolerates_keeps [OF keeps_ret] tolerates_keeps [OF triple_update])
       simp_all
qed

lemmas handlers_tolerate = OnZmqEvent_tolerates posted_tolerates timers_tolerate Stop_tolerates

lemma step_equipped:
  assumes "keeps_entries env" "equipped (broker M)" "step env M e M'"
  shows "equipped (broker M')"
proof -
  note ok = tolerates_Ok [where I = equipped and s = "broker M", OF _ assms(2)]
  from assms(3) show ?thesis
  proof (cases rule: step_broker)
    case (time d)
    then show ?thesis using assms(2) by (simp add: equipped_def settled_clock)
  qed (rule ok, rule handlers_tolerate, (rule assms(1))?, assumption)+
qed

lemma runs_equipped:
  assumes "runs env M es M'" "keeps_entries env" "equipped (broker M)"
  shows "equipped (broker M')"
  using assms by (induction rule: runs.induct) (auto dest: step_equipped)

lemma Run_broker [simp]: "broker (Run env db) = boot db"
  by (simp add: Run_def Let_def)

lemma equipped_boot: "ready db \<Longrightarrow> equipped (boot db)"
  using settled_boot by (simp add: equipped_def) (simp add: boot_def)

section \<open>The log as an order\<close>

text \<open>States of the store are ordered by their log: later states hold every row of earlier ones.\<close>

instantiation database_ext :: (type) preorder
begin

definition less_eq_database_ext :: "'a database_scheme \<Rightarrow> 'a database_scheme \<Rightarrow> bool" where
  "less_eq_database_ext s t = log_extends s t"

definition less_database_ext :: "'a database_scheme \<Rightarrow> 'a database_scheme \<Rightarrow> bool" where
  "less_database_ext s t = (log_extends s t \<and> \<not> log_extends t s)"

instance
  by standard (auto simp: less_eq_database_ext_def less_database_ext_def intro: log_extends_same log_extends_trans)

end

lemma step_log:
  assumes "step env M e M'"
  shows "broker M \<le> broker M'"
  using assms
proof (cases rule: step_broker)
  case (time d)
  then show ?thesis by (simp add: less_eq_database_ext_def log_extends_same)
qed (auto simp: less_eq_database_ext_def dest: alwaysD [OF world_log.server_R(1)] alwaysD [OF world_log.server_R(2)]
       alwaysD [OF world_log.sends_R(3)] alwaysD [OF world_log.timer_R(1)] alwaysD [OF world_log.timer_R(2)])

lemma runs_log: "runs env M es M' \<Longrightarrow> broker M \<le> broker M'"
  by (induction rule: runs.induct) (auto dest: step_log intro: order_trans)

end
