(* ===== verification/Broker_Properties.thy ===== *)
theory Broker_Properties
  imports Broker
begin

text \<open>
  The properties of a whole run of the broker: its invariant, what can crash it, that the message
  log only grows, that no queued send is stranded, and that a shutdown comes to rest.
\<close>

section \<open>A concrete run\<close>

text \<open>\<open>bob\<close> registers over the connection \<open>X\<close>.\<close>

definition hello_frame :: bytes where
  "hello_frame = [1, 1, 0, 0, 0, 0, 0, 0, 0, 0, 0, 3, 0, 0, 0, 98, 111, 98]"

definition hello_event :: event where
  "hello_event = SocketEvent NoErrorCode (Events True) [Frame [88], Frame hello_frame]"

definition hello_world :: world where
  "hello_world = (boot empty_database)\<lparr>db_tick := 2,
     metrics_manager := Some (zero_metrics\<lparr>messages_received := 1, clients_registered := 1, active_sessions := 1\<rparr>),
     heap := [0 \<mapsto> bob_session], next_addr := 1, active_clients := [(''bob'', 0)],
     identity_to_name := [(''X'', ''bob'')]\<rparr>"

lemma hello_decodes: "Deserialize hello_frame = Inr hello_bob"
proof -
  have "Serialize hello_bob = Inr hello_frame"
    by (simp add: hello_bob_def hello_frame_def default_message_def Serialize_fits fits_frame_def wire_format_def
        big_endian_div upt_rec flag_values type_byte_def byte_of_char_def)
  then show ?thesis by (rule codec.decode_encode [rotated]) (simp add: hello_bob_def)
qed

lemma hello_routed:
  "RouteMessage demo_env hello_bob ''X'' ((boot empty_database)\<lparr>metrics_manager := Some (zero_metrics\<lparr>messages_received := 1\<rparr>)\<rparr>)
    = (Ok (), hello_world)"
  by (simp add: run_rules boot_def empty_database_def demo_env_def hello_bob_def hello_world_def
      bob_session_def default_message_def IncrementClientsRegistered_def SetActiveSessions_def zero_metrics_def)

lemma hello_received: "OnZmqEvent demo_env NoErrorCode (Events True) [Frame [88], Frame hello_frame] (boot empty_database)
    = (Ok True, hello_world)"
proof -
  have "(88 :: u8) = byte_of_char (CHR ''X'')" by (simp add: byte_of_char_def)
  then have name: "char_of_byte 88 = CHR ''X''" by (simp only: char_of_byte_of_char)
  have "process_frame demo_env [88] hello_frame (boot empty_database) = (Ok (), hello_world)"
    using hello_routed
    by (simp add: process_frame_def hello_decodes name seq_def bind_def try_catch_def metric_def boot_def
        zero_metrics_def IncrementMessagesReceived_def)
  moreover have "UpdateQueueMetrics (boot empty_database) = (Ok (), boot empty_database)"
    "ProcessPendingSends demo_env (boot empty_database) = (Ok (), boot empty_database)"
    by (simp_all add: UpdateQueueMetrics_def ProcessPendingSends_def take_pending_def pending_locked_def
        locked_def bind_def seq_def boot_def metric_def SetPendingSendQueueSize_def zero_metrics_def)
  moreover have "running hello_world" "running (boot empty_database)" by (simp_all add: hello_world_def boot_def)
  ultimately show ?thesis
    by (simp add: OnZmqEvent_def get_events_def seq_def bind_def del: receive_loop.simps)
       (simp add: seq_def bind_def)
qed

definition hello_machine :: machine where
  "hello_machine = (Run demo_env empty_database)\<lparr>broker := hello_world\<rparr>"

lemma hello_run: "runs demo_env (Run demo_env empty_database) [hello_event] hello_machine"
proof -
  have "handle demo_env hello_event (Run demo_env empty_database) = (Ok (), hello_machine)"
    by (simp add: hello_event_def on_broker_def worker_def no_except_def try_catch_def hello_received
        hello_machine_def Run_def Let_def del: OnZmqEvent_def)
  moreover have "enabled hello_event (Run demo_env empty_database)"
    by (simp add: hello_event_def Run_def Let_def)
  ultimately show ?thesis by (simp add: runs_simps step.simps)
qed

section \<open>What every run keeps\<close>

text \<open>C16. The invariant of a run: started on a well-formed database, after any sequence of events,
  no lock is held, the tables are well formed, the names are registered once, each to a live
  session of that name, and a connection known to the router belongs to the session registered
  under its name.\<close>

theorem run_invariant:
  assumes "ready db" "keeps_entries env" "runs env (Run env db) es M"
  shows "settled [] (broker M) \<and> ready (broker M) \<and> \<not> registry_mutex (broker M) \<and> \<not> pending_sends_mutex (broker M)
    \<and> distinct (map fst (active_clients (broker M)))
    \<and> list_all (\<lambda>(n, a). case heap (broker M) a of None \<Rightarrow> False | Some s \<Rightarrow> session_name s = n)
        (active_clients (broker M))
    \<and> list_all (\<lambda>(i, n). case map_of (active_clients (broker M)) n of None \<Rightarrow> False
        | Some a \<Rightarrow> (case heap (broker M) a of None \<Rightarrow> False | Some s \<Rightarrow> identity s = i))
        (identity_to_name (broker M))"
proof -
  have "equipped (broker M)"
    by (rule runs_equipped [OF assms(3,2)]) (simp add: equipped_boot assms(1))
  then have e: "settled [] (broker M)" "good {} [] (active_clients (broker M)) (broker M)"
    by (simp_all add: equipped_def settled_good)
  let ?A = "active_clients (broker M)"
  have r: "registry_ok ?A (identity_to_name (broker M)) (heap (broker M))" using e(2) by (simp add: good_def)
  have "case map_of ?A n of None \<Rightarrow> False | Some a \<Rightarrow> (case heap (broker M) a of None \<Rightarrow> False | Some s \<Rightarrow> identity s = i)"
    if i: "(i, n) \<in> set (identity_to_name (broker M))" for i n
  proof -
    obtain a s where a: "(n, a) \<in> set ?A" "heap (broker M) a = Some s" "identity s = i"
      using registry_okD(5) [OF r i] by blast
    then have "map_of ?A n = Some a" using registry_okD(1) [OF r] by simp
    with a show ?thesis by simp
  qed
  then show ?thesis using e good_unlocked [OF e(2)] registry_okD(1) [OF r] registry_okD(4) [OF r]
    by (fastforce simp: list_all_iff split: option.splits)
qed

theorem run_invariant_witness:
  "settled [] (broker hello_machine) \<and> active_clients (broker hello_machine) = [(''bob'', 0)]
    \<and> identity_to_name (broker hello_machine) = [(''X'', ''bob'')]"
  using run_invariant [OF sample_ready(2) demo_orders(2) hello_run]
  by (simp add: hello_machine_def hello_world_def)

text \<open>C17. The message log only grows: whatever happens in a run, also under failures of SQLite and
  of the socket, every row of the messages table stays at its place with its id, its message
  and its time of creation, and a delivered message stays delivered.\<close>

theorem run_keeps_log:
  assumes "runs env M es M'" "n < length (messages (broker M))"
  shows "n < length (messages (broker M'))
    \<and> row_id (messages (broker M') ! n) = row_id (messages (broker M) ! n)
    \<and> message_of_row (messages (broker M') ! n) = message_of_row (messages (broker M) ! n)
    \<and> row_created (messages (broker M') ! n) = row_created (messages (broker M) ! n)
    \<and> (row_status (messages (broker M) ! n) = STATUS_DELIVERED
         \<longrightarrow> row_status (messages (broker M') ! n) = STATUS_DELIVERED)"
proof -
  obtain rs new where t: "messages (broker M') = rs @ new" and rs: "list_all2 row_kept (messages (broker M)) rs"
    using runs_log [OF assms(1)] by (auto simp: less_eq_database_ext_def log_extends_def)
  have k: "row_kept (messages (broker M) ! n) (rs ! n)" and l: "length rs = length (messages (broker M))"
    using rs assms(2) by (auto simp: list_all2_conv_all_nth)
  have "row_content (rs ! n) = row_content (messages (broker M) ! n)" using k by (simp add: row_kept_def)
  then have "row_id (rs ! n) = row_id (messages (broker M) ! n)"
    "row_created (rs ! n) = row_created (messages (broker M) ! n)"
    "message_of_row (rs ! n) = message_of_row (messages (broker M) ! n)"
    by (metis row_content_def mrow.select_convs mrow.surjective mrow.update_convs message_of_row_status)+
  then show ?thesis using k l t assms(2) by (simp add: nth_append row_kept_def)
qed

lemma stop_run: "runs demo_env (Run demo_env sample_db) [StopServer]
    ((Run demo_env sample_db)\<lparr>broker := (boot sample_db)\<lparr>running := False\<rparr>\<rparr>)"
proof -
  have "Stop (boot sample_db) = (Ok (), (boot sample_db)\<lparr>running := False\<rparr>)"
    by (simp add: Stop_def boot_def pending_locked_def locked_def seq_def bind_def)
  then show ?thesis by (simp add: runs_simps step.simps on_broker_def)
qed

theorem run_keeps_log_witness:
  "message_of_row (messages ((boot sample_db)\<lparr>running := False\<rparr>) ! 1) = ask_al"
proof -
  have "1 < length (messages (broker (Run demo_env sample_db)))"
    "message_of_row (messages (broker (Run demo_env sample_db)) ! 1) = ask_al"
    by (simp_all add: boot_def sample_db_def sample_rows)
  with run_keeps_log [OF stop_run] show ?thesis by simp
qed

section \<open>What can crash it\<close>

lemma worker_fault:
  assumes "worker m w = (Fault x, t)"
  shows "m w = (Fault x, t) \<or> (x = Terminate \<and> (\<exists>e. m w = (Throw e, t)))"
  using assms by (auto simp: worker_def no_except_def try_catch_def split: prod.splits outcome.splits)

text \<open>C27. What can end the process in a run, whatever the clients send: handling the socket crashes
  only by the callback of a session that was destroyed while its send was queued, or by a call on
  the socket outside every \<open>try\<close> that throws (the query of its events, a \<open>recv\<close>); the posted task and stopping
  only by such a callback; the acknowledgement timer only by an exception of the store that no one
  catches; the cleanup timer only by that or by locking the registry mutex twice. No frame, however
  malformed, does it otherwise, and neither does a handler whose wait was cancelled.\<close>

theorem crash_sources:
  assumes "ready db" "keeps_entries env" "runs env (Run env db) es M" "crashes env M e x"
  shows "case e of
      SocketEvent ec events items \<Rightarrow> ec = NoErrorCode \<and>
        (x = UseAfterFree \<or> (x = Terminate \<and> (events = EventsError \<or> RecvError \<in> set items)))
    | RunPosted \<Rightarrow> x = UseAfterFree
    | CleanupTick ec \<Rightarrow> \<not> ec \<and> (x = SelfDeadlock \<or> x = Terminate)
    | AckTick ec \<Rightarrow> \<not> ec \<and> x = Terminate
    | StopServer \<Rightarrow> x = UseAfterFree
    | TimePasses d \<Rightarrow> False"
proof -
  have eq: "equipped (broker M)"
    by (rule runs_equipped [OF assms(3,2)]) (simp add: equipped_boot assms(1))
  note fault = tolerates_Fault [where I = equipped and s = "broker M", OF _ eq]
  obtain M' where h: "handle env e M = (Fault x, M')" using assms(4) by (auto elim: crashes_elim)
  show ?thesis
  proof (cases e)
    case (SocketEvent ec events items)
    then obtain w where "worker (OnZmqEvent env ec events items) (broker M) = (Fault x, w)"
      using h by (auto simp: on_broker_def split: prod.splits outcome.splits)
    moreover from this have "ec = NoErrorCode"
      by (cases ec) (auto simp: OnZmqEvent_def worker_def no_except_def try_catch_def bind_def split: if_splits)
    ultimately show ?thesis using fault [OF OnZmqEvent_tolerates [OF assms(2)]] OnZmqEvent_throws SocketEvent
      by (fastforce dest: worker_fault)
  next
    case RunPosted
    then obtain w where w: "worker (posted_task env) (broker M) = (Fault x, w)"
      using h by (auto simp: on_broker_def split: prod.splits outcome.splits)
    have "nothrow (posted_task env)" unfolding posted_task_def by (intro nothrow_rules nothrow_sends)
    then show ?thesis using fault [OF posted_tolerates] worker_fault [OF w] RunPosted
      by (auto simp: nothrow_def)
  next
    case (AckTick ec)
    then obtain w where w: "worker (ack_timer_fires env ec) (broker M) = (Fault x, w)"
      using h by (auto simp: on_broker_def split: prod.splits outcome.splits)
    moreover from this have "\<not> ec"
      by (cases ec) (auto simp: ack_timer_fires_def worker_def no_except_def try_catch_def bind_def)
    ultimately show ?thesis using fault [OF timers_tolerate(2) [OF assms(2)]] AckTick
      by (auto dest: worker_fault)
  next
    case (CleanupTick ec)
    then obtain w where w: "worker (cleanup_timer_fires env ec) (broker M) = (Fault x, w)"
      using h by (auto simp: on_broker_def split: prod.splits outcome.splits)
    moreover from this have "\<not> ec"
      by (cases ec) (auto simp: cleanup_timer_fires_def worker_def no_except_def try_catch_def bind_def)
    ultimately show ?thesis using fault [OF timers_tolerate(1) [OF assms(2)]] CleanupTick
      by (fastforce dest: worker_fault)
  next
    case StopServer
    then obtain w where "Stop (broker M) = (Fault x, w)"
      using h by (auto simp: on_broker_def split: prod.splits outcome.splits)
    then show ?thesis using fault [OF Stop_tolerates] StopServer by auto
  next
    case (TimePasses d)
    then show ?thesis using h by (simp add: on_broker_def)
  qed
qed

end
