(* ===== verification/Known_Faults.thy ===== *)
theory Known_Faults
  imports Broker_Properties
begin

text \<open>
  Runs of the broker that end badly: a queued send outlives its session and its callback writes
  to the dead object, and a message is recorded as delivered although no frame of it was sent.
\<close>

section \<open>A socket that takes nothing\<close>

definition jammed :: env where
  "jammed = demo_env\<lparr>send_frame := (\<lambda>_. WouldBlock)\<rparr>"

definition note_al :: message where
  "note_al = default_message\<lparr>sender := ''al'', destination := ''bob'', payload := [1]\<rparr>"

definition note_row :: mrow where
  "note_row = (row_of_message note_al STATUS_PENDING 1 2)\<lparr>row_status := STATUS_DELIVERED, row_delivered := Some 3\<rparr>"

lemma note_frame: "Serialize note_al = Inr (wire_format note_al)"
  by (rule Serialize_fits) (simp add: fits_frame_def note_al_def default_message_def)

lemma note_sel [simp]:
  "destination note_al = ''bob''" "sender note_al = ''al''" "msg_type note_al = Message"
  "\<not> NeedsAck note_al" "\<not> NeedsReply note_al"
  by (simp_all add: note_al_def default_message_def needs_bits flag_values)

lemma note_decodes: "Deserialize (wire_format note_al) = Inr note_al"
  by (rule codec.decode_encode [OF _ note_frame]) simp

definition counted :: "u64 \<Rightarrow> u64 \<Rightarrow> u64 \<Rightarrow> world \<Rightarrow> world" where
  "counted received registered unregistered w = w\<lparr>metrics_manager := Some (zero_metrics\<lparr>messages_received := received,
     clients_registered := registered, clients_unregistered := unregistered,
     active_sessions := if registered = 0 then 0 else 1\<rparr>)\<rparr>"

text \<open>The broker after \<open>bob\<close> registered from \<open>X\<close>, after \<open>al\<close>'s note for him was handled, and
  after he registered again from \<open>Y\<close>.\<close>

definition note_world :: world where
  "note_world = counted 2 1 0 (hello_world\<lparr>db_tick := 4, messages := [note_row], seq_messages := 1,
     pending_sends := [\<lparr>ps_identity = ''X'', ps_data = wire_format note_al, ps_callback = Some (0, ''bob'')\<rparr>],
     posted_sends := 1\<rparr>)"

definition stale_world :: world where
  "stale_world = counted 3 2 1 (note_world\<lparr>db_tick := 6, heap := [1 \<mapsto> bob_session\<lparr>identity := ''Y''\<rparr>], next_addr := 2,
     active_clients := [(''bob'', 1)], identity_to_name := [(''Y'', ''bob'')]\<rparr>)"

lemma id_one: "bind_int64 (column_int64 1) = 1"
  by (rule bind_column_int64) (simp_all add: MAX_ROWID_def)

lemmas run_concrete = run_rules boot_def empty_database_def demo_env_def jammed_def bob_session_def
  default_message_def IncrementClientsRegistered_def IncrementClientsUnregistered_def SetActiveSessions_def
  zero_metrics_def MAX_ROWID_def note_frame id_one counted_def

lemma jammed_hello:
  "RouteMessage jammed hello_bob ''X'' (counted 1 0 0 (boot empty_database)) = (Ok (), counted 1 1 0 hello_world)"
  by (simp add: run_concrete hello_bob_def hello_world_def)

lemma jammed_note: "RouteMessage jammed note_al ''A'' (counted 2 1 0 hello_world) = (Ok (), note_world)"
  by (simp add: run_concrete hello_world_def note_world_def note_row_def)

lemma jammed_again: "RouteMessage jammed hello_bob ''Y'' (counted 3 1 0 note_world) = (Ok (), stale_world)"
  by (simp add: run_concrete hello_bob_def hello_world_def note_world_def note_row_def stale_world_def)

lemma counted_frame:
  assumes "Deserialize data = Inr m" "map char_of_byte ident = name"
    and "RouteMessage jammed m name (counted (n + 1) r u w) = (Ok (), t)"
  shows "process_frame jammed ident data (counted n r u w) = (Ok (), t)"
proof -
  have "metric IncrementMessagesReceived (counted n r u w) = (Ok (), counted (n + 1) r u w)"
    by (simp add: metric_def counted_def IncrementMessagesReceived_def zero_metrics_def)
  with assms show ?thesis by (simp add: process_frame_def seq_def bind_def try_catch_def)
qed

lemma letters: "map char_of_byte [88] = ''X''" "map char_of_byte [65] = ''A''" "map char_of_byte [89] = ''Y''"
proof -
  have "(88 :: u8) = byte_of_char CHR ''X''" "(65 :: u8) = byte_of_char CHR ''A''" "(89 :: u8) = byte_of_char CHR ''Y''"
    by (simp_all add: byte_of_char_def)
  then show "map char_of_byte [88] = ''X''" "map char_of_byte [65] = ''A''" "map char_of_byte [89] = ''Y''"
    by (simp_all only: list.map char_of_byte_of_char)
qed

lemma jammed_frames:
  "process_frame jammed [88] hello_frame (boot empty_database) = (Ok (), counted 1 1 0 hello_world)"
  "process_frame jammed [65] (wire_format note_al) (counted 1 1 0 hello_world) = (Ok (), note_world)"
  "process_frame jammed [89] hello_frame note_world = (Ok (), stale_world)"
proof -
  have "boot empty_database = counted 0 0 0 (boot empty_database)"
    by (simp add: counted_def boot_def zero_metrics_def)
  then show "process_frame jammed [88] hello_frame (boot empty_database) = (Ok (), counted 1 1 0 hello_world)"
    using counted_frame [OF hello_decodes letters(1), of 0 0 0 "boot empty_database"] jammed_hello by simp
  show "process_frame jammed [65] (wire_format note_al) (counted 1 1 0 hello_world) = (Ok (), note_world)"
    using counted_frame [OF note_decodes letters(2), of 1 1 0 hello_world] jammed_note by simp
  have "note_world = counted 2 1 0 note_world" by (simp add: note_world_def counted_def)
  then show "process_frame jammed [89] hello_frame note_world = (Ok (), stale_world)"
    using counted_frame [OF hello_decodes letters(3), of 2 1 0 note_world] jammed_again by simp
qed

definition note_event :: event where
  "note_event = SocketEvent NoErrorCode (Events True) [Frame [88], Frame hello_frame, Frame [65], Frame (wire_format note_al)]"

definition stale_event :: event where
  "stale_event = SocketEvent NoErrorCode (Events True) [Frame [88], Frame hello_frame, Frame [65], Frame (wire_format note_al),
     Frame [89], Frame hello_frame]"

lemma jammed_worlds:
  "running (counted n r u w) = running w" "running hello_world" "running note_world" "running stale_world"
  "posted_sends note_world = 1" "posted_sends stale_world = 1"
  by (simp_all add: counted_def hello_world_def note_world_def stale_world_def boot_def)

lemma jammed_wakes: "UpdateQueueMetrics (boot empty_database) = (Ok (), boot empty_database)"
  "ProcessPendingSends jammed (boot empty_database) = (Ok (), boot empty_database)"
  by (simp_all add: UpdateQueueMetrics_def ProcessPendingSends_def take_pending_def pending_locked_def
      locked_def bind_def seq_def boot_def metric_def SetPendingSendQueueSize_def zero_metrics_def)

lemma jammed_runs:
  "runs jammed (Run jammed empty_database) [note_event] ((Run jammed empty_database)\<lparr>broker := note_world\<rparr>)"
  "runs jammed (Run jammed empty_database) [stale_event] ((Run jammed empty_database)\<lparr>broker := stale_world\<rparr>)"
proof -
  have run: "running (boot empty_database)" by (simp add: boot_def)
  have "receive_loop jammed [Frame [88], Frame hello_frame, Frame [65], Frame (wire_format note_al)]
      (boot empty_database) = (Ok (), note_world)"
    "receive_loop jammed [Frame [88], Frame hello_frame, Frame [65], Frame (wire_format note_al),
      Frame [89], Frame hello_frame] (boot empty_database) = (Ok (), stale_world)"
    by (simp_all add: seq_def bind_def jammed_frames jammed_worlds)
  then have "OnZmqEvent jammed NoErrorCode (Events True) [Frame [88], Frame hello_frame, Frame [65], Frame (wire_format note_al)]
      (boot empty_database) = (Ok True, note_world)"
    "OnZmqEvent jammed NoErrorCode (Events True) [Frame [88], Frame hello_frame, Frame [65], Frame (wire_format note_al),
      Frame [89], Frame hello_frame] (boot empty_database) = (Ok True, stale_world)"
    by (simp_all add: OnZmqEvent_def get_events_def seq_def bind_def run jammed_wakes jammed_worlds del: receive_loop.simps)
  then show "runs jammed (Run jammed empty_database) [note_event] ((Run jammed empty_database)\<lparr>broker := note_world\<rparr>)"
    "runs jammed (Run jammed empty_database) [stale_event] ((Run jammed empty_database)\<lparr>broker := stale_world\<rparr>)"
    by (simp_all add: runs_simps step.simps note_event_def stale_event_def on_broker_def worker_def no_except_def
        try_catch_def Run_def Let_def)
qed

section \<open>The callback of a dead session\<close>

lemma stale_crash: "crashes jammed ((Run jammed empty_database)\<lparr>broker := stale_world\<rparr>) RunPosted UseAfterFree"
proof -
  let ?M = "(Run jammed empty_database)\<lparr>broker := stale_world\<rparr>"
  have "fst (posted_task jammed stale_world) = Fault UseAfterFree"
    by (simp add: posted_task_def ProcessPendingSends_def take_pending_def pending_locked_def locked_def process_send_def
        send_part_def run_callback_def MarkOffline_def assign_def seq_def bind_def try_catch_def Let_def
        stale_world_def note_world_def counted_def hello_world_def boot_def jammed_def)
  then obtain w where "posted_task jammed stale_world = (Fault UseAfterFree, w)"
    by (cases "posted_task jammed stale_world") simp
  then have "handle jammed RunPosted ?M = (Fault UseAfterFree, ?M\<lparr>broker := w\<rparr>)"
    by (simp add: on_broker_def worker_def no_except_def try_catch_def)
  then show ?thesis by (rule crashes.faulted [rotated]) (simp add: jammed_worlds)
qed

text \<open>C29. A use after free that clients can bring about: \<open>bob\<close> registers, a message for him is queued
  for the socket, and he registers again from another connection before the queue is processed,
  which destroys his first session. When the socket then does not take the message at once, the
  callback of the send marks the destroyed session offline.\<close>

theorem stale_callback_crash:
  "\<exists>M. runs jammed (Run jammed empty_database) [stale_event] M \<and> crashes jammed M RunPosted UseAfterFree"
  using jammed_runs(2) stale_crash by blast

theorem crash_sources_witness:
  "\<exists>x. crashes jammed ((Run jammed empty_database)\<lparr>broker := stale_world\<rparr>) RunPosted x \<and> x = UseAfterFree"
proof -
  have "keeps_entries jammed" by (simp add: jammed_def demo_env_def keeps_entries_def)
  with crash_sources [OF sample_ready(2) _ jammed_runs(2) stale_crash] stale_crash show ?thesis by auto
qed

section \<open>Delivered, never sent\<close>

text \<open>C30. A message lost: \<open>al\<close>'s note for the registered client \<open>bob\<close> is marked DELIVERED when it is
  queued. The socket does not take it; afterwards the send queue is empty, no frame is on the
  wire, \<open>bob\<close> is offline, and the row is DELIVERED, which no later step takes back.\<close>

theorem delivered_never_sent:
  "\<exists>M. runs jammed (Run jammed empty_database) [note_event, RunPosted] M
    \<and> message_of_row (messages (broker M) ! 0) = note_al
    \<and> row_status (messages (broker M) ! 0) = STATUS_DELIVERED
    \<and> wire (broker M) = [] \<and> pending_sends (broker M) = [] \<and> posted_sends (broker M) = 0"
proof -
  let ?M = "(Run jammed empty_database)\<lparr>broker := note_world\<rparr>"
  have "\<exists>t. posted_task jammed note_world = (Ok (), t) \<and> messages t = [note_row] \<and> wire t = []
      \<and> pending_sends t = [] \<and> posted_sends t = 0"
    by (simp add: posted_task_def ProcessPendingSends_def take_pending_def pending_locked_def locked_def process_send_def
        send_part_def run_callback_def MarkOffline_def assign_def seq_def bind_def try_catch_def Let_def
        UpdateQueueMetrics_def metric_def note_world_def counted_def hello_world_def boot_def jammed_def)
  then obtain t where t: "posted_task jammed note_world = (Ok (), t)" "messages t = [note_row]" "wire t = []"
    "pending_sends t = []" "posted_sends t = 0" by blast
  then have "step jammed ?M RunPosted (?M\<lparr>broker := t\<rparr>)"
    by (intro step.handled) (simp_all add: on_broker_def worker_def no_except_def try_catch_def jammed_worlds)
  then have "runs jammed (Run jammed empty_database) [note_event, RunPosted] (?M\<lparr>broker := t\<rparr>)"
    using jammed_runs(1) by (auto simp: runs_simps)
  moreover have "message_of_row note_row = note_al" "row_status note_row = STATUS_DELIVERED"
    by (simp_all add: note_row_def message_of_row_of_message stored_form_def c_str_def note_al_def default_message_def)
  ultimately show ?thesis using t by (intro exI [of _ "?M\<lparr>broker := t\<rparr>"]) simp
qed

end
