(* ===== verification/Broker_Queue.thy ===== *)
theory Broker_Queue
  imports Known_Faults
begin

text \<open>
  The queue of outgoing sends over a whole run: a send that waits always has a processing task
  posted for it, and the task empties the queue.
\<close>

section \<open>No queued send is stranded\<close>

text \<open>Between handlers: nobody is processing, and when no processing task is posted the queue is
  empty.\<close>

definition flushed :: "world \<Rightarrow> bool" where
  "flushed w = (\<not> sending_in_progress w \<and> (posted_sends w = 0 \<longrightarrow> pending_sends w = []))"

definition same_queue :: "world \<Rightarrow> world \<Rightarrow> bool" where
  "same_queue s t = (pending_sends t = pending_sends s \<and> posted_sends t = posted_sends s \<and> running t = running s
     \<and> sending_in_progress t = sending_in_progress s)"

interpretation same_queue: two_state same_queue
  by unfold_locales (simp_all add: same_queue_def)

lemma same_queue_metric: "always same_queue (metric f)"
  by (simp add: always_def metric_def same_queue_def)

lemma same_queue_callback: "always same_queue (run_callback c b)"
  by (simp add: always_def run_callback_def MarkOffline_def assign_def same_queue_def split: option.split prod.split)

lemma same_queue_sends: "always same_queue (process_sends env ps)"
proof (induction ps)
  case (Cons p ps)
  have part: "always same_queue (send_part env f b)" for f b
    by (simp add: always_def send_part_def Let_def same_queue_def split: frame_result.split)
  have option: "always same_queue (case x of None \<Rightarrow> ret () | Some ok \<Rightarrow> metric (g ok))" for x and g :: "bool \<Rightarrow> metrics \<Rightarrow> metrics"
    by (cases x) (simp_all only: option.case same_queue.ret_always same_queue_metric)
  show ?case unfolding process_sends.simps process_send_def
    by (intro same_queue.combinators part same_queue_callback option Cons.IH)
qed (simp only: process_sends.simps same_queue.ret_always)

lemma same_queue_metrics: "UpdateQueueMetrics w = (Ok (), t) \<Longrightarrow> same_queue w t"
  by (auto simp: UpdateQueueMetrics_def pending_locked_def locked_def bind_def metric_def same_queue_def
      split: if_splits)

lemma processed_empty:
  assumes "ProcessPendingSends env w = (Ok (), t)"
  shows "pending_sends t = [] \<and> \<not> sending_in_progress t \<and> posted_sends t = posted_sends w \<and> running t = running w"
proof -
  have free: "\<not> pending_sends_mutex w"
    using assms by (auto simp: ProcessPendingSends_def take_pending_def pending_locked_def locked_def bind_def split: if_splits)
  show ?thesis
  proof (cases "pending_sends w = []")
    case True
    then show ?thesis using assms free
      by (auto simp: ProcessPendingSends_def take_pending_def pending_locked_def locked_def bind_def seq_def)
  next
    case False
    let ?w = "w\<lparr>pending_sends := [], sending_in_progress := True, pending_sends_mutex := False\<rparr>"
    have "take_pending w = (Ok (pending_sends w), ?w)"
      using False free by (simp add: take_pending_def pending_locked_def locked_def bind_def seq_def)
    with assms False obtain u v where u: "process_sends env (pending_sends w) ?w = (Ok (), u)"
      and v: "pending_locked (seq (update (\<lambda>w. w\<lparr>sending_in_progress := False\<rparr>))
                (bind (ask pending_sends) (\<lambda>queue. if queue \<noteq> [] then ScheduleSendProcessing else ret ()))) u = (Ok (), v)"
      and t: "UpdateQueueMetrics v = (Ok (), t)"
      by (auto simp: ProcessPendingSends_def seq_def bind_Ok bind_def split: prod.splits outcome.splits)
    have "same_queue ?w u" using same_queue_sends u by (rule alwaysD)
    then have "pending_sends v = [] \<and> \<not> sending_in_progress v \<and> posted_sends v = posted_sends w \<and> running v = running w"
      using v by (auto simp: same_queue_def pending_locked_def locked_def seq_def bind_def ScheduleSendProcessing_def split: if_splits)
    then show ?thesis using same_queue_metrics [OF t] by (simp add: same_queue_def)
  qed
qed

definition at_rest :: "world \<Rightarrow> bool" where
  "at_rest w = (flushed w \<and> (\<not> running w \<longrightarrow> pending_sends w = []))"

lemma grows_at_rest:
  assumes "queue_grows s t" "flushed s" "running s"
  shows "at_rest t"
  using assms by (auto simp: queue_grows_def at_rest_def flushed_def)

lemma Stop_empties:
  assumes "Stop w = (Ok (), t)" "at_rest w"
  shows "at_rest t"
proof -
  let ?f = "\<lambda>send. seq (run_callback (ps_callback send) False)
     (seq (update (\<lambda>w. w\<lparr>pending_sends := tl (pending_sends w)\<rparr>)) (ret True))"
  have pops: "for_each ?f ps u = (Ok (), v) \<Longrightarrow> pending_sends v = drop (length ps) (pending_sends u)
      \<and> sending_in_progress v = sending_in_progress u \<and> running v = running u" for ps u v
  proof (induction ps arbitrary: u)
    case (Cons p ps)
    obtain r x where rx: "run_callback (ps_callback p) False u = (r, x)" by (cases "run_callback (ps_callback p) False u")
    have "same_queue u x" using same_queue_callback rx by (rule alwaysD)
    with Cons rx show ?case
      by (cases r) (auto simp: seq_def bind_def same_queue_def drop_Suc)
  qed simp
  show ?thesis
  proof (cases "running w")
    case False
    then show ?thesis using assms by (simp add: Stop_def bind_def)
  next
    case True
    let ?w = "w\<lparr>running := False, pending_sends_mutex := True\<rparr>"
    obtain r v where rv: "for_each ?f (pending_sends w) ?w = (r, v)" by (cases "for_each ?f (pending_sends w) ?w")
    have r: "r = Ok ()" and t: "t = v\<lparr>pending_sends_mutex := False\<rparr>"
      using True assms(1) rv by (cases r; simp add: Stop_def pending_locked_def locked_def bind_def split: if_splits)+
    show ?thesis using pops [OF rv [unfolded r]] assms(2) by (simp add: t at_rest_def flushed_def)
  qed
qed

lemma OnZmqEvent_at_rest:
  assumes "OnZmqEvent env ec events items w = (Ok b, t)" "at_rest w"
  shows "at_rest t"
proof (cases "running w \<and> ec = NoErrorCode")
  case False
  then have "t = w" using assms(1)
    by (cases ec) (auto simp: OnZmqEvent_def bind_def split: if_splits)
  then show ?thesis using assms(2) by simp
next
  case True
  obtain r u where ru: "UpdateQueueMetrics w = (r, u)" by (cases "UpdateQueueMetrics w")
  obtain q v where qv: "ProcessPendingSends env u = (q, v)" by (cases "ProcessPendingSends env u")
  have r: "r = Ok ()" using True assms(1) ru by (cases r) (simp_all add: OnZmqEvent_def bind_def seq_def)
  have q: "q = Ok ()" using True assms(1) ru r qv by (cases q) (simp_all add: OnZmqEvent_def bind_def seq_def)
  note u = ru [unfolded r] and v = qv [unfolded q]
  from True assms(1) u v obtain pollin where pollin: "events = Events pollin"
    by (cases events) (simp_all add: OnZmqEvent_def get_events_def bind_def seq_def)
  obtain p t' where pt: "(if pollin \<and> running v then receive_loop env items else ret ()) v = (p, t')"
    by (cases "(if pollin \<and> running v then receive_loop env items else ret ()) v")
  have p: "p = Ok ()" and t': "t' = t" using True assms(1) u v pt
    by (cases p; simp add: OnZmqEvent_def get_events_def pollin bind_def seq_def)+
  note t = pt [unfolded p t']
  have "always queue_grows (if go then receive_loop env items else ret ())" for go
    by (intro grows.if_always grows.receive_loop_R grows.ret_always)
  then have "queue_grows v t" using t by (rule alwaysD)
  moreover have "flushed v" "running v"
    using processed_empty [OF v] same_queue_metrics [OF u] True by (simp_all add: flushed_def same_queue_def)
  ultimately show ?thesis by (rule grows_at_rest)
qed

lemma step_at_rest:
  assumes "step env M e M'" "at_rest (broker M)"
  shows "at_rest (broker M')"
  using assms(1)
proof (cases rule: step_broker)
  case (sock ec events items b)
  show ?thesis using sock(3) assms(2) by (rule OnZmqEvent_at_rest)
next
  case posted
  show ?thesis
  proof (cases "running (broker M) \<and> \<not> sending_in_progress (broker M)")
    case True
    then have "ProcessPendingSends env ((broker M)\<lparr>posted_sends := posted_sends (broker M) - 1\<rparr>) = (Ok (), broker M')"
      using posted(3) by (simp add: posted_task_def seq_def bind_def)
    from processed_empty [OF this] show ?thesis by (simp add: at_rest_def flushed_def)
  next
    case False
    then have "broker M' = (broker M)\<lparr>posted_sends := posted_sends (broker M) - 1\<rparr>"
      using posted(3) by (auto simp: posted_task_def bind_def)
    then show ?thesis using False assms(2) by (auto simp: at_rest_def flushed_def)
  qed
next
  case (clean ec b)
  have "queue_grows (broker M) (broker M')" using grows.timer_R(1) clean(2) by (rule alwaysD)
  then show ?thesis using grows_at_rest clean(2) assms(2)
    by (cases "running (broker M)") (auto simp: at_rest_def cleanup_timer_fires_def bind_def)
next
  case (ack ec b)
  have "queue_grows (broker M) (broker M')" using grows.timer_R(2) ack(2) by (rule alwaysD)
  then show ?thesis using grows_at_rest ack(2) assms(2)
    by (cases "running (broker M)") (auto simp: at_rest_def ack_timer_fires_def bind_def)
next
  case (time d)
  then show ?thesis using assms(2) by (simp add: at_rest_def flushed_def)
next
  case stop
  show ?thesis using stop(2) assms(2) by (rule Stop_empties)
qed

lemma runs_at_rest: "runs env M es M' \<Longrightarrow> at_rest (broker M) \<Longrightarrow> at_rest (broker M')"
  by (induction rule: runs.induct) (auto dest: step_at_rest)

text \<open>C19. No queued send is stranded: after any run, as long as a send waits in the queue a processing
  task is posted, nobody is marked as processing, and the task, when it runs on a broker that has
  not been stopped and does not crash, leaves the queue empty.\<close>

theorem no_send_stranded:
  assumes "runs env (Run env db) es M" "pending_sends (broker M) \<noteq> []"
  shows "posted_sends (broker M) > 0 \<and> \<not> sending_in_progress (broker M) \<and> running (broker M)
    \<and> (case handle env RunPosted M of
        (Ok x, M') \<Rightarrow> step env M RunPosted M' \<and> pending_sends (broker M') = [] \<and> posted_sends (broker M') = posted_sends (broker M) - 1
      | (Throw e, M') \<Rightarrow> False
      | (Fault x, M') \<Rightarrow> crashes env M RunPosted x)"
proof -
  have "at_rest (boot db)" by (simp add: at_rest_def flushed_def boot_def)
  then have r: "at_rest (broker M)" using runs_at_rest [OF assms(1)] by simp
  then have p: "posted_sends (broker M) > 0" "\<not> sending_in_progress (broker M)" "running (broker M)"
    using assms(2) by (auto simp: at_rest_def flushed_def)
  obtain x M' where h: "handle env RunPosted M = (x, M')" by (cases "handle env RunPosted M")
  show ?thesis
  proof (cases x)
    case (Ok y)
    then have "step env M RunPosted M'" using h p by (intro step.handled) simp_all
    moreover from this have "ProcessPendingSends env ((broker M)\<lparr>posted_sends := posted_sends (broker M) - 1\<rparr>) = (Ok (), broker M')"
      using p by (cases rule: step_broker) (auto simp: posted_task_def seq_def bind_def)
    ultimately show ?thesis using h Ok p processed_empty by fastforce
  next
    case (Throw e)
    then show ?thesis using h
      by (auto simp: on_broker_def worker_def no_except_def try_catch_def split: prod.splits outcome.splits)
  next
    case (Fault f)
    then have "crashes env M RunPosted f" using h p by (intro crashes.faulted) simp_all
    then show ?thesis using h p Fault by simp
  qed
qed

theorem no_send_stranded_witness:
  "case handle jammed RunPosted ((Run jammed empty_database)\<lparr>broker := note_world\<rparr>) of
     (Ok x, M) \<Rightarrow> pending_sends (broker M) = [] \<and> posted_sends (broker M) = 0
   | (Throw e, M) \<Rightarrow> False
   | (Fault x, M) \<Rightarrow> crashes jammed ((Run jammed empty_database)\<lparr>broker := note_world\<rparr>) RunPosted x"
proof -
  let ?M = "(Run jammed empty_database)\<lparr>broker := note_world\<rparr>"
  have "pending_sends (broker ?M) \<noteq> []" by (simp add: note_world_def counted_def)
  then show ?thesis using no_send_stranded [OF jammed_runs(1)] jammed_worlds
    by (simp split: prod.splits outcome.splits del: handle.simps)
qed

end
