(* ===== verification/Shutdown.thy ===== *)
theory Shutdown
  imports Broker_Properties
begin

text \<open>
  What is left to do once the broker has been stopped: every handler that still comes to run
  returns at once and waits for nothing again, so the work runs out.
\<close>

section \<open>Outstanding work\<close>

text \<open>The handlers the \<open>io_context\<close> still holds: posted tasks, the wait on the socket, the two
  timers.\<close>

definition outstanding :: "machine \<Rightarrow> nat" where
  "outstanding M = posted_sends (broker M) + of_bool (waits_zmq M) + of_bool (cleanup_armed M)
     + of_bool (ack_armed M)"

fun is_handler :: "event \<Rightarrow> bool" where
  "is_handler (TimePasses d) = False"
| "is_handler StopServer = False"
| "is_handler e = True"

lemma enabled_outstanding: "(\<exists>e. is_handler e \<and> enabled e M) \<longleftrightarrow> outstanding M > 0"
proof
  assume "\<exists>e. is_handler e \<and> enabled e M"
  then obtain e where "is_handler e" "enabled e M" by blast
  then show "outstanding M > 0" by (cases e) (simp_all add: outstanding_def)
next
  assume "outstanding M > 0"
  then consider "posted_sends (broker M) > 0" | "waits_zmq M" | "cleanup_armed M" | "ack_armed M"
    by (auto simp: outstanding_def)
  then show "\<exists>e. is_handler e \<and> enabled e M"
  proof cases
    case 1
    then show ?thesis by (intro exI [of _ RunPosted]) simp
  next
    case 2
    then show ?thesis by (intro exI [of _ "SocketEvent NoErrorCode (Events False) []"]) simp
  next
    case 3
    then show ?thesis by (intro exI [of _ "CleanupTick False"]) simp
  next
    case 4
    then show ?thesis by (intro exI [of _ "AckTick False"]) simp
  qed
qed

text \<open>What a handler does to a stopped broker.\<close>

fun returns_at_once :: "event \<Rightarrow> machine \<Rightarrow> machine" where
  "returns_at_once (SocketEvent ec events items) M = M\<lparr>waits_zmq := False\<rparr>"
| "returns_at_once RunPosted M = M\<lparr>broker := (broker M)\<lparr>posted_sends := posted_sends (broker M) - 1\<rparr>\<rparr>"
| "returns_at_once (CleanupTick ec) M = M\<lparr>cleanup_armed := False\<rparr>"
| "returns_at_once (AckTick ec) M = M\<lparr>ack_armed := False\<rparr>"
| "returns_at_once (TimePasses d) M = M\<lparr>broker := (broker M)\<lparr>clock := clock (broker M) + int d\<rparr>\<rparr>"
| "returns_at_once StopServer M = M"

lemma stopped_handle:
  assumes "\<not> running (broker M)"
  shows "handle env e M = (Ok (), returns_at_once e M)"
  using assms
  by (cases e) (simp_all add: on_broker_def worker_def no_except_def try_catch_def OnZmqEvent_def posted_task_def
      cleanup_timer_fires_def ack_timer_fires_def Stop_def bind_def seq_def)

lemma stopped_step:
  assumes "\<not> running (broker M)"
  shows "step env M e M' \<longleftrightarrow> enabled e M \<and> M' = returns_at_once e M"
  using stopped_handle [OF assms, of env e] by (auto simp: step.simps)

definition same_but_clock :: "machine \<Rightarrow> machine \<Rightarrow> bool" where
  "same_but_clock M M' = (\<exists>n t. broker M' = (broker M)\<lparr>posted_sends := n, clock := t\<rparr>)"

lemma stopped_once:
  assumes "enabled e M"
  shows "outstanding (returns_at_once e M) + of_bool (is_handler e) = outstanding M"
    and "same_but_clock M (returns_at_once e M)"
    and "running (broker (returns_at_once e M)) = running (broker M)"
proof -
  have "\<exists>n t. w = w\<lparr>posted_sends := n, clock := t\<rparr>" "\<exists>n t. w\<lparr>posted_sends := k\<rparr> = w\<lparr>posted_sends := n, clock := t\<rparr>"
    "\<exists>n t. w\<lparr>clock := c\<rparr> = w\<lparr>posted_sends := n, clock := t\<rparr>" for w :: world and k c
    by (rule exI [of _ "posted_sends w"], rule exI [of _ "clock w"], simp)
      (rule exI [of _ k], rule exI [of _ "clock w"], simp,
       rule exI [of _ "posted_sends w"], rule exI [of _ c], simp)
  then show "same_but_clock M (returns_at_once e M)" by (cases e) (simp_all add: same_but_clock_def)
qed (use assms in \<open>cases e; simp add: outstanding_def\<close>)+

lemma same_but_clock_trans: "same_but_clock M N \<Longrightarrow> same_but_clock N K \<Longrightarrow> same_but_clock M K"
  unfolding same_but_clock_def by (elim exE) (simp, blast)

text \<open>C24. Shutdown ends: from the moment \<open>Stop\<close> has cleared \<open>running_\<close>, no handler can crash, each
  one that runs uses up one unit of the outstanding work and adds none, so that after exactly as
  many handlers as were outstanding nothing is left to run and before that some handler can;
  nothing but the count of posted tasks and the clock changes: no frame is sent, no row written.\<close>

theorem shutdown_ends:
  assumes "runs env M es M'" "\<not> running (broker M)"
  shows "length (filter is_handler es) + outstanding M' = outstanding M
    \<and> broker M' = (broker M)\<lparr>posted_sends := posted_sends (broker M'), clock := clock (broker M')\<rparr>
    \<and> ((\<exists>e. is_handler e \<and> enabled e M') \<longleftrightarrow> length (filter is_handler es) < outstanding M)
    \<and> (\<nexists>e x. crashes env M' e x)"
proof -
  have "length (filter is_handler es) + outstanding M' = outstanding M \<and> same_but_clock M M' \<and> \<not> running (broker M')"
    using assms
  proof (induction rule: runs.induct)
    case (run_empty env M)
    have "same_but_clock M M" unfolding same_but_clock_def
      by (rule exI [of _ "posted_sends (broker M)"], rule exI [of _ "clock (broker M)"]) simp
    then show ?case using run_empty by simp
  next
    case (run_step env M e N es K)
    then have e: "enabled e M" and N: "N = returns_at_once e M" by (simp_all add: stopped_step)
    note once = stopped_once [OF e, folded N]
    have "same_but_clock M K" using once(2,3) run_step.IH run_step.prems same_but_clock_trans by blast
    then show ?case using once run_step.IH run_step.prems by (cases "is_handler e") auto
  qed
  moreover have "\<nexists>e x. crashes env M' e x" if "\<not> running (broker M')"
    using stopped_handle [OF that, of env] by (auto simp: crashes.simps)
  ultimately show ?thesis using enabled_outstanding [of M'] by (auto simp: same_but_clock_def)
qed

definition stopped_machine :: machine where
  "stopped_machine = (Run demo_env sample_db)\<lparr>broker := (boot sample_db)\<lparr>running := False\<rparr>\<rparr>"

lemma stopped_machine:
  "runs demo_env (Run demo_env sample_db) [StopServer] stopped_machine"
  "\<not> running (broker stopped_machine)" "outstanding stopped_machine = 3"
  "cleanup_armed stopped_machine" "ack_armed stopped_machine"
  using stop_run
  by (simp_all add: stopped_machine_def outstanding_def Run_def Let_def SetupCleanupTimer_def SetupAckTimeoutTimer_def
      boot_def demo_env_def default_config_def)

theorem shutdown_ends_witness:
  "\<exists>M. runs demo_env stopped_machine [CleanupTick True, TimePasses 3, AckTick False] M \<and> outstanding M = 1
    \<and> wire (broker M) = wire (broker stopped_machine)"
proof -
  let ?N = "returns_at_once (CleanupTick True) stopped_machine"
  let ?K = "returns_at_once (TimePasses 3) ?N"
  let ?M = "returns_at_once (AckTick False) ?K"
  have M: "runs demo_env stopped_machine [CleanupTick True, TimePasses 3, AckTick False] ?M"
  proof (rule runs.run_step, rule_tac [2] runs.run_step, rule_tac [3] runs.run_step, rule_tac [4] runs.run_empty)
    show "step demo_env stopped_machine (CleanupTick True) ?N" by (simp add: stopped_step stopped_machine)
    show "step demo_env ?N (TimePasses 3) ?K" by (simp add: stopped_step stopped_machine)
    show "step demo_env ?K (AckTick False) ?M" by (simp add: stopped_step stopped_machine)
  qed
  then have "outstanding ?M = 1" using shutdown_ends [OF M stopped_machine(2)] stopped_machine(3)
    by (simp only: list.size filter.simps is_handler.simps) simp
  then show ?thesis using M by (intro exI [of _ ?M]) simp
qed

end
