(* ===== verification/Process.thy ===== *)
theory Process
  imports Config Storage_Open Metrics_Export Broker_Queue Shutdown
begin

text \<open>
  The process around the broker: the constructor of \<open>Server\<close> in full (src/server.cpp) and src/main.cpp,
  from the command line to the exit status. While the main thread waits for the signal, the server
  is the machine of theory Broker.
\<close>

section \<open>Constructing the server\<close>

text \<open>What the libraries answer while the server is set up: \<open>zmq_starts\<close> whether the ZeroMQ context and socket can
  be made, \<open>socket_fd\<close> the descriptor of the socket unless the query throws, \<open>descriptor_assigned\<close> whether the
  constructor of Boost's \<open>stream_descriptor\<close> accepts it; the last field is what the server meets while it
  serves, but for the configuration.\<close>

record process_env =
  storage_env :: sqlite_open
  log_file_opens :: bool
  hardware_concurrency :: "32 word"
  zmq_starts :: bool
  exposer_starts :: "string \<Rightarrow> bool"
  binds :: "string \<Rightarrow> bool"
  socket_options_set :: bool
  socket_fd :: "int option"
  fcntl_getfl :: int
  fcntl_setfl :: int
  descriptor_assigned :: bool
  serving_env :: env

definition SetupZmqSocket :: "process_env \<Rightarrow> config \<Rightarrow> exn + unit" where
  "SetupZmqSocket penv c = (let endpoint = ''tcp://*:'' @ show_int (Port c) in
     if \<not> binds penv endpoint then Inl ZmqError
     else if \<not> socket_options_set penv then Inl ZmqError
     else Inr ())"

definition SetupAsioIntegration :: "process_env \<Rightarrow> exn + unit" where
  "SetupAsioIntegration penv = (case socket_fd penv of None \<Rightarrow> Inl ZmqError
   | Some fd \<Rightarrow>
     if fd \<le> 0 then Inl (RuntimeError ''Failed to get ZeroMQ file descriptor'')
     else if fcntl_getfl penv = -1 then Inl (RuntimeError ''Failed to get file descriptor flags'')
     else if fcntl_setfl penv = -1 then Inl (RuntimeError ''Failed to set non-blocking mode'')
     else if \<not> descriptor_assigned penv then Inl (RuntimeError ''assign'')
     else Inr ())"

section \<open>The process\<close>

datatype level = Trace | Debug | Info | Warn | Err

definition level_of :: "string \<Rightarrow> level" where
  "level_of log_level = (if log_level = ''trace'' then Trace else if log_level = ''debug'' then Debug
     else if log_level = ''info'' then Info else if log_level = ''warn'' then Warn
     else if log_level = ''error'' then Err else Info)"

fun severity :: "level \<Rightarrow> nat" where
  "severity Trace = 0"
| "severity Debug = 1"
| "severity Info = 2"
| "severity Warn = 3"
| "severity Err = 4"

instantiation level :: linorder
begin

definition less_eq_level :: "level \<Rightarrow> level \<Rightarrow> bool" where "l \<le> m \<longleftrightarrow> severity l \<le> severity m"

definition less_level :: "level \<Rightarrow> level \<Rightarrow> bool" where "l < m \<longleftrightarrow> severity l < severity m"

instance
proof
  fix l m :: level
  show "l \<le> m \<Longrightarrow> m \<le> l \<Longrightarrow> l = m" by (cases l; cases m) (simp_all add: less_eq_level_def)
qed (auto simp: less_eq_level_def less_level_def)

end

text \<open>The two sinks of the logger are of the \<open>_mt\<close> kind: each has a mutex, held while it writes a line. As for every lock of
  this development, a flag says that the mutex is held by the thread under consideration, here the one a signal
  interrupts; \<open>main_waits\<close> says that the main thread is blocked on \<open>g_shutdown_cv\<close>.\<close>

record process = terminal +
  db_file :: connection
  metrics_exporter :: exporter
  logger_level :: level
  handlers_set :: bool
  console_sink_mutex :: bool
  file_sink_mutex :: bool
  g_shutdown_mutex :: bool
  g_shutdown_requested :: bool
  main_waits :: bool
  g_server :: "machine option"

definition SetupLogging :: "process_env \<Rightarrow> string \<Rightarrow> (process, unit) action" where
  "SetupLogging penv log_level = (if log_file_opens penv
     then update (\<lambda>p. p\<lparr>logger_level := level_of log_level\<rparr>) else throw (RuntimeError ''Failed opening file''))"

definition SetupSignalHandlers :: "(process, unit) action" where
  "SetupSignalHandlers = update (\<lambda>p. p\<lparr>handlers_set := True\<rparr>)"

definition on_exporter :: "(exporter, 'a) action \<Rightarrow> (process, 'a) action" where
  "on_exporter m = (\<lambda>p. case m (metrics_exporter p) of (r, x) \<Rightarrow> (r, p\<lparr>metrics_exporter := x\<rparr>))"

definition on_file :: "(connection, 'a) action \<Rightarrow> (process, 'a) action" where
  "on_file m = (\<lambda>p. case m (db_file p) of (r, f) \<Rightarrow> (r, p\<lparr>db_file := f\<rparr>))"

text \<open>A call on the server through \<open>g_server_ptr\<close>.\<close>

definition on_server :: "(world, unit) action \<Rightarrow> (process, unit) action" where
  "on_server m = (\<lambda>p. case g_server p of None \<Rightarrow> (Ok (), p)
     | Some M \<Rightarrow> (case m (broker M) of (r, w) \<Rightarrow> (r, p\<lparr>g_server := Some (M\<lparr>broker := w\<rparr>)\<rparr>)))"

text \<open>The constructor of \<open>Server\<close>: the database it serves. An exception of the exposer is caught, and then
  the updater is not started either; any later one destroys the members built so far.\<close>

definition start_metrics :: "process_env \<Rightarrow> config \<Rightarrow> (process, unit) action" where
  "start_metrics penv c = seq (on_exporter (\<lambda>_. (Ok (), new_exporter)))
     (if EnableMetrics c
      then on_exporter (try_catch (seq (InitExposer (exposer_starts penv) (MetricsBindAddress c))
         (StartUpdater (MetricsUpdateInterval c))) (\<lambda>_. ret ()))
      else ret ())"

definition Server_Server :: "process_env \<Rightarrow> config \<Rightarrow> (process, database) action" where
  "Server_Server penv c = seq (of_sum (if zmq_starts penv then Inr () else Inl ZmqError))
    (seq (start_metrics penv c)
     (try_catch
       (seq (on_file (Storage_Storage (storage_env penv) (DbPath c)))
            (try_catch
              (bind (of_sum (SetupZmqSocket penv c)) (\<lambda>_.
               bind (of_sum (SetupAsioIntegration penv)) (\<lambda>_.
               ask (\<lambda>p. database.truncate (db_file p)))))
              (\<lambda>e. seq (on_file Storage_destructor) (throw e))))
       (\<lambda>e. seq (on_exporter MetricsManager_destructor) (throw e))))"

text \<open>\<open>Server::~Server\<close> and the destruction of the members after it: \<open>storage_\<close> is declared after \<open>router_\<close>,
  so it goes first, and a session that still has messages to persist calls the dead store.\<close>

definition destroy_session :: "nat \<Rightarrow> (world, bool) action" where
  "destroy_session a = bind (deref a (\<lambda>s. persist_callback s \<and> outgoing_queue s \<noteq> [])) (\<lambda>late.
     if late then fail_with UseAfterFree
     else seq (update (\<lambda>w. w\<lparr>heap := (heap w)(a := None)\<rparr>)) (ret True))"

definition Server_destructor :: "(process, unit) action" where
  "Server_destructor = seq (on_server Stop) (seq (on_exporter MetricsManager_destructor) (seq (on_file Storage_destructor)
     (on_server (bind (ask active_clients) (\<lambda>cs. for_each (\<lambda>(name, a). destroy_session a) cs)))))"

text \<open>A line for the log: of a severity the logger wants, it goes to each sink under the mutex of the sink.\<close>

definition spdlog :: "level \<Rightarrow> (process, unit) action" where
  "spdlog l = bind (ask logger_level) (\<lambda>least. if least \<le> l
     then seq (locked console_sink_mutex (\<lambda>b p. p\<lparr>console_sink_mutex := b\<rparr>) (ret ()))
              (locked file_sink_mutex (\<lambda>b p. p\<lparr>file_sink_mutex := b\<rparr>) (ret ()))
     else ret ())"

text \<open>Whether the interrupted thread can not log a line of this severity a second time.\<close>

definition log_blocks :: "level \<Rightarrow> process \<Rightarrow> bool" where
  "log_blocks l p = (logger_level p \<le> l \<and> (console_sink_mutex p \<or> file_sink_mutex p))"

text \<open>\<open>Server::Stop\<close> on a thread that may hold the mutexes of the sinks: with the lines it logs, and those of the send callbacks
  and of \<open>MarkOffline\<close>. Where no line blocks it is \<open>Stop\<close>.\<close>

definition log_in_server :: "(level \<Rightarrow> bool) \<Rightarrow> level \<Rightarrow> (world, unit) action" where
  "log_in_server blocks l = (if blocks l then fail_with SelfDeadlock else ret ())"

definition callback_logging :: "(level \<Rightarrow> bool) \<Rightarrow> (nat \<times> string) option \<Rightarrow> (world, unit) action" where
  "callback_logging blocks callback = (case callback of None \<Rightarrow> ret ()
     | Some (a, client_name) \<Rightarrow> seq (log_in_server blocks Warn) (seq (MarkOffline a) (log_in_server blocks Debug)))"

definition pop_send :: "(level \<Rightarrow> bool) \<Rightarrow> PendingSend \<Rightarrow> (world, bool) action" where
  "pop_send blocks send = seq (callback_logging blocks (ps_callback send))
     (seq (update (\<lambda>w. w\<lparr>pending_sends := tl (pending_sends w)\<rparr>)) (ret True))"

definition Stop_logging :: "(level \<Rightarrow> bool) \<Rightarrow> (world, unit) action" where
  "Stop_logging blocks = bind (ask running) (\<lambda>was_running. if \<not> was_running then ret ()
     else seq (update (\<lambda>w. w\<lparr>running := False\<rparr>))
         (seq (log_in_server blocks Info)
         (seq (pending_locked (bind (ask pending_sends) (for_each (pop_send blocks))))
              (log_in_server blocks Info))))"

text \<open>\<open>g_shutdown_cv.notify_one()\<close>: the main thread is the only one that waits.\<close>

definition notify_one :: "(process, unit) action" where
  "notify_one = update (\<lambda>p. p\<lparr>main_waits := False\<rparr>)"

definition SignalHandler :: "(process, unit) action" where
  "SignalHandler = seq (spdlog Info) (bind
     (locked g_shutdown_mutex (\<lambda>b p. p\<lparr>g_shutdown_mutex := b\<rparr>)
        (bind (ask g_shutdown_requested) (\<lambda>already. if already then seq (spdlog Warn) (ret False)
           else seq (update (\<lambda>p. p\<lparr>g_shutdown_requested := True\<rparr>)) (ret True))))
     (\<lambda>go. if go
        then seq (bind (ask (\<lambda>p l. log_blocks l p)) (\<lambda>blocks. on_server (Stop_logging blocks))) notify_one
        else ret ()))"

text \<open>The \<open>catch\<close> clauses of \<open>main\<close>, and its status.\<close>

definition main_catch :: "string \<Rightarrow> exn \<Rightarrow> (process, int) action" where
  "main_catch program e = (case e of
     HelpRequested \<Rightarrow> ret 0
   | ConfigError what \<Rightarrow> seq (write_err (''Configuration error: '' @ what @ [CHR 0x0A])) (seq (PrintHelp program) (ret 1))
   | _ \<Rightarrow> ret 1)"

text \<open>\<open>main\<close> up to the wait for the signal: \<open>None\<close> while it serves, the status if it is over.\<close>

definition main_start :: "process_env \<Rightarrow> string list \<Rightarrow> (process, int option) action" where
  "main_start penv argv = try_catch
     (bind (ParseArgs (hardware_concurrency penv) argv) (\<lambda>c.
      seq (SetupLogging penv (LogLevel c))
     (seq SetupSignalHandlers
     (bind (Server_Server penv c) (\<lambda>db.
      seq (update (\<lambda>p. p\<lparr>g_server := Some (Run ((serving_env penv)\<lparr>config := c\<rparr>) db)\<rparr>))
          (ret None))))))
     (\<lambda>e. bind (main_catch (hd argv) e) (\<lambda>status. ret (Some status)))"

text \<open>\<open>g_shutdown_cv.wait(lock, [] { return g_shutdown_requested; })\<close>, entered and after each wake-up: \<open>True\<close> when the wait is over,
  \<open>False\<close> when the thread blocks, with the mutex released.\<close>

definition main_wait :: "(process, bool) action" where
  "main_wait = locked g_shutdown_mutex (\<lambda>b p. p\<lparr>g_shutdown_mutex := b\<rparr>)
     (bind (ask g_shutdown_requested) (\<lambda>requested. if requested then ret True
        else seq (update (\<lambda>p. p\<lparr>main_waits := True\<rparr>)) (ret False)))"

text \<open>After the wait.\<close>

definition main_finish :: "(process, int) action" where
  "main_finish = bind (ask (\<lambda>p. case g_server p of None \<Rightarrow> False | Some M \<Rightarrow> running (broker M))) (\<lambda>still.
     seq (if still then on_server Stop else ret ())
    (seq Server_destructor (seq (update (\<lambda>p. p\<lparr>g_server := None\<rparr>)) (ret 0))))"

section \<open>Starting\<close>

text \<open>The rows of the file, without its schema and what the process holds of it.\<close>

definition same_rows :: "connection \<Rightarrow> connection \<Rightarrow> bool" where
  "same_rows c d = (messages d = messages c \<and> correlations d = correlations c \<and> seq_messages d = seq_messages c
     \<and> seq_correlations d = seq_correlations c \<and> db_mutex d = db_mutex c)"

lemma kept_rows: "kept c d \<Longrightarrow> same_rows c d"
  by (simp add: kept_def same_rows_def)

text \<open>No server yet, and the file as \<open>J\<close> says.\<close>

definition quiet :: "(connection \<Rightarrow> bool) \<Rightarrow> process \<Rightarrow> bool" where
  "quiet J p = (J (db_file p) \<and> g_server p = None)"

lemma quiet_updates [simp]:
  "quiet J (p\<lparr>std_out := s\<rparr>) = quiet J p" "quiet J (p\<lparr>std_err := s\<rparr>) = quiet J p"
  "quiet J (p\<lparr>logger_level := l\<rparr>) = quiet J p" "quiet J (p\<lparr>handlers_set := b\<rparr>) = quiet J p"
  "quiet J (p\<lparr>metrics_exporter := x\<rparr>) = quiet J p"
  by (simp_all add: quiet_def)

lemma quiet_print: "keeps (quiet J) (write_out s)" "keeps (quiet J) (write_err s)" "keeps (quiet J) (PrintHelp program)"
  by (simp_all add: triple_def write_out_def write_err_def PrintHelp_def)

lemma quiet_parse: "keeps (quiet J) (parse_options program args cfg :: (process, config) action)"
proof (induction args arbitrary: cfg rule: length_induct)
  case (1 args)
  show ?case
  proof (cases args)
    case (Cons arg rest)
    have ih: "keeps (quiet J) (parse_options program (tl rest) cfg')" "keeps (quiet J) (parse_options program rest cfg')" for cfg'
      using 1 by (simp_all add: Cons)
    show ?thesis unfolding Cons parse_options.simps
      by (intro keeps_if keeps_bind keeps_seq keeps_of_sum keeps_throw quiet_print ih)
  qed (simp only: parse_options.simps keeps_ret)
qed

lemma parse_outcome:
  fixes p :: process
  assumes "g_server p = None"
  obtains r q where "ParseArgs cores argv p = (r, q)" "db_file q = db_file p" "g_server q = None" "no_fault r"
proof -
  have "keeps (quiet ((=) (db_file p))) (ParseArgs cores argv)"
    unfolding ParseArgs_def by (intro keeps_bind keeps_ret quiet_parse)
  moreover have "quiet ((=) (db_file p)) p" using assms by (simp add: quiet_def)
  ultimately show ?thesis by (rule tripleE) (use that in \<open>auto simp: quiet_def\<close>)
qed

text \<open>The metrics when the server is up.\<close>

definition started_metrics :: "process_env \<Rightarrow> config \<Rightarrow> exporter" where
  "started_metrics penv c = (if EnableMetrics c \<and> exposer_starts penv (MetricsBindAddress c)
     then new_exporter\<lparr>exposer := Some (MetricsBindAddress c), update_interval := MetricsUpdateInterval c,
       updater_running := True, updater_thread := True\<rparr>
     else new_exporter)"

lemma started_running: "updater_running (started_metrics penv c) \<longleftrightarrow> EnableMetrics c \<and> exposer_starts penv (MetricsBindAddress c)"
  by (simp add: started_metrics_def)

lemma start_metrics_apply:
  "start_metrics penv c p = (Ok (), p\<lparr>metrics_exporter := started_metrics penv c\<rparr>)"
  by (simp add: start_metrics_def on_exporter_def started_metrics_def InitExposer_def StartUpdater_def try_catch_def
      run_act seq_def bind_def)

text \<open>The exceptions of the store are not the one \<open>ParseArgs\<close> throws for \<open>--help\<close>.\<close>

definition no_help :: "('s, 'a) action \<Rightarrow> bool" where
  "no_help m = (\<forall>s t. m s \<noteq> (Throw HelpRequested, t))"

lemma no_help_rules:
  "no_help (ret a)" "no_help (ask f)" "no_help (throw (RuntimeError what))"
  "no_help m1 \<Longrightarrow> (\<And>a. no_help (g1 a)) \<Longrightarrow> no_help (bind m1 g1)" "no_help m2 \<Longrightarrow> no_help n2 \<Longrightarrow> no_help (seq m2 n2)"
  "no_help m3 \<Longrightarrow> no_help n3 \<Longrightarrow> no_help (if b then m3 else n3)"
  "no_help m4 \<Longrightarrow> (\<And>a. no_help (g4 a)) \<Longrightarrow> no_help (case p of None \<Rightarrow> m4 | Some a \<Rightarrow> g4 a)"
  unfolding no_help_def bind_def seq_def by (auto split: prod.splits outcome.splits option.splits)

lemma no_help_storage: "no_help (Storage_Storage env path)"
proof -
  have exec: "no_help (sqlite3_exec env ss)" for ss
  proof -
    have "\<exists>r. fst (sqlite3_exec env ss c) = Ok r" for c
      by (induction env ss c rule: sqlite3_exec.induct) (auto split: option.splits)
    then show ?thesis unfolding no_help_def by (metis fst_conv outcome.distinct(1))
  qed
  have one: "no_help (SqliteStmt env x)" for x by (simp add: no_help_def SqliteStmt_def)
  have prepare: "no_help (for_each (\<lambda>tables. seq (SqliteStmt env tables) (ret True)) xs)" for xs
  proof (induction xs)
    case (Cons x xs)
    show ?case unfolding for_each.simps by (intro no_help_rules one Cons.IH)
  qed (simp only: for_each.simps no_help_rules)
  have handle: "no_help (\<lambda>c. (Ok (x c), f c))" for x :: "connection \<Rightarrow> bool" and f by (simp add: no_help_def)
  show ?thesis unfolding Storage_Storage_def CreateTables_def create_or_roll_back_def PrepareStatements_def
    by (intro no_help_rules exec prepare handle)
qed

text \<open>The conditions under which the server can be set up, in the order they are met.\<close>

definition sets_up :: "process_env \<Rightarrow> config \<Rightarrow> connection \<Rightarrow> bool" where
  "sets_up penv c file = (zmq_starts penv \<and> fst (Storage_Storage (storage_env penv) (DbPath c) file) = Ok ()
     \<and> binds penv (''tcp://*:'' @ show_int (Port c)) \<and> socket_options_set penv
     \<and> (case socket_fd penv of None \<Rightarrow> False | Some fd \<Rightarrow> fd > 0) \<and> fcntl_getfl penv \<noteq> -1 \<and> fcntl_setfl penv \<noteq> -1
     \<and> descriptor_assigned penv)"

lemma set_up_sum:
  "sets_up penv c file \<longleftrightarrow> zmq_starts penv \<and> fst (Storage_Storage (storage_env penv) (DbPath c) file) = Ok ()
     \<and> SetupZmqSocket penv c = Inr () \<and> SetupAsioIntegration penv = Inr ()"
  by (auto simp: sets_up_def SetupZmqSocket_def SetupAsioIntegration_def Let_def split: option.split)

lemma Server_Server_outcome:
  assumes "transaction (db_file p) = None" "g_server p = None"
  shows "\<exists>r q. Server_Server penv c p = (r, q) \<and> same_rows (db_file p) (db_file q) \<and> g_server q = None
    \<and> (if sets_up penv c (db_file p)
       then r = Ok (database.truncate (db_file q)) \<and> (\<exists>d. q = p\<lparr>metrics_exporter := started_metrics penv c, db_file := d\<rparr>)
       else \<exists>e. r = Throw e \<and> e \<noteq> HelpRequested)"
proof (cases "zmq_starts penv")
  case False
  then show ?thesis using assms(2) by (simp add: Server_Server_def set_up_sum of_sum_def run_act same_rows_def)
next
  case True
  obtain r d where rd: "Storage_Storage (storage_env penv) (DbPath c) (db_file p) = (r, d)"
    by (cases "Storage_Storage (storage_env penv) (DbPath c) (db_file p)")
  have out: "same_rows (db_file p) d" "\<not> (\<exists>x. r = Fault x)"
    using opening_outcome [OF assms(1), of "storage_env penv" "DbPath c"] rd by (cases r; auto dest: kept_rows)+
  have closed: "same_rows (db_file p) (d\<lparr>handles := n\<rparr>)" for n using out(1) by (simp add: same_rows_def)
  have errors: "SetupZmqSocket penv c = Inl e \<or> SetupAsioIntegration penv = Inl e \<Longrightarrow> e \<noteq> HelpRequested"
    for e by (auto simp: SetupZmqSocket_def SetupAsioIntegration_def Let_def split: if_splits option.splits)
  have opened: "r = Throw e \<Longrightarrow> e \<noteq> HelpRequested" for e
    using no_help_storage rd by (auto simp: no_help_def)
  note run = Server_Server_def set_up_sum of_sum_def run_act start_metrics_apply on_file_def rd
    try_catch_def seq_def bind_def Storage_destructor_def on_exporter_def MetricsManager_destructor_def StopUpdater_def
  show ?thesis
  proof (cases r)
    case (Ok x)
    show ?thesis using True assms(2) out(1) closed errors Ok
      by (cases "SetupZmqSocket penv c"; cases "SetupAsioIntegration penv") (auto simp: run intro!: exI [of _ d])
  qed (use True assms(2) out opened in \<open>simp_all add: run\<close>)
qed

text \<open>C25. Startup, exactly. Whatever the command line says and whatever the libraries answer, \<open>main\<close> throws nothing, has no
  fault and changes no row of the file. It ends with status 0 if help was asked for, with status 1 if the command
  line is refused. Otherwise it serves just when the log file, the ZeroMQ context and socket, the database, the address
  of the configured port, the socket options and the descriptor can all be had, and ends with status 1 and no server if
  not. When it serves, the machine of the broker has started on the rows of the file with the very configuration that was read, the
  logger has the configured level, the signal handlers are set, and the metrics are published if they are enabled and
  their address can be bound; if it can not, the broker serves all the same.\<close>

theorem startup_outcome:
  assumes "transaction (db_file p) = None" "g_server p = None"
  shows "\<exists>r q. main_start penv argv p = (Ok r, q) \<and> same_rows (db_file p) (db_file q)
    \<and> (case fst (ParseArgs (hardware_concurrency penv) argv p) of
        Ok c \<Rightarrow>
          if log_file_opens penv \<and> sets_up penv c (db_file p)
          then r = None \<and> g_server q = Some (Run ((serving_env penv)\<lparr>config := c\<rparr>) (database.truncate (db_file q)))
            \<and> logger_level q = level_of (LogLevel c) \<and> handlers_set q
            \<and> (updater_running (metrics_exporter q) \<longleftrightarrow> EnableMetrics c \<and> exposer_starts penv (MetricsBindAddress c))
          else r = Some 1 \<and> g_server q = None
      | Throw e \<Rightarrow> r = Some (if e = HelpRequested then 0 else 1) \<and> g_server q = None
      | Fault x \<Rightarrow> False)"
proof -
  obtain s p1 where parse: "ParseArgs (hardware_concurrency penv) argv p = (s, p1)" "db_file p1 = db_file p"
    "g_server p1 = None" "no_fault s"
    using assms(2) by (rule parse_outcome)
  have caught: "\<exists>q. bind (main_catch program e) (\<lambda>status. ret (Some status)) u = (Ok (Some (if e = HelpRequested then 0 else 1)), q)
      \<and> db_file q = db_file u \<and> g_server q = g_server u" for program e and u :: process
    by (cases e) (simp_all add: main_catch_def PrintHelp_def write_out_def write_err_def run_act bind_def)
  have rows: "same_rows d d" for d by (simp add: same_rows_def)
  show ?thesis
  proof (cases s)
    case (Throw e)
    then show ?thesis using parse caught [of "hd argv" e p1] rows
      by (auto simp: main_start_def try_catch_def bind_def)
  next
    case (Ok c)
    show ?thesis
    proof (cases "log_file_opens penv")
      case False
      then show ?thesis using parse Ok caught [of "hd argv" _ p1] rows
        by (fastforce simp: main_start_def try_catch_def bind_def SetupLogging_def run_act)
    next
      case True
      let ?p2 = "p1\<lparr>logger_level := level_of (LogLevel c), handlers_set := True\<rparr>"
      obtain r q where rq: "Server_Server penv c ?p2 = (r, q)" "same_rows (db_file p) (db_file q)" "g_server q = None"
        "if sets_up penv c (db_file p)
         then r = Ok (database.truncate (db_file q)) \<and> (\<exists>d. q = ?p2\<lparr>metrics_exporter := started_metrics penv c, db_file := d\<rparr>)
         else \<exists>e. r = Throw e \<and> e \<noteq> HelpRequested"
        using Server_Server_outcome [of ?p2 penv c] assms(1) parse(2,3) by auto
      have run: "main_start penv argv p = try_catch (bind (Server_Server penv c) (\<lambda>db.
          seq (update (\<lambda>p. p\<lparr>g_server := Some (Run ((serving_env penv)\<lparr>config := c\<rparr>) db)\<rparr>)) (ret None)))
          (\<lambda>e. bind (main_catch (hd argv) e) (\<lambda>status. ret (Some status))) ?p2"
        using parse(1) Ok True by (simp add: main_start_def try_catch_def bind_Ok SetupLogging_def SetupSignalHandlers_def run_act)
      show ?thesis
      proof (cases "sets_up penv c (db_file p)")
        case True
        then show ?thesis using rq \<open>log_file_opens penv\<close> parse(1) Ok
          by (auto simp: run try_catch_def bind_Ok run_act started_running)
      next
        case False
        then obtain e where "r = Throw e" "e \<noteq> HelpRequested" using rq(4) by auto
        then show ?thesis using caught [of "hd argv" e q] rq(1-3) False parse(1) Ok
          by (auto simp: run try_catch_def bind_def)
      qed
    qed
  qed (use parse(4) in simp)
qed

definition demo_process_env :: process_env where
  "demo_process_env = \<lparr>storage_env = sticky_env\<lparr>step_ok := (\<lambda>_. True)\<rparr>, log_file_opens = True, hardware_concurrency = 4, zmq_starts = True,
     exposer_starts = (\<lambda>_. False), binds = (\<lambda>_. True), socket_options_set = True, socket_fd = Some 9, fcntl_getfl = 2,
     fcntl_setfl = 0, descriptor_assigned = True, serving_env = demo_env\<rparr>"

definition demo_process :: process where
  "demo_process = \<lparr>std_out = [], std_err = [], db_file = fresh_file, metrics_exporter = new_exporter, logger_level = Info,
     handlers_set = False, console_sink_mutex = False, file_sink_mutex = False, g_shutdown_mutex = False,
     g_shutdown_requested = False, main_waits = False, g_server = None\<rparr>"

text \<open>With the metrics refused the server comes up; with the port taken it does not.\<close>

theorem startup_outcome_witness:
  "\<exists>q. main_start demo_process_env [''broker'', ''--threads'', ''2''] demo_process = (Ok None, q)
    \<and> g_server q = Some (Run (demo_env\<lparr>config := default_config\<lparr>Threads := 2\<rparr>\<rparr>) (database.truncate (db_file q)))
    \<and> fst (main_start (demo_process_env\<lparr>binds := (\<lambda>_. False)\<rparr>) [''broker'', ''--threads'', ''2''] demo_process) = Ok (Some 1)"
proof -
  let ?argv = "[''broker'', ''--threads'', ''2'']" and ?bad = "demo_process_env\<lparr>binds := (\<lambda>_. False)\<rparr>"
  have d: "db_file demo_process = fresh_file" "g_server demo_process = None" "transaction fresh_file = None"
    by (simp_all add: demo_process_def fresh_file_def)
  have c: "fst (ParseArgs 4 ?argv demo_process) = Ok (default_config\<lparr>Threads := 2\<rparr>)"
  proof -
    have "show_int 2 = ''2''" by code_simp
    then have "stoi ''2'' = Inr 2" using stoi_show [of 2] by simp
    then show ?thesis by (simp add: ParseArgs_def of_sum_def bind_def default_threads_def default_config_def)
  qed
  have o: "fst (Storage_Storage (storage_env demo_process_env) path fresh_file) = Ok ()" for path
    by (rule healthy_opening) (simp_all add: demo_process_env_def sticky_env_def fresh_file_def)
  have e: "sets_up demo_process_env c fresh_file" "\<not> sets_up ?bad c fresh_file" for c
    using o by (simp_all add: sets_up_def) (simp_all add: demo_process_env_def)
  show ?thesis using startup_outcome [of demo_process demo_process_env ?argv] startup_outcome [of demo_process ?bad ?argv] d c e
    by (auto simp: demo_process_env_def)
qed

section \<open>The signal\<close>

lemma spdlog_apply:
  "spdlog l p = (if log_blocks l p then (Fault SelfDeadlock, p) else (Ok (), p))"
proof -
  have "console_sink_mutex p = False \<Longrightarrow> p\<lparr>console_sink_mutex := False\<rparr> = p"
    "file_sink_mutex p = False \<Longrightarrow> p\<lparr>file_sink_mutex := False\<rparr> = p" by (cases p; simp)+
  then show ?thesis by (auto simp: spdlog_def log_blocks_def locked_def run_act seq_def bind_def)
qed

text \<open>Where nothing blocks the lines change nothing.\<close>

lemma Stop_logging_free: "Stop_logging (\<lambda>_. False) = Stop"
proof -
  have unit: "seq (ret ()) m = m" "seq m (ret ()) = m" for m :: "(world, unit) action"
    by (rule ext, simp add: seq_def bind_def, simp add: seq_def)
  have "callback_logging (\<lambda>_. False) c = run_callback c False" for c
    unfolding callback_logging_def run_callback_def log_in_server_def if_False unit by (rule refl)
  then show ?thesis unfolding Stop_logging_def pop_send_def [abs_def] Stop_def log_in_server_def if_False unit by (simp only:)
qed

text \<open>What stopping does on such a thread: it deadlocks on the mutex of the send queue or on a line, and otherwise its only
  fault is the callback of a dead session; it never throws, and \<open>running_\<close> is cleared.\<close>

text \<open>A send whose callback is for a session that does not exist any more.\<close>

definition dangling :: "world \<Rightarrow> PendingSend \<Rightarrow> bool" where
  "dangling w send = (case ps_callback send of None \<Rightarrow> False | Some (a, client_name) \<Rightarrow> a \<notin> dom (heap w))"

lemma dangling_dom: "dom (heap t) = dom (heap w) \<Longrightarrow> dangling t = dangling w"
  by (simp only: dangling_def [abs_def])

lemma pop_outcome:
  assumes "\<not> blocks Debug" "blocks Warn \<Longrightarrow> ps_callback send = None"
  shows "case pop_send blocks send w of
    (Ok go, t) \<Rightarrow> go \<and> running t = running w \<and> dom (heap t) = dom (heap w) | (Throw e, t) \<Rightarrow> False
    | (Fault x, t) \<Rightarrow> x = UseAfterFree \<and> dangling w send"
  using assms
  by (cases "ps_callback send") (auto simp: dangling_def pop_send_def callback_logging_def log_in_server_def MarkOffline_def assign_def
      seq_def bind_def split: option.splits)

lemma pop_sends:
  assumes "\<not> blocks Debug"
  shows "if blocks Warn \<and> list_ex (\<lambda>send. ps_callback send \<noteq> None) sends
    then fst (for_each (pop_send blocks) sends w) = Fault SelfDeadlock
    else (case for_each (pop_send blocks) sends w of
      (Ok x, t) \<Rightarrow> running t = running w | (Throw e, t) \<Rightarrow> False
    | (Fault x, t) \<Rightarrow> x = UseAfterFree \<and> list_ex (dangling w) sends)"
proof (induction sends arbitrary: w)
  case (Cons send sends)
  show ?case
  proof (cases "blocks Warn \<and> ps_callback send \<noteq> None")
    case True
    then have "fst (pop_send blocks send w) = Fault SelfDeadlock"
      by (auto simp: pop_send_def callback_logging_def log_in_server_def seq_def bind_def)
    then show ?thesis using True by (cases "pop_send blocks send w") (simp add: bind_def)
  next
    case False
    then have "blocks Warn \<Longrightarrow> ps_callback send = None" by (cases "ps_callback send") auto
    from pop_outcome [where blocks = blocks and send = send and w = w, OF assms this] obtain r t where rt: "pop_send blocks send w = (r, t)"
      "(r = Ok True \<and> running t = running w \<and> dom (heap t) = dom (heap w)) \<or> (r = Fault UseAfterFree \<and> dangling w send)"
      by (cases "pop_send blocks send w"; cases "fst (pop_send blocks send w)") auto
    show ?thesis
    proof (cases "r = Ok True")
      case True
      then have "for_each (pop_send blocks) (send # sends) w = for_each (pop_send blocks) sends t"
        using rt(1) by (simp add: bind_Ok)
      moreover have "dangling t = dangling w" using rt(2) True by (intro dangling_dom) simp
      ultimately show ?thesis using Cons.IH [of t] rt(2) True False by (auto split: outcome.splits prod.splits)
    next
      case uaf: False
      have "ps_callback send \<noteq> None"
      proof
        assume "ps_callback send = None"
        then have "pop_send blocks send w = (Ok True, w\<lparr>pending_sends := tl (pending_sends w)\<rparr>)"
          by (simp add: pop_send_def callback_logging_def seq_def bind_def)
        then show False using rt(1) uaf by simp
      qed
      then show ?thesis using uaf rt False by (simp add: bind_def)
    qed
  qed
qed simp

definition stop_deadlocks :: "process \<Rightarrow> world \<Rightarrow> bool" where
  "stop_deadlocks p w = (running w \<and> (pending_sends_mutex w
     \<or> (log_blocks Warn p \<and> list_ex (\<lambda>send. ps_callback send \<noteq> None) (pending_sends w))))"

lemma Stop_logging_outcome:
  assumes "\<not> log_blocks Info p"
  shows "if stop_deadlocks p w then fst (Stop_logging (\<lambda>l. log_blocks l p) w) = Fault SelfDeadlock
    else (case Stop_logging (\<lambda>l. log_blocks l p) w of
      (Ok x, t) \<Rightarrow> \<not> running t | (Throw e, t) \<Rightarrow> False
    | (Fault x, t) \<Rightarrow> x = UseAfterFree \<and> list_ex (dangling w) (pending_sends w))"
proof (cases "running w")
  case True
  let ?b = "\<lambda>l. log_blocks l p" and ?w = "w\<lparr>running := False\<rparr>"
  have "Debug \<le> Info" by (simp add: less_eq_level_def)
  then have "\<not> ?b Debug" using assms by (auto simp: log_blocks_def)
  note pops = pop_sends [where blocks = ?b, OF this, of "pending_sends w" "?w\<lparr>pending_sends_mutex := True\<rparr>"]
  have heap: "dangling (?w\<lparr>pending_sends_mutex := True\<rparr>) = dangling w" by (rule dangling_dom) simp
  have run: "Stop_logging ?b w = seq (pending_locked (bind (ask pending_sends) (for_each (pop_send ?b)))) (log_in_server ?b Info) ?w"
    using True assms by (simp add: Stop_logging_def log_in_server_def run_act)
  show ?thesis
  proof (cases "pending_sends_mutex w")
    case True
    then show ?thesis using \<open>running w\<close> by (simp add: run stop_deadlocks_def pending_locked_def locked_def seq_def bind_def)
  next
    case False
    obtain r t where "for_each (pop_send ?b) (pending_sends w) (?w\<lparr>pending_sends_mutex := True\<rparr>) = (r, t)" by fastforce
    then show ?thesis using pops [unfolded heap] False \<open>running w\<close> assms
      by (cases r) (auto simp: run stop_deadlocks_def pending_locked_def locked_def seq_def bind_def log_in_server_def split: if_splits)
  qed
qed (simp add: Stop_logging_def stop_deadlocks_def run_act)

text \<open>C31. What a signal does. It deadlocks just when the interrupted thread holds a lock the handler needs: the mutex of a sink
  for a line the logger wants, the mutex of the request, or, for the first signal while the server runs, the
  mutex of the send queue (or a sink, for the warning of a queued send's callback). It never throws, and its only other fault is
  the callback of a queued send whose session is destroyed. When it returns the shutdown is requested; a later signal changes nothing, and
  after the first one the main thread is not left blocked and gets past its wait, and the server no longer runs: whatever its
  threads handle from then on returns at once. (The locks inside the library functions, \<open>malloc\<close> and Boost's, are not modelled.)\<close>

theorem signal_handled:
  "(fst (SignalHandler p) = Fault SelfDeadlock \<longleftrightarrow> log_blocks Info p \<or> g_shutdown_mutex p
      \<or> (if g_shutdown_requested p then log_blocks Warn p
         else case g_server p of None \<Rightarrow> False | Some M \<Rightarrow> stop_deadlocks p (broker M)))
   \<and> (case SignalHandler p of
       (Ok x, q) \<Rightarrow> g_shutdown_requested q \<and> db_file q = db_file p
         \<and> (if g_shutdown_requested p then q = p
            else \<not> main_waits q \<and> main_wait q = (Ok True, q)
              \<and> (case g_server q of None \<Rightarrow> g_server p = None
                 | Some M \<Rightarrow> \<not> running (broker M) \<and> (\<forall>env e. fst (handle env e M) = Ok ())))
     | (Throw e, q) \<Rightarrow> False
     | (Fault x, q) \<Rightarrow> x = SelfDeadlock \<or> (x = UseAfterFree \<and>
         (case g_server p of None \<Rightarrow> False | Some M \<Rightarrow> list_ex (dangling (broker M)) (pending_sends (broker M)))))"
proof (cases "log_blocks Info p \<or> g_shutdown_mutex p")
  case True
  then show ?thesis by (auto simp: SignalHandler_def spdlog_apply locked_def seq_def bind_def)
next
  case False
  have same: "g_shutdown_mutex p = False \<Longrightarrow> p\<lparr>g_shutdown_mutex := False\<rparr> = p" by (cases p) simp
  have lock: "log_blocks l (p\<lparr>g_shutdown_mutex := True\<rparr>) = log_blocks l p" for l by (simp add: log_blocks_def)
  show ?thesis
  proof (cases "g_shutdown_requested p")
    case True
    then show ?thesis using False same
      by (auto simp: SignalHandler_def spdlog_apply lock locked_def seq_def bind_def)
  next
    case first: False
    let ?q = "p\<lparr>g_shutdown_requested := True\<rparr>"
    have run: "SignalHandler p = seq (on_server (Stop_logging (\<lambda>l. log_blocks l p))) notify_one ?q"
      using False first by (cases p) (auto simp: SignalHandler_def spdlog_apply log_blocks_def locked_def run_act seq_def bind_def)
    have waits: "main_wait (q\<lparr>main_waits := False\<rparr>) = (Ok True, q\<lparr>main_waits := False\<rparr>)"
      if "g_shutdown_requested q" "\<not> g_shutdown_mutex q" for q
      using that by (cases q) (simp add: main_wait_def locked_def run_act)
    show ?thesis
    proof (cases "g_server p")
      case None
      then show ?thesis using False first waits [of ?q]
        by (simp add: run on_server_def notify_one_def seq_def bind_def)
    next
      case (Some M)
      obtain r w where w: "Stop_logging (\<lambda>l. log_blocks l p) (broker M) = (r, w)" by fastforce
      let ?t = "?q\<lparr>g_server := Some (M\<lparr>broker := w\<rparr>)\<rparr>"
      have "\<not> running w \<Longrightarrow> fst (handle env e (M\<lparr>broker := w\<rparr>)) = Ok ()" for env e
        by (simp add: stopped_handle)
      then show ?thesis using False first Some w waits [of ?t] Stop_logging_outcome [of p "broker M"]
        by (cases r) (auto simp: run on_server_def notify_one_def seq_def bind_def split: if_splits)
    qed
  qed
qed

end
