(* ===== verification/Wire_Typing.thy ===== *)
theory Wire_Typing
  imports Broker_Queue Client_Codec
begin

text \<open>
  The typing of what the broker sends: in every run, each part that carries a message is a frame of
  the protocol.
\<close>

section \<open>Frames of the protocol\<close>

definition framed :: "bytes \<Rightarrow> bool" where
  "framed data = (case Deserialize data of Inl e \<Rightarrow> False | Inr m \<Rightarrow> True)"

lemma Serialize_framed: "Serialize m = Inr data \<Longrightarrow> framed data"
proof -
  assume "Serialize m = Inr data"
  then have data: "data = wire_format m" "fits_frame m" by (simp_all add: Serialize_Inr_iff)
  let ?m = "m\<lparr>msg_type := type_of_byte (type_byte (msg_type m))\<rparr>"
  have "fits_frame ?m" "wire_format ?m = wire_format m" using data(2) by (simp_all add: fits_frame_def wire_format_def)
  from Deserialize_wire_format [OF this(1)] this(2) show "framed data" by (simp add: framed_def data(1))
qed

text \<open>What waits to be sent, and what went out as the last part of a multipart message.\<close>

definition well_framed :: "world \<Rightarrow> bool" where
  "well_framed w = (list_all (\<lambda>p. framed (ps_data p)) (pending_sends w)
     \<and> list_all (\<lambda>(part, sndmore). sndmore \<or> framed part) (wire w))"

definition keeps_framed :: "world \<Rightarrow> world \<Rightarrow> bool" where
  "keeps_framed s t = (well_framed s \<longrightarrow> well_framed t)"

lemma keeps_framed_same: "pending_sends t = pending_sends s \<Longrightarrow> wire t = wire s \<Longrightarrow> keeps_framed s t"
  by (simp add: keeps_framed_def well_framed_def)

lemma keeps_framed_store:
  "always (\<lambda>s t. database.more t = database.more s) (m :: (world, 'a) action) \<Longrightarrow> always keeps_framed m"
  by (erule always_mono) (auto intro: keeps_framed_same dest: world_frame)

lemma keeps_framed_send:
  "Serialize m = Inr data \<Longrightarrow> always keeps_framed (SendToClient ident data callback)"
  by (drule Serialize_framed) (simp add: always_def keeps_framed_def well_framed_def SendToClient_def
      pending_locked_def locked_def ScheduleSendProcessing_def seq_def bind_def)

interpretation framing: handler_relation keeps_framed
  by unfold_locales (rule frame.storage_R [THEN keeps_framed_store] | erule keeps_framed_send
      | simp add: keeps_framed_def well_framed_def same_server_def)+

section \<open>The server\<close>

lemma in_set_tl: "x \<in> set (tl xs) \<Longrightarrow> x \<in> set xs"
  by (cases xs) simp_all

lemma framed_update:
  "(\<And>w. pending_sends (f w) = pending_sends w) \<Longrightarrow> (\<And>w. wire (f w) = wire w) \<Longrightarrow> always keeps_framed (update f)"
  by (rule framing.update_always) (rule keeps_framed_same)

lemma framed_part: "sndmore \<or> framed part \<Longrightarrow> always keeps_framed (send_part env part sndmore)"
  by (auto simp: always_def send_part_def Let_def keeps_framed_def well_framed_def split: frame_result.split)

lemma framed_sends: "list_all (\<lambda>p. framed (ps_data p)) ps \<Longrightarrow> always keeps_framed (process_sends env ps)"
proof (induction ps)
  case (Cons p ps)
  then have p: "framed (ps_data p)" and ih: "always keeps_framed (process_sends env ps)" by simp_all
  show ?case unfolding process_sends.simps process_send_def
    by (intro framing.session_rules framing.run_callback_R framed_part ih) (simp_all add: p)
qed (simp only: process_sends.simps framing.ret_always)

lemma framed_metrics: "always keeps_framed UpdateQueueMetrics"
  unfolding UpdateQueueMetrics_def by (intro framing.session_rules)

lemma framed_process: "always keeps_framed (ProcessPendingSends env)"
proof (rule alwaysI)
  fix w :: world
  let ?ps = "pending_sends w"
  let ?w = "w\<lparr>pending_sends := [], sending_in_progress := ?ps \<noteq> [], pending_sends_mutex := False\<rparr>"
  let ?after = "seq (pending_locked (seq (update (\<lambda>w. w\<lparr>sending_in_progress := False\<rparr>))
      (bind (ask pending_sends) (\<lambda>queue. if queue \<noteq> [] then ScheduleSendProcessing else ret ())))) UpdateQueueMetrics"
  have after: "always keeps_framed ?after" unfolding ScheduleSendProcessing_def
    by (intro framing.session_rules framed_metrics framed_update; simp)
  show "keeps_framed w (snd (ProcessPendingSends env w))"
  proof (cases "pending_sends_mutex w")
    case True
    then show ?thesis by (simp add: ProcessPendingSends_def take_pending_def pending_locked_def locked_def bind_def framing.refl_R)
  next
    case False
    then have take: "take_pending w = (Ok ?ps, ?w)"
      by (simp add: take_pending_def pending_locked_def locked_def bind_def seq_def)
    have run: "ProcessPendingSends env w = (if ?ps = [] then ret () else seq (process_sends env ?ps) ?after) ?w"
      unfolding ProcessPendingSends_def by (rule bind_Ok) (rule take)
    show ?thesis unfolding keeps_framed_def
    proof
      assume w: "well_framed w"
      then have "always keeps_framed (if ?ps = [] then ret () else seq (process_sends env ?ps) ?after)"
        by (intro framing.session_rules framed_sends after) (simp add: well_framed_def)
      then have "keeps_framed ?w (snd (ProcessPendingSends env w))" unfolding run by (simp only: always_def)
      then show "well_framed (snd (ProcessPendingSends env w))" using w by (simp add: keeps_framed_def well_framed_def)
    qed
  qed
qed

lemma framed_server:
  "always keeps_framed (posted_task env)" "always keeps_framed (OnZmqEvent env ec events items)" "always keeps_framed Stop"
proof -
  show "always keeps_framed (posted_task env)" unfolding posted_task_def
    by (intro framing.session_rules framed_process framed_update; simp)
  show "always keeps_framed (OnZmqEvent env ec events items)" unfolding OnZmqEvent_def
    by (intro framing.session_rules framed_metrics framed_process framing.get_events_R framing.receive_loop_R)
  have pop: "always keeps_framed (update (\<lambda>w. w\<lparr>pending_sends := tl (pending_sends w)\<rparr>))"
    by (rule framing.update_always) (auto simp: keeps_framed_def well_framed_def list.pred_set in_set_tl)
  have halt: "always keeps_framed (update (\<lambda>w. w\<lparr>running := False\<rparr>))" by (rule framed_update) simp_all
  show "always keeps_framed Stop" unfolding Stop_def
    by (intro framing.session_rules framing.run_callback_R pop halt)
qed

lemma step_framed:
  assumes "step env M e M'" "well_framed (broker M)"
  shows "well_framed (broker M')"
  using assms(1)
proof (cases rule: step_broker)
  case (time d)
  then show ?thesis using assms(2) by (simp add: well_framed_def)
qed (use assms(2) in \<open>auto dest: framed_server [THEN alwaysD] framing.timer_R [THEN alwaysD] simp: keeps_framed_def\<close>)

lemma runs_framed: "runs env M es M' \<Longrightarrow> well_framed (broker M) \<Longrightarrow> well_framed (broker M')"
  by (induction rule: runs.induct) (auto dest: step_framed)

text \<open>C18. The broker speaks the protocol: after any run, every message part that waits to be sent, and every
  one that went out, is a frame that the client's reader accepts, as the one message whose
  serialization it is; the parts before it are marked as having more to come.\<close>

theorem sends_are_frames:
  assumes "runs env (Run env db) es M"
  shows "list_all (\<lambda>p. case client_Deserialize (ps_data p) of Inl e \<Rightarrow> False | Inr m \<Rightarrow> Serialize m = Inr (ps_data p))
      (pending_sends (broker M))
    \<and> list_all (\<lambda>(part, sndmore). sndmore \<or> (case client_Deserialize part of Inl e \<Rightarrow> False | Inr m \<Rightarrow> Serialize m = Inr part))
        (wire (broker M))"
proof -
  have "case client_Deserialize part of Inl e \<Rightarrow> False | Inr m \<Rightarrow> Serialize m = Inr part" if "framed part" for part
  proof -
    obtain m where "Deserialize part = Inr m" using \<open>framed part\<close> by (auto simp: framed_def split: sum.splits)
    then have "client_Deserialize part = Inr m" "Serialize m = Inr part"
      using codec.encode_decode by (simp_all add: client_Deserialize_Inr)
    then show ?thesis by simp
  qed
  moreover have "well_framed (broker M)"
    by (rule runs_framed [OF assms]) (simp add: well_framed_def boot_def)
  ultimately show ?thesis by (auto simp: well_framed_def list.pred_set)
qed

theorem sends_are_frames_witness:
  "case client_Deserialize (ps_data (hd (pending_sends note_world))) of Inl e \<Rightarrow> False
     | Inr m \<Rightarrow> m = note_al \<and> Serialize m = Inr (ps_data (hd (pending_sends note_world)))"
proof -
  let ?ok = "\<lambda>part. case client_Deserialize part of Inl e \<Rightarrow> False | Inr m \<Rightarrow> Serialize m = Inr part"
  obtain p where send: "pending_sends note_world = [p]" "ps_data p = wire_format note_al"
    by (simp add: note_world_def counted_def)
  have "list_all (\<lambda>p. ?ok (ps_data p)) (pending_sends note_world)"
    using sends_are_frames [OF jammed_runs(1)] by simp
  moreover have "client_Deserialize (wire_format note_al) = Inr note_al" by (simp add: client_Deserialize_Inr note_decodes)
  ultimately show ?thesis by (simp add: send)
qed

end
