(* ===== verification/Acknowledge.thy ===== *)
theory Acknowledge
  imports Message_Flow
begin

text \<open>
  Acknowledgements: what \<open>AckHandler\<close> does with one that matches a message under way, and the whole
  exchange from the message to the notification of its sender.
\<close>

section \<open>Reading what is acknowledged\<close>

lemma filter_key: "distinct (map f xs) \<Longrightarrow> x \<in> set xs \<Longrightarrow> filter (\<lambda>y. f y = f x) xs = [x]"
  by (induction xs) (auto simp: filter_empty_conv image_iff)

lemma ready_row:
  assumes "ready db" "stored db i = Some (m, st)"
  obtains r where "filter (\<lambda>r. row_id r = bind_int64 i) (messages db) = [r]" "message_of_row r = m"
    "row_status r = st" "i \<noteq> 0"
proof -
  obtain r where r: "r \<in> set (messages db)" "column_int64 (row_id r) = i" "message_of_row r = m" "row_status r = st"
    using assms by (auto simp: stored_iff)
  have id: "row_id r = bind_int64 i" "i \<noteq> 0" using ready_ids [OF assms(1) r(1)] r(2) by auto
  have "filter (\<lambda>x. row_id x = row_id r) (messages db) = [r]"
    using assms(1) r(1) by (intro filter_key) (simp_all add: ready_def db_wf_def)
  then show ?thesis using that r id by simp
qed

lemma mset_single: "mset xs = mset [x] \<Longrightarrow> xs = [x]"
  by simp

text \<open>The correlation id leads to one record only.\<close>

definition only_record :: "world \<Rightarrow> u64 \<Rightarrow> crow \<Rightarrow> bool" where
  "only_record w corr c = (filter (\<lambda>c. cr_corr c = bind_int64 corr) (correlations w) = [c])"

lemma eval_lookups:
  assumes "ready w" "sqlite_orders env" "\<And>n. step_ok env n" "only_record w corr c"
  shows "FindOriginalSenderByCorrelation env corr w = (Ok (c_str (cr_sender c)), bump_tick w)"
    and "FindMessageIdByCorrelation env corr w = (Ok (column_int64 (cr_message_id c)), bump_tick w)"
proof -
  have "order_crows env q [c] = [c]" for q
    using assms(2) by (intro mset_single) (simp add: sqlite_orders_def)
  then have "sql_select_by_corr env q (bind_int64 corr) w = [c]" for q
    using assms(4) by (simp add: sql_select_by_corr_def only_record_def)
  then show "FindOriginalSenderByCorrelation env corr w = (Ok (c_str (cr_sender c)), bump_tick w)"
    "FindMessageIdByCorrelation env corr w = (Ok (column_int64 (cr_message_id c)), bump_tick w)"
    using readyD(2) [OF assms(1)] assms(3) by (simp_all add: reads_apply)
qed

lemma eval_NeedsAck:
  assumes "ready w" "\<And>n. step_ok env n" "stored w i = Some (m, STATUS_SENT)" "NeedsAck m"
  shows "Storage_NeedsAck env i w = (Ok True, bump_tick w)"
proof -
  obtain r where "filter (\<lambda>r. row_id r = bind_int64 i) (messages w) = [r]" "message_of_row r = m" "row_status r = STATUS_SENT"
    by (rule ready_row [OF assms(1,3)])
  moreover from this assms(4) have "(word_of_int (row_flags r) :: u8) AND FlagNeedsAck \<noteq> 0"
    by (auto simp: NeedsAck_def HasFlag_def message_of_row_def)
  ultimately show ?thesis using readyD(2) [OF assms(1)] assms(2) by (simp add: reads_apply sql_select_needs_ack_def)
qed

lemma eval_MarkAckReceived:
  assumes g: "good {} L A w"
  obtains t where "MarkAckReceived env i x w = (Ok (), t)" "good {} L A t" "database.more t = database.more w"
    "stored t = stored w" "seq_messages t = seq_messages w" "seq_correlations t = seq_correlations w"
proof -
  have "\<exists>t. MarkAckReceived env i x w = (Ok (), t) \<and> messages t = messages w \<and> seq_messages t = seq_messages w
      \<and> seq_correlations t = seq_correlations w"
    using good_unlocked(3) [OF g] by (auto simp: MarkAckReceived_def storage_defs sql_delete_correlation_def)
  then obtain t where t: "MarkAckReceived env i x w = (Ok (), t)" "messages t = messages w" "seq_messages t = seq_messages w"
    "seq_correlations t = seq_correlations w" by blast
  show ?thesis using that [OF t(1) keeps_Ok [OF good_store(6) g t(1)] alwaysD [OF frame.MarkAckReceived_R t(1)]
      stored_cong [OF t(2)] t(3,4)] .
qed

section \<open>The handler up to the notification\<close>

lemma eval_accept:
  assumes g: "good {} L A w" and ok: "sqlite_orders env" "\<forall>n. step_ok env n"
    and m: "stored w i = Some (m, STATUS_SENT)" "NeedsAck m"
    and c: "only_record w (correlation_id k) c" "cr_message_id c = bind_int64 i" "c_str (cr_sender c) \<noteq> []"
    and k: "correlation_id k \<noteq> 0"
  obtains u where "AckHandler env k w = notify_original_sender env k (c_str (cr_sender c)) u" "good {} L A u"
    "stored u = (stored w)(i \<mapsto> (m, STATUS_DELIVERED))" "heap u = heap w" "pending_sends u = pending_sends w"
    "seq_messages u = seq_messages w" "seq_correlations u = seq_correlations w"
proof -
  have steps: "\<And>n. step_ok env n" using ok(2) by blast
  let ?corr = "correlation_id k"
  let ?w1 = "bump_tick w" and ?w2 = "bump_tick (bump_tick w)" and ?w3 = "bump_tick (bump_tick (bump_tick w))"
  note r = good_unlocked(4) [OF g]
  have rs: "ready ?w1" "ready ?w2" using r by (simp_all add: ready_def bump_tick_def)
  have recs: "only_record ?w1 ?corr c" using c(1) by (simp add: only_record_def bump_tick_def)
  have st: "stored ?w2 = stored w" "stored ?w3 = stored w" by (rule stored_cong, simp add: bump_tick_def)+
  have g3: "good {} L A ?w3" using g by (simp add: good_def lock_flags_def bump_tick_def db_wf_def)
  have i: "i \<noteq> 0" using ready_row [OF r m(1)] by metis
  obtain t where t: "mark_as env STATUS_DELIVERED i ?w3 = (Ok (), t)" "good {} L A t" "database.more t = database.more ?w3"
    "stored t = (stored ?w3)(i := map_option (\<lambda>(x, old). (x, next_status STATUS_DELIVERED old)) (stored ?w3 i))"
    "correlations t = correlations ?w3"
    by (rule eval_mark [OF g3 ok(2)])
  obtain v where v: "MarkAckReceived env i (sender k) t = (Ok (), v)" "good {} L A v" "database.more v = database.more t"
    "stored v = stored t" "seq_messages v = seq_messages t" "seq_correlations v = seq_correlations t"
    by (rule eval_MarkAckReceived [OF t(2)])
  let ?u = "v\<lparr>metrics_manager := map_option IncrementAcksReceived (metrics_manager v)\<rparr>"
  have "Storage_NeedsAck env i ?w2 = (Ok True, ?w3)"
    using rs(2) steps m by (intro eval_NeedsAck) (simp_all add: st)
  then have "AckHandler env k w = notify_original_sender env k (c_str (cr_sender c)) ?u"
    using k i t(1) v(1) eval_lookups(1) [OF r ok(1) steps c(1)] eval_lookups(2) [OF rs(1) ok(1) steps recs] c(2,3)
    by (simp add: AckHandler_def Let_def seq_def bind_def metric_def)
  moreover have "good {} L A ?u" using keeps_Ok [OF good_metric v(2)] by (simp add: metric_def)
  moreover have "stored ?u = (stored w)(i \<mapsto> (m, STATUS_DELIVERED))"
    using t(4) v(4) m(1) stored_cong [of ?u v] by (simp add: st)
  moreover have "seq_messages t = seq_messages w" "seq_correlations t = seq_correlations w"
    using t(1) ok(2) good_unlocked(3) [OF g3] by (auto simp: MarkDelivered_apply bump_tick_def)
  ultimately show ?thesis
    using that [of ?u] world_frame(3,8) [OF t(3)] world_frame(3,8) [OF v(3)] v(5,6) by (simp add: bump_tick_def)
qed

section \<open>The notification\<close>

lemma notify_online:
  assumes g: "good {} [] A u" and a: "map_of A orig = Some a" and s: "heap u a = Some s" "is_online s"
    and data: "Serialize (ack_notification k orig) = Inr data"
  obtains t where "notify_original_sender env k orig u = (Ok (), t)" "good {} [] A t" "stored t = stored u"
    "pending_sends t = pending_sends u @ [send_to a s data]"
proof -
  note A = registered [OF a]
  let ?u = "u\<lparr>locals := a # locals u\<rparr>"
  let ?body = "bind (IsOnline a) (\<lambda>online. if online then bind (SendMessage env a (ack_notification k orig)) (\<lambda>_. ret ())
     else bind (SaveMessage env (ack_notification k orig)) (\<lambda>_. ret ()))"
  have g0: "good {} [a] A ?u" using A by (intro good_scope_enter [OF g]) simp
  define v where "v = ?u\<lparr>heap := (heap ?u)(a \<mapsto> s\<lparr>last_activity := clock ?u\<rparr>),
     pending_sends := pending_sends ?u @ [\<lparr>ps_identity = identity s, ps_data = data,
       ps_callback = Some (a, session_name s)\<rparr>], posted_sends := Suc (posted_sends ?u)\<rparr>"
  have send: "SendMessage env a (ack_notification k orig) ?u = (Ok True, v)"
    unfolding v_def by (rule eval_send_online [OF g0 _ s(2) data]) (simp add: s(1))
  have body: "?body ?u = (Ok (), v)" using s send by (simp add: bind_def IsOnline_def deref_def)
  have gv: "good {} [a] A v" by (rule keeps_Ok [OF good_registered(1) [OF A] g0 send])
  have "notify_original_sender env k orig u = scoped env a ?body u"
    by (simp add: notify_original_sender_def bind_Ok [where m = "FindSession orig", OF eval_FindSession [OF g]] a scoped_opt_def)
  also have "\<dots> = (Ok (), v\<lparr>locals := []\<rparr>)"
    by (rule eval_scoped [where m = ?body and w = u]) (use body A gv in simp_all)
  finally have run: "notify_original_sender env k orig u = (Ok (), v\<lparr>locals := []\<rparr>)" .
  have "stored (v\<lparr>locals := []\<rparr>) = stored u" by (rule stored_cong) (simp add: v_def)
  then show ?thesis by (rule that [OF run good_leave [OF gv A]]) (simp add: v_def send_to_def)
qed

lemma notify_offline:
  assumes g: "good {} [] A u" and off: "\<And>a. map_of A orig = Some a \<Longrightarrow> \<not> is_online (the (heap u a))"
    and ok: "sqlite_works env u"
  obtains j t where "notify_original_sender env k orig u = (Ok (), t)" "good {} [] A t" "stored u j = None"
    "stored t = (stored u)(j \<mapsto> (stored_form (ack_notification k orig), STATUS_PENDING))"
    "pending_sends t = pending_sends u"
proof (cases "map_of A orig")
  case None
  obtain j t where t: "SaveMessage env (ack_notification k orig) u = (Ok j, t)" "good {} [] A t"
    "database.more t = database.more u" "stored u j = None"
    "stored t = (stored u)(j \<mapsto> (stored_form (ack_notification k orig), STATUS_PENDING))"
    by (rule eval_save [OF g ok, of "ack_notification k orig"]) (simp add: ack_notification_def)
  then have "notify_original_sender env k orig u = (Ok (), t)"
    using eval_FindSession [OF g, of orig] None by (simp add: notify_original_sender_def bind_def scoped_opt_def)
  then show ?thesis using that t world_frame(8) [OF t(3)] by blast
next
  case (Some a)
  note A = registered [OF Some]
  let ?u = "u\<lparr>locals := a # locals u\<rparr>"
  let ?body = "bind (IsOnline a) (\<lambda>online. if online then bind (SendMessage env a (ack_notification k orig)) (\<lambda>_. ret ())
     else bind (SaveMessage env (ack_notification k orig)) (\<lambda>_. ret ()))"
  have g0: "good {} [a] A ?u" using A by (intro good_scope_enter [OF g]) simp
  have ok0: "sqlite_works env ?u" using ok by (simp add: sqlite_works_def)
  obtain s where s: "heap u a = Some s" by (rule good_live [OF g, of a]) (simp add: A)
  obtain j v where v: "SaveMessage env (ack_notification k orig) ?u = (Ok j, v)" "good {} [a] A v"
    "database.more v = database.more ?u" "stored ?u j = None"
    "stored v = (stored ?u)(j \<mapsto> (stored_form (ack_notification k orig), STATUS_PENDING))"
    by (rule eval_save [OF g0 ok0, of "ack_notification k orig"]) (simp add: ack_notification_def)
  have body: "?body ?u = (Ok (), v)" using s v(1) off [OF Some] by (simp add: bind_def IsOnline_def deref_def)
  have "notify_original_sender env k orig u = scoped env a ?body u"
    by (simp add: notify_original_sender_def bind_Ok [where m = "FindSession orig", OF eval_FindSession [OF g]] Some scoped_opt_def)
  also have "\<dots> = (Ok (), v\<lparr>locals := []\<rparr>)" by (rule eval_scoped [where m = ?body and w = u]) (use body A v(2) in simp_all)
  finally have run: "notify_original_sender env k orig u = (Ok (), v\<lparr>locals := []\<rparr>)" .
  have st: "stored ?u = stored u" "stored (v\<lparr>locals := []\<rparr>) = stored v" by (rule stored_cong, simp)+
  show ?thesis by (rule that [OF run good_leave [OF v(2) A]]) (use v world_frame(8) [OF v(3)] in \<open>simp_all add: st\<close>)
qed

section \<open>Properties\<close>

text \<open>C10. An acknowledgement settles its message: when message \<open>i\<close> is SENT, asks for an acknowledgement and
  is the one its correlation id leads to, then \<open>AckHandler\<close> marks it DELIVERED and tells the sender
  the correlation id leads to: at once, in a frame queued for its connection, when that client is online,
  and otherwise by a pending message stored for it. Nothing else in the store changes.\<close>

theorem ack_settles:
  assumes "settled [] w" "sqlite_orders env" "sqlite_works env w"
    and "stored w i = Some (m, STATUS_SENT)" "NeedsAck m" "correlation_id k \<noteq> 0"
    and "only_record w (correlation_id k) c" "cr_message_id c = bind_int64 i" "c_str (cr_sender c) \<noteq> []"
    and "Serialize (ack_notification k (c_str (cr_sender c))) = Inr data"
  shows "\<exists>t. AckHandler env k w = (Ok (), t) \<and> settled [] t \<and>
    (case map_of (active_clients w) (c_str (cr_sender c)) of
       Some a \<Rightarrow> (case heap w a of None \<Rightarrow> False | Some s \<Rightarrow>
         if is_online s
         then stored t = (stored w)(i \<mapsto> (m, STATUS_DELIVERED)) \<and> pending_sends t = pending_sends w @ [send_to a s data]
         else pending_sends t = pending_sends w \<and> (\<exists>j. stored w j = None \<and> stored t = (stored w)(i \<mapsto> (m, STATUS_DELIVERED),
           j \<mapsto> (stored_form (ack_notification k (c_str (cr_sender c))), STATUS_PENDING))))
     | None \<Rightarrow> pending_sends t = pending_sends w \<and> (\<exists>j. stored w j = None \<and> stored t = (stored w)(i \<mapsto> (m, STATUS_DELIVERED),
           j \<mapsto> (stored_form (ack_notification k (c_str (cr_sender c))), STATUS_PENDING))))"
proof -
  define A where "A = active_clients w"
  define orig where "orig = c_str (cr_sender c)"
  have g: "good {} [] A w" using settled_good [OF assms(1)] by (simp add: A_def)
  have steps: "\<forall>n. step_ok env n" using assms(3) by (simp add: sqlite_works_def)
  obtain u where u: "AckHandler env k w = notify_original_sender env k orig u" "good {} [] A u"
    "stored u = (stored w)(i \<mapsto> (m, STATUS_DELIVERED))" "heap u = heap w" "pending_sends u = pending_sends w"
    "seq_messages u = seq_messages w" "seq_correlations u = seq_correlations w"
    unfolding orig_def by (rule eval_accept [OF g assms(2) steps assms(4,5,7,8,9,6)])
  have works: "sqlite_works env u" using assms(3) u(6,7) by (simp add: sqlite_works_def)
  let ?off = "\<lambda>t. pending_sends t = pending_sends w \<and> (\<exists>j. stored w j = None \<and> stored t = (stored w)(i \<mapsto> (m, STATUS_DELIVERED),
           j \<mapsto> (stored_form (ack_notification k orig), STATUS_PENDING)))"
  have offline: "\<exists>t. AckHandler env k w = (Ok (), t) \<and> settled [] t \<and> ?off t"
    if off: "\<And>a. map_of A orig = Some a \<Longrightarrow> \<not> is_online (the (heap u a))"
  proof -
    obtain j t where t: "notify_original_sender env k orig u = (Ok (), t)" "good {} [] A t" "stored u j = None"
      "stored t = (stored u)(j \<mapsto> (stored_form (ack_notification k orig), STATUS_PENDING))"
      "pending_sends t = pending_sends u"
      by (rule notify_offline [OF u(2) off works])
    then have "stored w j = None" by (auto simp: u(3) split: if_splits)
    with t u show ?thesis by (auto intro: settledI)
  qed
  have "\<exists>t. AckHandler env k w = (Ok (), t) \<and> settled [] t \<and> (case map_of A orig of
       Some a \<Rightarrow> (case heap w a of None \<Rightarrow> False | Some s \<Rightarrow> if is_online s
         then stored t = (stored w)(i \<mapsto> (m, STATUS_DELIVERED)) \<and> pending_sends t = pending_sends w @ [send_to a s data]
         else ?off t) | None \<Rightarrow> ?off t)"
  proof (cases "map_of A orig")
    case None
    then show ?thesis using offline by simp
  next
    case (Some a)
    obtain s where s: "heap w a = Some s" by (rule good_live [OF g, of a]) (use registered [OF Some] in simp)
    show ?thesis
    proof (cases "is_online s")
      case True
      obtain t where "notify_original_sender env k orig u = (Ok (), t)" "good {} [] A t" "stored t = stored u"
        "pending_sends t = pending_sends u @ [send_to a s data]"
        by (rule notify_online [OF u(2) Some _ True assms(10) [folded orig_def]]) (simp add: u(4) s)
      then show ?thesis using u s Some True by (auto intro: settledI)
    next
      case False
      then show ?thesis using offline s Some by (simp add: u(4))
    qed
  qed
  then show ?thesis by (simp only: A_def orig_def)
qed

definition bob_acks :: message where
  "bob_acks = default_message\<lparr>msg_type := Ack, sender := ''bob'', correlation_id := 7\<rparr>"

definition bob_notes :: message where
  "bob_notes = ack_notification bob_acks ''al''"

lemma bob_notes_frame: "Serialize bob_notes = Inr (wire_format bob_notes)"
  by (rule Serialize_fits) (simp add: fits_frame_def bob_notes_def ack_notification_def bob_acks_def default_message_def)

lemma bob_acks_sel: "correlation_id bob_acks = 7" "stored_form bob_notes = bob_notes"
  by (simp_all add: bob_acks_def bob_notes_def ack_notification_def stored_form_def c_str_def default_message_def)

text \<open>The sample rows: the correlation id 7 leads to the second row and to \<open>al\<close>.\<close>

abbreviation sample_record :: crow where
  "sample_record \<equiv> \<lparr>cr_id = 1, cr_message_id = 2, cr_corr = 7, cr_sender = ''al'', cr_created = 0\<rparr>"

lemma boot_sample: "only_record (boot sample_db) 7 sample_record" "sqlite_works demo_env (boot sample_db)"
    "stored (boot sample_db) = stored sample_db" "active_clients (boot sample_db) = []"
  by (simp_all add: only_record_def boot_def sample_db_def bind_int64_def sqlite_works_def demo_orders empty_database_def
      MAX_ROWID_def stored_cong)

theorem ack_settles_witness:
  "\<exists>t j. AckHandler demo_env bob_acks (boot sample_db) = (Ok (), t)
    \<and> stored t = (stored (boot sample_db))(2 \<mapsto> (ask_al, STATUS_DELIVERED), j \<mapsto> (bob_notes, STATUS_PENDING))"
proof -
  have m: "stored (boot sample_db) 2 = Some (ask_al, STATUS_SENT)" by (simp add: boot_sample(3) sample_stored)
  have c: "only_record (boot sample_db) (correlation_id bob_acks) sample_record" "cr_message_id sample_record = bind_int64 2"
    "c_str (cr_sender sample_record) = ''al''"
    by (simp_all add: boot_sample bob_acks_sel bind_int64_def c_str_def)
  show ?thesis
    using ack_settles [OF settled_boot [OF sample_ready(1)] demo_orders(1) boot_sample(2) m _ _ c(1,2), of "wire_format bob_notes"]
      bob_notes_frame c(3) boot_sample(4) by (auto simp: bob_acks_sel bob_notes_def [symmetric])
qed

text \<open>C4. The exchange of an acknowledged message, both clients online: the message is saved and its frame queued for
  its destination; when the acknowledgement with its correlation id arrives, the row becomes DELIVERED and a
  notification is queued for the sender. After the two handlers the store has gained this one delivered
  message and nothing else, and the send queue exactly these two frames, in this order.\<close>

theorem acknowledged_exchange:
  assumes "settled [] w" "sqlite_orders env" "sqlite_works env w"
    and "proper_type (msg_type m)" "NeedsAck m" "correlation_id m \<noteq> 0" "c_str (sender m) \<noteq> []"
    and "filter (\<lambda>c. cr_corr c = bind_int64 (correlation_id m)) (correlations w) = []"
    and "map_of (active_clients w) (destination m) = Some a" "heap w a = Some s" "is_online s" "Serialize m = Inr data"
    and "map_of (active_clients w) (c_str (sender m)) = Some b" "heap w b = Some r" "is_online r"
    and "correlation_id k = correlation_id m" "Serialize (ack_notification k (c_str (sender m))) = Inr note"
  shows "\<exists>i t. seq (MessageHandler env m) (AckHandler env k) w = (Ok (), t) \<and> settled [] t
    \<and> stored w i = None \<and> stored t = (stored w)(i \<mapsto> (stored_form m, STATUS_DELIVERED))
    \<and> pending_sends t = pending_sends w @ [send_to a s data, send_to b r note]"
proof -
  obtain i v where v: "MessageHandler env m w = (Ok (), v)" "stored w i = None"
    "stored v = (stored w)(i \<mapsto> (stored_form m, STATUS_SENT))" "pending_sends v = pending_sends w @ [send_to a s data]"
    "correlated i m w v" "good {} [] (active_clients w) v"
    "heap v = (heap w)(a \<mapsto> s\<lparr>last_receive := clock w, last_activity := clock w\<rparr>)"
    using online_message [OF assms(1,3,4,12,9,10,11)] assms(5) by auto
  obtain c where c: "only_record v (correlation_id k) c" "cr_message_id c = bind_int64 i" "cr_sender c = c_str (sender m)"
    using v(5) assms(8,16) by (auto simp: correlated_def only_record_def filter_empty_conv)
  have orig: "c_str (cr_sender c) = c_str (sender m)" by (simp add: c(3))
  have sent: "stored v i = Some (stored_form m, STATUS_SENT)" "NeedsAck (stored_form m)"
    using v(3) assms(5) by (simp_all add: needs_bits stored_form_def)
  have steps: "\<forall>n. step_ok env n" using assms(3) by (simp add: sqlite_works_def)
  obtain u where u: "AckHandler env k v = notify_original_sender env k (c_str (cr_sender c)) u"
    "good {} [] (active_clients w) u" "stored u = (stored v)(i \<mapsto> (stored_form m, STATUS_DELIVERED))" "heap u = heap v"
    "pending_sends u = pending_sends v" "seq_messages u = seq_messages v" "seq_correlations u = seq_correlations v"
    by (rule eval_accept [OF v(6) assms(2) steps sent c(1,2)]) (use assms(6,7,16) in \<open>simp_all add: orig\<close>)
  define r' where "r' = the (heap u b)"
  have r': "heap u b = Some r'" "is_online r'" "send_to b r' note = send_to b r note"
    using assms(10,11,14,15) by (auto simp: r'_def u(4) v(7) send_to_def)
  obtain t where t: "notify_original_sender env k (c_str (sender m)) u = (Ok (), t)" "good {} [] (active_clients w) t"
    "stored t = stored u" "pending_sends t = pending_sends u @ [send_to b r' note]"
    by (rule notify_online [OF u(2) assms(13) r'(1,2) assms(17)])
  have "seq (MessageHandler env m) (AckHandler env k) w = (Ok (), t)"
    using v(1) u(1) t(1) by (simp add: seq_def bind_def orig)
  moreover have "settled [] t" using t(2) by (rule settledI)
  ultimately show ?thesis using v(2-4) u(3,5) t(3,4) r'(3) by (intro exI [of _ i] exI [of _ t]) simp
qed

text \<open>\<open>al\<close> registers as well, from the connection \<open>Y\<close>.\<close>

definition hello_al :: message where
  "hello_al = default_message\<lparr>msg_type := Register, sender := ''al''\<rparr>"

definition al_session :: session where
  "al_session = \<lparr>identity = ''Y'', session_name = ''al'', is_online = True, outgoing_queue = [],
     queue_mutex = False, last_receive = 0, last_activity = 0, persist_callback = True\<rparr>"

definition pair_world :: world where
  "pair_world = bob_world\<lparr>db_tick := 4,
     metrics_manager := Some (zero_metrics\<lparr>clients_registered := 2, active_sessions := 2\<rparr>),
     heap := [0 \<mapsto> bob_session, 1 \<mapsto> al_session], next_addr := 2, active_clients := [(''bob'', 0), (''al'', 1)],
     identity_to_name := [(''X'', ''bob''), (''Y'', ''al'')]\<rparr>"

lemma run_hello_al: "RouteMessage demo_env hello_al ''Y'' bob_world = (Ok (), pair_world)"
  by (simp add: run_rules boot_def empty_database_def demo_env_def hello_al_def bob_world_def pair_world_def
      bob_session_def al_session_def default_message_def IncrementClientsRegistered_def SetActiveSessions_def
      zero_metrics_def)

lemma settled_pair: "settled [] pair_world"
  using settled_RouteMessage [OF demo_orders(2)] settled_bob run_hello_al by (rule keeps_Ok)

theorem acknowledged_exchange_witness:
  "\<exists>i t. seq (MessageHandler demo_env ask_al) (AckHandler demo_env bob_acks) pair_world = (Ok (), t)
    \<and> stored t i = Some (ask_al, STATUS_DELIVERED)
    \<and> pending_sends t = [send_to 0 bob_session (wire_format ask_al), send_to 1 al_session (wire_format bob_notes)]"
proof -
  have w: "correlations pair_world = []" "map_of (active_clients pair_world) (destination ask_al) = Some 0"
    "heap pair_world 0 = Some bob_session" "map_of (active_clients pair_world) ''al'' = Some 1"
    "heap pair_world 1 = Some al_session" "is_online al_session" "pending_sends pair_world = []"
    by (simp_all add: pair_world_def al_session_def)
  have works: "sqlite_works demo_env pair_world" using bob_works by (simp add: sqlite_works_def pair_world_def)
  have al: "c_str ''al'' = ''al''" by (simp add: c_str_def)
  show ?thesis
    using acknowledged_exchange [OF settled_pair demo_orders(1) works, of ask_al 0 bob_session "wire_format ask_al" 1 al_session
        bob_acks "wire_format bob_notes"] w ask_al_frame bob_notes_frame
    by (auto simp: al bob_acks_sel sample_names bob_notes_def [symmetric])
qed

end
