(* ===== verification/Delivery.thy ===== *)
theory Delivery
  imports Acknowledge
begin

text \<open>
  Delivery of what the store kept for a client: \<open>DeliverOfflineMessages\<close> sends every pending message
  once, oldest first, and sets each row to the status its acknowledgement flag asks for.
\<close>

section \<open>One message\<close>

text \<open>What a delivered row becomes.\<close>

definition after_delivery :: "message \<Rightarrow> MessageStatus" where
  "after_delivery m = (if NeedsAck m then STATUS_SENT else STATUS_DELIVERED)"

lemma send_to_times [simp]:
  "send_to a (s\<lparr>last_activity := x\<rparr>) d = send_to a s d" "send_to a (s\<lparr>last_receive := x\<rparr>) d = send_to a s d"
  by (simp_all add: send_to_def)

text \<open>Of the sessions only the times of the one at \<open>a\<close> change.\<close>

definition touched :: "nat \<Rightarrow> world \<Rightarrow> world \<Rightarrow> bool" where
  "touched a w t = (\<exists>s x y. heap w a = Some s \<and> heap t = (heap w)(a \<mapsto> s\<lparr>last_activity := x, last_receive := y\<rparr>))"

lemma touched_same:
  assumes "heap w a = Some s" "heap t = heap w"
  shows "touched a w t"
proof -
  have "s\<lparr>last_activity := last_activity s, last_receive := last_receive s\<rparr> = s" by (cases s) simp
  then show ?thesis using assms fun_upd_idem [of "heap w" a "Some s"] unfolding touched_def
    by (intro exI [of _ s] exI [of _ "last_activity s"] exI [of _ "last_receive s"]) simp
qed

lemma touched_activity:
  assumes "heap w a = Some s" "heap t = (heap w)(a \<mapsto> s\<lparr>last_activity := x\<rparr>)"
  shows "touched a w t"
proof -
  have "s\<lparr>last_activity := x, last_receive := last_receive s\<rparr> = s\<lparr>last_activity := x\<rparr>" by (cases s) simp
  then show ?thesis using assms unfolding touched_def
    by (intro exI [of _ s] exI [of _ x] exI [of _ "last_receive s"]) simp
qed

lemma touched_trans:
  assumes "touched a w v" "touched a v t"
  shows "touched a w t"
proof -
  obtain s x y where s: "heap w a = Some s" "heap v = (heap w)(a \<mapsto> s\<lparr>last_activity := x, last_receive := y\<rparr>)"
    using assms(1) unfolding touched_def by blast
  obtain x' y' where "heap t = (heap v)(a \<mapsto> s\<lparr>last_activity := x, last_receive := y, last_activity := x', last_receive := y'\<rparr>)"
    using assms(2) s(2) unfolding touched_def by auto
  then have "heap t = (heap w)(a \<mapsto> s\<lparr>last_activity := x', last_receive := y'\<rparr>)" by (simp add: s(2))
  then show ?thesis using s(1) unfolding touched_def by blast
qed

lemma touchedE:
  assumes "touched a w t" "heap w a = Some s"
  obtains x y where "heap t = (heap w)(a \<mapsto> s\<lparr>last_activity := x, last_receive := y\<rparr>)"
    "heap t a = Some (s\<lparr>last_activity := x, last_receive := y\<rparr>)"
  using assms by (auto simp: touched_def)

text \<open>\<open>served after a s p w t\<close>: between \<open>w\<close> and \<open>t\<close> the message \<open>p\<close> was queued for the session \<open>s\<close> at \<open>a\<close> and its
  row set to the status \<open>after\<close> gives, and nothing else happened to the store.\<close>

definition served :: "(message \<Rightarrow> MessageStatus) \<Rightarrow> nat \<Rightarrow> session \<Rightarrow> PendingMessage \<Rightarrow> world \<Rightarrow> world \<Rightarrow> bool" where
  "served after a s p w t = (stored t = (stored w)(pm_id p \<mapsto> (pm_msg p, after (pm_msg p)))
     \<and> pending_sends t = pending_sends w @ [send_to a s (wire_format (pm_msg p))]
     \<and> touched a w t \<and> correlations t = correlations w \<and> created_at t = created_at w)"

lemma eval_sent:
  assumes g: "good {} L A w" and a: "a \<in> snd ` set A" and s: "heap w a = Some s" "is_online s" and data: "Serialize m = Inr data"
  obtains t where "SendMessage env a m w = (Ok True, t)" "good {} L A t" "stored t = stored w"
    "pending_sends t = pending_sends w @ [send_to a s data]" "heap t = (heap w)(a \<mapsto> s\<lparr>last_activity := clock w\<rparr>)"
    "clock t = clock w" "database.truncate t = database.truncate w"
proof -
  note send = eval_send_online [OF g s data, of env]
  show ?thesis
    by (rule that [OF send keeps_Ok [OF good_registered(1) [OF a] g send]])
       (simp_all add: send_to_def stored_def database.truncate_def)
qed

lemma truncated:
  fixes t w :: world
  assumes "database.truncate t = database.truncate w"
  shows "correlations t = correlations w" "created_at t = created_at w"
  using assms by (simp_all add: database.truncate_def created_at_def fun_eq_iff)

lemma mark_created:
  assumes "mark_as env st i w = (Ok (), t)" "\<not> db_mutex w"
  shows "created_at t = created_at w"
proof -
  have same: "created_at (w\<lparr>messages := map f (messages w), db_tick := n\<rparr>) = created_at w"
    if "\<And>r. row_id (f r) = row_id r" "\<And>r. row_created (f r) = row_created r" for f n
    using that by (simp add: created_at_def fun_eq_iff comp_def)
  show ?thesis using assms
    by (cases st) (auto simp: MarkDelivered_apply MarkSent_apply MarkPending_apply split: if_splits intro!: same)
qed

text \<open>Marking and sending, in either order.\<close>

lemma mark_then_send:
  assumes g: "good {} L A w" and a: "a \<in> snd ` set A" and s: "heap w a = Some s" "is_online s"
    and p: "fits_frame (pm_msg p)" "stored w (pm_id p) = Some (pm_msg p, old)" and ok: "\<forall>n. step_ok env n"
  obtains v t where "mark_as env st (pm_id p) w = (Ok (), v)" "heap v = heap w" "SendMessage env a (pm_msg p) v = (Ok True, t)"
    "good {} L A t" "served (\<lambda>_. next_status st old) a s p w t" "heap t a = Some (s\<lparr>last_activity := clock w\<rparr>)"
proof -
  obtain v where v: "mark_as env st (pm_id p) w = (Ok (), v)" "good {} L A v" "database.more v = database.more w"
    "stored v = (stored w)(pm_id p := map_option (\<lambda>(m, old). (m, next_status st old)) (stored w (pm_id p)))"
    "correlations v = correlations w"
    by (rule eval_mark [OF g ok])
  note fr = world_frame [OF v(3)]
  have sv: "heap v a = Some s" using s(1) fr(3) by simp
  obtain t where t: "SendMessage env a (pm_msg p) v = (Ok True, t)" "good {} L A t" "stored t = stored v"
    "pending_sends t = pending_sends v @ [send_to a s (wire_format (pm_msg p))]" "heap t = (heap v)(a \<mapsto> s\<lparr>last_activity := clock v\<rparr>)"
    "clock t = clock v" "database.truncate t = database.truncate v"
    by (rule eval_sent [OF v(2) a sv s(2) Serialize_fits [OF p(1)]])
  have "touched a w t" by (rule touched_activity [of _ _ s _ "clock v"]) (use s t(5) fr in simp_all)
  then have "served (\<lambda>_. next_status st old) a s p w t"
    using t(3,4) v(4,5) truncated [OF t(7)] mark_created [OF v(1) good_unlocked(3) [OF g]] fr p(2) by (simp add: served_def)
  then show ?thesis by (rule that [OF v(1) fr(3) t(1,2)]) (simp add: t(5) fr)
qed

lemma send_then_mark:
  assumes g: "good {} L A w" and a: "a \<in> snd ` set A" and s: "heap w a = Some s" "is_online s"
    and p: "fits_frame (pm_msg p)" "stored w (pm_id p) = Some (pm_msg p, old)" and ok: "\<forall>n. step_ok env n"
  obtains v t where "SendMessage env a (pm_msg p) w = (Ok True, v)" "mark_as env st (pm_id p) v = (Ok (), t)"
    "good {} L A t" "served (\<lambda>_. next_status st old) a s p w t"
proof -
  obtain v where v: "SendMessage env a (pm_msg p) w = (Ok True, v)" "good {} L A v" "stored v = stored w"
    "pending_sends v = pending_sends w @ [send_to a s (wire_format (pm_msg p))]" "heap v = (heap w)(a \<mapsto> s\<lparr>last_activity := clock w\<rparr>)"
    "clock v = clock w" "database.truncate v = database.truncate w"
    by (rule eval_sent [OF g a s Serialize_fits [OF p(1)]])
  obtain t where t: "mark_as env st (pm_id p) v = (Ok (), t)" "good {} L A t" "database.more t = database.more v"
    "stored t = (stored v)(pm_id p := map_option (\<lambda>(m, old). (m, next_status st old)) (stored v (pm_id p)))"
    "correlations t = correlations v"
    by (rule eval_mark [OF v(2) ok])
  have "touched a w t" by (rule touched_activity [of _ _ s _ "clock w"]) (use s v(5) world_frame [OF t(3)] in simp_all)
  then have "served (\<lambda>_. next_status st old) a s p w t"
    using t(4,5) v(3,4) truncated [OF v(7)] mark_created [OF t(1) good_unlocked(3) [OF v(2)]] world_frame(8) [OF t(3)] p(2)
    by (simp add: served_def)
  then show ?thesis by (rule that [OF v(1) t(1,2)])
qed

section \<open>All of them\<close>

definition mark_all :: "(message \<Rightarrow> MessageStatus) \<Rightarrow> PendingMessage list
    \<Rightarrow> (u64 \<Rightarrow> (message \<times> MessageStatus) option) \<Rightarrow> u64 \<Rightarrow> (message \<times> MessageStatus) option" where
  "mark_all after ps st = (\<lambda>i. if i \<in> pm_id ` set ps then map_option (\<lambda>(m, old). (m, after m)) (st i) else st i)"

definition served_all :: "(message \<Rightarrow> MessageStatus) \<Rightarrow> nat \<Rightarrow> session \<Rightarrow> PendingMessage list \<Rightarrow> world \<Rightarrow> world \<Rightarrow> bool" where
  "served_all after a s ps w t = (stored t = mark_all after ps (stored w)
     \<and> pending_sends t = pending_sends w @ map (\<lambda>p. send_to a s (wire_format (pm_msg p))) ps
     \<and> touched a w t \<and> correlations t = correlations w \<and> created_at t = created_at w)"

text \<open>The contract of the body of a delivery loop: it serves one message that waits, for a session that is online.\<close>

locale delivery =
  fixes deliver :: "env \<Rightarrow> nat \<Rightarrow> PendingMessage \<Rightarrow> (world, bool) action"
    and waits :: "MessageStatus \<Rightarrow> bool" and after :: "message \<Rightarrow> MessageStatus"
  assumes serves: "good {} L A w \<Longrightarrow> a \<in> snd ` set A \<Longrightarrow> heap w a = Some s \<Longrightarrow> is_online s \<Longrightarrow> fits_frame (pm_msg p)
      \<Longrightarrow> stored w (pm_id p) = Some (pm_msg p, old) \<Longrightarrow> waits old \<Longrightarrow> \<forall>n. step_ok env n
      \<Longrightarrow> \<exists>t. deliver env a p w = (Ok True, t) \<and> good {} L A t \<and> served after a s p w t"
begin

lemma serves_all:
  assumes "good {} L A w" "a \<in> snd ` set A" "heap w a = Some s" "is_online s" "\<forall>n. step_ok env n"
    and "list_all (\<lambda>p. fits_frame (pm_msg p) \<and> (\<exists>old. stored w (pm_id p) = Some (pm_msg p, old) \<and> waits old)) ps"
    and "distinct (map pm_id ps)"
  shows "\<exists>t. for_each (deliver env a) ps w = (Ok (), t) \<and> good {} L A t \<and> served_all after a s ps w t"
  using assms
proof (induction ps arbitrary: w s)
  case Nil
  then show ?case by (auto simp: served_all_def mark_all_def intro: touched_same)
next
  case (Cons p ps)
  then obtain old where p: "fits_frame (pm_msg p)" "stored w (pm_id p) = Some (pm_msg p, old)" "waits old" by auto
  obtain v where v: "deliver env a p w = (Ok True, v)" "good {} L A v" "served after a s p w v"
    using serves [OF Cons.prems(1-4) p Cons.prems(5)] by blast
  then have sv: "stored v = (stored w)(pm_id p \<mapsto> (pm_msg p, after (pm_msg p)))" "touched a w v" by (simp_all add: served_def)
  obtain x y where h: "heap v a = Some (s\<lparr>last_activity := x, last_receive := y\<rparr>)"
    by (rule touchedE [OF sv(2) Cons.prems(3)])
  let ?s = "s\<lparr>last_activity := x, last_receive := y\<rparr>"
  have on: "is_online ?s" using Cons.prems(4) by simp
  have rest: "list_all (\<lambda>p. fits_frame (pm_msg p) \<and> (\<exists>old. stored v (pm_id p) = Some (pm_msg p, old) \<and> waits old)) ps"
    using Cons.prems(6,7) by (auto simp: sv(1) list.pred_set image_iff)
  have d: "distinct (map pm_id ps)" using Cons.prems(7) by simp
  obtain t where t: "for_each (deliver env a) ps v = (Ok (), t)" "good {} L A t" "served_all after a ?s ps v t"
    using Cons.IH [OF v(2) Cons.prems(2) h on Cons.prems(5) rest d] by blast
  have "mark_all after ps (stored v) = mark_all after (p # ps) (stored w)"
    using Cons.prems(7) p(2) by (auto simp: mark_all_def sv(1) fun_eq_iff)
  then have "served_all after a s (p # ps) w t"
    using t(3) v(3) touched_trans [OF sv(2), of t] by (simp add: served_all_def served_def)
  then show ?case using v(1) t(1,2) by (intro exI [of _ t]) (simp add: bind_def)
qed

end

lemma served_status: "served f a s p w t \<Longrightarrow> f (pm_msg p) = g (pm_msg p) \<Longrightarrow> served g a s p w t"
  by (simp add: served_def)

interpretation offline: delivery deliver_one "\<lambda>old. old = STATUS_PENDING" after_delivery
proof
  fix L A w a s old and p :: PendingMessage and env :: env
  assume pre: "good {} L A w" "a \<in> snd ` set A" "heap w a = Some s" "is_online s" "fits_frame (pm_msg p)"
    "stored w (pm_id p) = Some (pm_msg p, old)" and old: "old = STATUS_PENDING" and ok: "\<forall>n. step_ok env n"
  show "\<exists>t. deliver_one env a p w = (Ok True, t) \<and> good {} L A t \<and> served after_delivery a s p w t"
  proof (cases "NeedsAck (pm_msg p)")
    case True
    obtain v t where t: "mark_as env STATUS_SENT (pm_id p) w = (Ok (), v)" "heap v = heap w"
      "SendMessage env a (pm_msg p) v = (Ok True, t)" "good {} L A t"
      "served (\<lambda>_. next_status STATUS_SENT old) a s p w t" "heap t a = Some (s\<lparr>last_activity := clock w\<rparr>)"
      by (rule mark_then_send [OF pre ok])
    have "deliver_one env a p w = (Ok True, t)"
      using True pre(3,4) t(1,3) by (simp add: deliver_one_def seq_def bind_def IsOnline_def deref_def)
    then show ?thesis using t(4) served_status [OF t(5)] True old by (simp add: after_delivery_def)
  next
    case False
    obtain v t where t: "SendMessage env a (pm_msg p) w = (Ok True, v)" "mark_as env STATUS_DELIVERED (pm_id p) v = (Ok (), t)"
      "good {} L A t" "served (\<lambda>_. next_status STATUS_DELIVERED old) a s p w t"
      by (rule send_then_mark [OF pre ok])
    have "deliver_one env a p w = (Ok True, t)"
      using False pre(3,4) t(1,2) by (simp add: deliver_one_def seq_def bind_def IsOnline_def deref_def)
    then show ?thesis using t(3) served_status [OF t(4)] False by (simp add: after_delivery_def)
  qed
qed

lemma eval_FlushQueue:
  assumes g: "good {} L A w" and a: "a \<in> snd ` set A" and s: "heap w a = Some s" "outgoing_queue s = []"
  shows "FlushQueue a w = (Ok (), w)"
proof -
  obtain s' where "heap w a = Some s'" "queue_mutex s' \<longleftrightarrow> QueueLock a \<in> {}"
    by (rule good_live [OF g, of a]) (use a in simp)
  then have free: "\<not> queue_mutex s" using s(1) by simp
  then have "s\<lparr>queue_mutex := False\<rparr> = s" by (cases s) simp
  then have "(heap w)(a \<mapsto> s\<lparr>queue_mutex := False\<rparr>) = heap w" using s(1) by (simp add: fun_upd_idem)
  then have "w\<lparr>heap := (heap w)(a \<mapsto> s\<lparr>queue_mutex := False\<rparr>)\<rparr> = w" by (cases w) simp
  then show ?thesis using s free
    by (simp add: FlushQueue_def queue_locked_def locked_def deref_def seq_def bind_def)
qed

text \<open>The pending messages of a client become SENT or DELIVERED, all other rows stay.\<close>

definition delivered_to :: "string \<Rightarrow> (u64 \<Rightarrow> (message \<times> MessageStatus) option) \<Rightarrow> u64 \<Rightarrow> (message \<times> MessageStatus) option" where
  "delivered_to name st = (\<lambda>i. map_option (\<lambda>(m, old).
     (m, if old = STATUS_PENDING \<and> destination m = c_str name \<and> msg_type m \<noteq> Reply then after_delivery m else old)) (st i))"

lemma load_for_delivery:
  assumes r: "ready w" and o: "sqlite_orders env" and ok: "\<And>n. step_ok env n"
  obtains ps where "LoadPendingMessagesOnly env name w = (Ok ps, w\<lparr>db_tick := Suc (db_tick w + length ps)\<rparr>)"
    "distinct (map pm_id ps)" "sorted (map (created_at w \<circ> pm_id) ps)"
    "(\<lambda>p. (pm_id p, pm_msg p)) ` set ps = {(i, m). stored w i = Some (m, STATUS_PENDING) \<and> destination m = c_str name \<and> msg_type m \<noteq> Reply}"
    "mark_all after_delivery ps (stored w) = delivered_to name (stored w)"
proof -
  obtain rows where rows: "LoadPendingMessagesOnly env name w =
       (Ok (map pending_of_row rows), w\<lparr>db_tick := Suc (db_tick w + length rows)\<rparr>)"
    "sorted (map row_created rows)" "distinct rows"
    "set rows = {x \<in> set (messages w). row_dest x = c_str name \<and> row_status x = STATUS_PENDING
       \<and> row_type x \<noteq> uint (type_byte Reply)}"
    by (rule load_pending [OF r o ok])
  let ?ps = "map pending_of_row rows"
  let ?Q = "\<lambda>i m st. st = STATUS_PENDING \<and> destination m = c_str name \<and> msg_type m \<noteq> Reply"
  have "loads (LoadPendingMessagesOnly env name) ?Q w"
    by (rule loads_rows [where op = "LoadPendingMessagesOnly env name", OF r rows]) (auto simp: row_columns [OF r])
  then have ids: "id_and_message ?ps = {(i, m). \<exists>st. stored w i = Some (m, st) \<and> ?Q i m st}"
    and d: "distinct (map pm_id ?ps)" "sorted (map (created_at w \<circ> pm_id) ?ps)"
    by (simp_all add: loads_def rows(1) del: map_map)
  then have set: "(\<lambda>p. (pm_id p, pm_msg p)) ` set ?ps = {(i, m). stored w i = Some (m, STATUS_PENDING) \<and> destination m = c_str name \<and> msg_type m \<noteq> Reply}"
    by (auto simp: id_and_message_def)
  have mem: "i \<in> pm_id ` set ?ps \<longleftrightarrow> (\<exists>m. stored w i = Some (m, STATUS_PENDING) \<and> destination m = c_str name \<and> msg_type m \<noteq> Reply)" for i
  proof -
    have "i \<in> pm_id ` set ?ps \<longleftrightarrow> (\<exists>m. (i, m) \<in> (\<lambda>p. (pm_id p, pm_msg p)) ` set ?ps)" by force
    then show ?thesis by (simp only: set) simp
  qed
  have "mark_all after_delivery ?ps (stored w) = delivered_to name (stored w)"
  proof
    show "mark_all after_delivery ?ps (stored w) i = delivered_to name (stored w) i" for i
      by (cases "stored w i") (auto simp: mark_all_def delivered_to_def mem simp del: set_map)
  qed
  moreover have "LoadPendingMessagesOnly env name w = (Ok ?ps, w\<lparr>db_tick := Suc (db_tick w + length ?ps)\<rparr>)"
    by (simp only: rows(1) length_map)
  ultimately show ?thesis by (intro that [of ?ps] d set)
qed

lemma eval_times:
  assumes g: "good {} L A w" and a: "a \<in> snd ` set A" and s: "heap w a = Some s"
  defines "v \<equiv> w\<lparr>heap := (heap w)(a \<mapsto> s\<lparr>last_activity := clock w, last_receive := clock w\<rparr>)\<rparr>"
  shows "seq (UpdateLastActivity a) (seq (UpdateLastReceive a) m) w = m v" "good {} L A v" "touched a w v"
    "stored v = stored w" "created_at v = created_at w"
proof -
  let ?x = "w\<lparr>heap := (heap w)(a \<mapsto> s\<lparr>last_activity := clock w\<rparr>)\<rparr>"
  have touch: "UpdateLastActivity a w = (Ok (), ?x)" "UpdateLastReceive a ?x = (Ok (), v)"
    using s by (simp_all add: UpdateLastActivity_def UpdateLastReceive_def assign_def v_def)
  then show "seq (UpdateLastActivity a) (seq (UpdateLastReceive a) m) w = m v" by (simp add: seq_def bind_def)
  show "good {} L A v"
    by (rule keeps_Ok [OF good_registered(6) [OF a] keeps_Ok [OF good_registered(5) [OF a] g touch(1)] touch(2)])
  show "touched a w v" using s by (auto simp: touched_def v_def)
  show "stored v = stored w" "created_at v = created_at w"
    by (rule stored_cong, simp add: v_def) (simp add: created_at_def fun_eq_iff v_def)
qed

lemma eval_deliver_pending:
  assumes g: "good {} L A w" and a: "a \<in> snd ` set A" and s: "heap w a = Some s" "is_online s" "outgoing_queue s = []"
    and o: "sqlite_orders env" and ok: "\<forall>n. step_ok env n"
    and load: "LoadPendingMessagesOnly env name w = (Ok ps, w\<lparr>db_tick := Suc (db_tick w + length ps)\<rparr>)"
    and ids: "distinct (map pm_id ps)"
    and ps: "list_all (\<lambda>p. fits_frame (pm_msg p) \<and> stored w (pm_id p) = Some (pm_msg p, STATUS_PENDING)) ps"
  shows "\<exists>t. deliver_pending env a name w = (Ok (), t) \<and> good {} L A t \<and> served_all after_delivery a s ps w t"
proof (cases "ps = []")
  case True
  let ?t = "w\<lparr>db_tick := Suc (db_tick w + length ps)\<rparr>"
  have "deliver_pending env a name w = (Ok (), ?t)" using load True by (simp add: deliver_pending_def bind_def seq_def)
  moreover have "good {} L A ?t" using g by (simp add: good_def lock_flags_def db_wf_def)
  moreover have "served_all after_delivery a s ps w ?t" using touched_same [OF s(1), of ?t] True
    by (simp add: served_all_def mark_all_def stored_def created_at_def fun_eq_iff)
  ultimately show ?thesis by blast
next
  case False
  let ?s = "s\<lparr>last_activity := clock w, last_receive := clock w\<rparr>"
  let ?v = "w\<lparr>db_tick := Suc (db_tick w + length ps), metrics_manager := map_option IncrementOfflineDelivered (metrics_manager w)\<rparr>"
  let ?w = "?v\<lparr>heap := (heap w)(a \<mapsto> ?s)\<rparr>"
  have gv: "good {} L A ?v" using g by (simp add: good_def lock_flags_def db_wf_def)
  have "stored ?v = stored w" by (rule stored_cong) simp
  moreover have "created_at ?v = created_at w" by (simp add: created_at_def fun_eq_iff)
  moreover note times = eval_times [OF gv a, of s, simplified, OF s(1)]
  ultimately have same: "stored ?w = stored w" "created_at ?w = created_at w" "touched a w ?w"
    by (simp_all add: touched_def)
  have sw: "heap ?w a = Some ?s" "is_online ?s" using s(2) by simp_all
  have ps': "list_all (\<lambda>p. fits_frame (pm_msg p) \<and> (\<exists>old. stored ?w (pm_id p) = Some (pm_msg p, old) \<and> old = STATUS_PENDING)) ps"
    using ps by (auto simp: same list.pred_set)
  obtain t where t: "for_each (deliver_one env a) ps ?w = (Ok (), t)" "good {} L A t" "served_all after_delivery a ?s ps ?w t"
    using offline.serves_all [OF times(2) a sw ok ps' ids] by blast
  have tt: "touched a ?w t" using t(3) by (simp add: served_all_def)
  then obtain x y where h: "heap t a = Some (?s\<lparr>last_activity := x, last_receive := y\<rparr>)" using touchedE [OF _ sw(1)] by blast
  have flush: "FlushQueue a t = (Ok (), t)" by (rule eval_FlushQueue [OF t(2) a h]) (use s(3) in simp)
  have "deliver_pending env a name w = seq (UpdateLastActivity a) (seq (UpdateLastReceive a)
      (seq (for_each (deliver_one env a) ps) (FlushQueue a))) ?v"
    using load False by (simp add: deliver_pending_def bind_Ok [where m = "LoadPendingMessagesOnly env name", OF load] seq_def
        bind_Ok [where m = "metric IncrementOfflineDelivered"] metric_def)
  also have "\<dots> = (Ok (), t)" unfolding times(1) using t(1) flush by (simp add: seq_def bind_def)
  finally have run: "deliver_pending env a name w = (Ok (), t)" .
  have "served_all after_delivery a s ps w t" using t(3) touched_trans [OF same(3) tt] by (simp add: served_all_def same)
  then show ?thesis using run t(2) by blast
qed

text \<open>The operation, called while other sessions are held by local variables.\<close>

lemma eval_DeliverOfflineMessages:
  assumes g: "good {} L A w" and o: "sqlite_orders env" and ok: "\<forall>n. step_ok env n"
    and s: "map_of A name = Some a" "heap w a = Some s" "is_online s" "outgoing_queue s = []"
    and fits: "list_all (\<lambda>r. fits_frame (message_of_row r)) (messages w)"
  obtains ps t where "DeliverOfflineMessages env name w = (Ok (), t)" "good {} L A t" "served_all after_delivery a s ps w t"
    "(\<lambda>p. (pm_id p, pm_msg p)) ` set ps = {(i, m). stored w i = Some (m, STATUS_PENDING) \<and> destination m = c_str name \<and> msg_type m \<noteq> Reply}"
    "distinct (map pm_id ps)" "sorted (map (created_at w \<circ> pm_id) ps)"
    "mark_all after_delivery ps (stored w) = delivered_to name (stored w)"
proof -
  have a: "a \<in> snd ` set A" by (rule registered [OF s(1)])
  have steps: "\<And>n. step_ok env n" using ok by blast
  let ?w = "w\<lparr>locals := a # locals w\<rparr>"
  have g0: "good {} (a # L) A ?w" using a by (intro good_scope_enter [OF g]) simp
  have same: "stored ?w = stored w" "created_at ?w = created_at w"
    by (rule stored_cong, simp) (simp add: created_at_def fun_eq_iff)
  obtain ps where ps: "LoadPendingMessagesOnly env name ?w = (Ok ps, ?w\<lparr>db_tick := Suc (db_tick ?w + length ps)\<rparr>)"
    "distinct (map pm_id ps)" "sorted (map (created_at ?w \<circ> pm_id) ps)"
    "(\<lambda>p. (pm_id p, pm_msg p)) ` set ps = {(i, m). stored ?w i = Some (m, STATUS_PENDING) \<and> destination m = c_str name \<and> msg_type m \<noteq> Reply}"
    "mark_all after_delivery ps (stored ?w) = delivered_to name (stored ?w)"
    by (rule load_for_delivery [OF good_unlocked(4) [OF g0] o steps])
  have row: "stored w (pm_id p) = Some (pm_msg p, STATUS_PENDING)" if "p \<in> set ps" for p
    using ps(4) imageI [OF that, of "\<lambda>p. (pm_id p, pm_msg p)"] by (simp add: same)
  have fit: "list_all (\<lambda>p. fits_frame (pm_msg p) \<and> stored ?w (pm_id p) = Some (pm_msg p, STATUS_PENDING)) ps"
    using row fits by (auto simp: list.pred_set same elim!: stored_SomeD dest!: row)
  have s': "heap ?w a = Some s" using s(2) by simp
  obtain v where v: "deliver_pending env a name ?w = (Ok (), v)" "good {} (a # L) A v" "served_all after_delivery a s ps ?w v"
    using eval_deliver_pending [OF g0 a s' s(3,4) o ok ps(1,2) fit] by blast
  have "DeliverOfflineMessages env name w = scoped env a (deliver_pending env a name) w"
    using eval_FindSession [OF g, of name] s(1) by (simp add: DeliverOfflineMessages_def FindSession_def bind_def)
  also have "\<dots> = (Ok (), v\<lparr>locals := L\<rparr>)"
    by (rule eval_scoped [where w = w and m = "deliver_pending env a name"]) (use v a in simp_all)
  finally have run: "DeliverOfflineMessages env name w = (Ok (), v\<lparr>locals := L\<rparr>)" .
  have out: "stored (v\<lparr>locals := L\<rparr>) = stored v" "created_at (v\<lparr>locals := L\<rparr>) = created_at v"
    by (rule stored_cong, simp) (simp add: created_at_def fun_eq_iff)
  have "served_all after_delivery a s ps w (v\<lparr>locals := L\<rparr>)"
    using v(3) by (simp add: served_all_def out same touched_def)
  then show ?thesis by (rule that [OF run good_leave [OF v(2) a]]) (use ps(2-5) in \<open>simp_all add: same\<close>)
qed

text \<open>C5. A client that comes online gets what was kept for it: \<open>DeliverOfflineMessages\<close> queues one frame per PENDING
  message for the client that is not a reply, oldest first, on the client's own connection; these
  messages become SENT when they ask for an acknowledgement and DELIVERED otherwise, and nothing
  else in the store changes.\<close>

theorem offline_messages_delivered:
  assumes "settled [] w" "sqlite_orders env" "\<And>n. step_ok env n"
    and "map_of (active_clients w) name = Some a" "heap w a = Some s" "is_online s" "outgoing_queue s = []"
    and "list_all (\<lambda>r. fits_frame (message_of_row r)) (messages w)"
  shows "\<exists>(ps :: PendingMessage list) t. DeliverOfflineMessages env name w = (Ok (), t) \<and> settled [] t
    \<and> (\<lambda>p. (pm_id p, pm_msg p)) ` set ps = {(i, m). stored w i = Some (m, STATUS_PENDING) \<and> destination m = c_str name \<and> msg_type m \<noteq> Reply}
    \<and> distinct (map pm_id ps) \<and> sorted (map (created_at w \<circ> pm_id) ps)
    \<and> pending_sends t = pending_sends w @ map (\<lambda>p. send_to a s (wire_format (pm_msg p))) ps
    \<and> stored t = delivered_to name (stored w)"
proof -
  have g: "good {} [] (active_clients w) w" by (rule settled_good [OF assms(1)])
  have steps: "\<forall>n. step_ok env n" using assms(3) by blast
  obtain ps t where t: "DeliverOfflineMessages env name w = (Ok (), t)" "good {} [] (active_clients w) t"
    "served_all after_delivery a s ps w t"
    "(\<lambda>p. (pm_id p, pm_msg p)) ` set ps = {(i, m). stored w i = Some (m, STATUS_PENDING) \<and> destination m = c_str name \<and> msg_type m \<noteq> Reply}"
    "distinct (map pm_id ps)" "sorted (map (created_at w \<circ> pm_id) ps)"
    "mark_all after_delivery ps (stored w) = delivered_to name (stored w)"
    by (rule eval_DeliverOfflineMessages [OF g assms(2) steps assms(4-8)])
  show ?thesis by (intro exI [of _ ps] exI [of _ t]) (use t settledI [OF t(2)] in \<open>simp add: served_all_def\<close>)
qed

text \<open>\<open>bob\<close> online, on the three rows of the sample.\<close>

definition mail_world :: world where
  "mail_world = bob_world\<lparr>messages := messages sample_db, seq_messages := 3, correlations := correlations sample_db,
     seq_correlations := 1, db_tick := 99\<rparr>"

lemma mail_settled: "settled [] mail_world"
proof (rule settledI, rule good_more [OF settled_good [OF settled_bob]])
  show "db_wf mail_world" using sample_ready(1)
    by (simp add: ready_def db_wf_def mail_world_def bob_world_def boot_def sample_db_def empty_database_def)
qed (simp_all add: mail_world_def bob_world_def boot_def)

lemma mail_stored: "stored mail_world = stored sample_db"
  by (rule stored_cong) (simp add: mail_world_def)

lemma sample_fits: "list_all (\<lambda>r. fits_frame (message_of_row r)) (messages sample_db)"
proof -
  have "fits_frame ask_al" "fits_frame answer_bob" by (simp_all add: fits_frame_def ask_al_def answer_bob_def)
  then show ?thesis by (simp add: sample_db_def sample_rows)
qed

theorem offline_messages_delivered_witness:
  "\<exists>t. DeliverOfflineMessages demo_env ''bob'' mail_world = (Ok (), t) \<and> pending_sends t \<noteq> []
    \<and> stored t 1 = Some (ask_al, STATUS_SENT) \<and> stored t 3 = Some (answer_bob, STATUS_PENDING)"
proof -
  have bob: "map_of (active_clients mail_world) ''bob'' = Some 0" "heap mail_world 0 = Some bob_session"
    "outgoing_queue bob_session = []" by (simp_all add: mail_world_def bob_session_def)
  have fits: "list_all (\<lambda>r. fits_frame (message_of_row r)) (messages mail_world)"
    using sample_fits by (simp add: mail_world_def)
  have "c_str ''bob'' = ''bob''" "destination answer_bob = ''al''" by (simp_all add: c_str_def answer_bob_def)
  then have st: "delivered_to ''bob'' (stored mail_world) 1 = Some (ask_al, STATUS_SENT)"
    "delivered_to ''bob'' (stored mail_world) 3 = Some (answer_bob, STATUS_PENDING)"
    and one: "(1, ask_al) \<in> {(i, m). stored mail_world i = Some (m, STATUS_PENDING) \<and> destination m = c_str ''bob'' \<and> msg_type m \<noteq> Reply}"
    by (simp_all add: delivered_to_def after_delivery_def mail_stored sample_stored)
  obtain ps :: "PendingMessage list" and t where t: "DeliverOfflineMessages demo_env ''bob'' mail_world = (Ok (), t)"
    "(\<lambda>p. (pm_id p, pm_msg p)) ` set ps = {(i, m). stored mail_world i = Some (m, STATUS_PENDING) \<and> destination m = c_str ''bob'' \<and> msg_type m \<noteq> Reply}"
    "pending_sends t = pending_sends mail_world @ map (\<lambda>p. send_to 0 bob_session (wire_format (pm_msg p))) ps"
    "stored t = delivered_to ''bob'' (stored mail_world)"
    using offline_messages_delivered [OF mail_settled demo_orders(1,3) bob(1,2) _ bob(3) fits] by auto
  have "ps \<noteq> []" using one [folded t(2)] by auto
  then show ?thesis using t(1,3) st by (simp add: t(4))
qed

end
