(* ===== verification/Retry.thy ===== *)
theory Retry
  imports Delivery
begin

text \<open>
  The retry of messages without an acknowledgement: what \<open>CheckExpiredAcks\<close> (src/router.cpp) sends again, to
  whom, and what it leaves in the store.
\<close>

section \<open>One message\<close>

text \<open>The session a message for \<open>name\<close> can be sent to, and the frame that is queued for it.\<close>

definition online_at :: "world \<Rightarrow> string \<Rightarrow> (nat \<times> session) option" where
  "online_at w name = (case map_of (active_clients w) name of None \<Rightarrow> None
     | Some a \<Rightarrow> (case heap w a of None \<Rightarrow> None | Some s \<Rightarrow> if is_online s then Some (a, s) else None))"

definition retry_frames :: "world \<Rightarrow> PendingMessage \<Rightarrow> PendingSend list" where
  "retry_frames w p = (case online_at w (destination (pm_msg p)) of None \<Rightarrow> []
     | Some (a, s) \<Rightarrow> [send_to a s (wire_format (pm_msg p))])"

definition after_retry :: "world \<Rightarrow> message \<Rightarrow> MessageStatus" where
  "after_retry w m = (if online_at w (destination m) = None then STATUS_PENDING else STATUS_SENT)"

lemma eval_find_online:
  assumes g: "good {} L A w"
  shows "find_online name w = (Ok (map_option fst (online_at w name)), w)"
proof (cases "map_of A name")
  case None
  then show ?thesis using good_unlocked [OF g]
    by (simp add: find_online_def registry_locked_def locked_def online_at_def bind_def)
next
  case (Some a)
  obtain s where "heap w a = Some s" by (rule good_live [OF g, of a]) (simp add: registered [OF Some])
  then show ?thesis using good_unlocked [OF g] Some
    by (simp add: find_online_def registry_locked_def locked_def online_at_def bind_def IsOnline_def deref_def)
qed

text \<open>The step of the loop leaves the registry as it is, and of the sessions it changes only a time.\<close>

definition same_receivers :: "world \<Rightarrow> world \<Rightarrow> bool" where
  "same_receivers w v = (active_clients v = active_clients w
     \<and> (heap v = heap w \<or> (\<exists>a s x. heap w a = Some s \<and> heap v = (heap w)(a \<mapsto> s\<lparr>last_activity := x\<rparr>))))"

lemma online_at_cong: "active_clients v = active_clients w \<Longrightarrow> heap v = heap w \<Longrightarrow> online_at v = online_at w"
  by (auto simp: online_at_def split: option.split)

lemma online_at_touched:
  assumes "active_clients v = active_clients w" "heap w a = Some s" "heap v = (heap w)(a \<mapsto> s\<lparr>last_activity := x\<rparr>)"
  shows "online_at v name = map_option (\<lambda>(b, r). (b, if b = a then r\<lparr>last_activity := x\<rparr> else r)) (online_at w name)"
  using assms by (simp add: online_at_def split: option.split)

lemma same_receivers:
  assumes "same_receivers w v"
  shows "retry_frames v = retry_frames w" "after_retry v = after_retry w"
proof -
  consider "online_at v = online_at w" | a x where
    "\<And>n. online_at v n = map_option (\<lambda>(b, r). (b, if b = a then r\<lparr>last_activity := x\<rparr> else r)) (online_at w n)"
    using assms online_at_touched [of v w] online_at_cong [of v w] by (auto simp: same_receivers_def)
  then show "retry_frames v = retry_frames w" "after_retry v = after_retry w"
    by (cases; simp add: retry_frames_def after_retry_def fun_eq_iff split: option.split)+
qed

lemma eval_retry_send:
  assumes g: "good {} L A w" and a: "map_of A name = Some a" and s: "heap w a = Some s" "is_online s"
    and data: "Serialize (pm_msg p) = Inr data" and ok: "\<forall>n. step_ok env n"
    and p: "stored w (pm_id p) = Some (m, STATUS_PENDING)"
  obtains t where "scoped env a (retry_send env p a) w = (Ok (), t)" "good {} L A t"
    "stored t = (stored w)(pm_id p \<mapsto> (m, STATUS_SENT))" "pending_sends t = pending_sends w @ [send_to a s data]"
    "heap t = (heap w)(a \<mapsto> s\<lparr>last_activity := clock w\<rparr>)"
proof -
  note A = registered [OF a]
  let ?w = "w\<lparr>locals := a # locals w\<rparr>"
  have g0: "good {} (a # L) A ?w" using A by (intro good_scope_enter [OF g]) simp
  have st: "stored ?w = stored w" by (rule stored_cong) simp
  obtain v where v: "mark_as env STATUS_SENT (pm_id p) ?w = (Ok (), v)" "good {} (a # L) A v" "database.more v = database.more ?w"
    "stored v = (stored ?w)(pm_id p := map_option (\<lambda>(m, old). (m, next_status STATUS_SENT old)) (stored ?w (pm_id p)))"
    "correlations v = correlations ?w"
    by (rule eval_mark [OF g0 ok])
  note fr = world_frame [OF v(3)]
  have sv: "heap v a = Some s" using s(1) fr(3) by simp
  obtain u where u: "SendMessage env a (pm_msg p) v = (Ok True, u)" "good {} (a # L) A u" "stored u = stored v"
    "pending_sends u = pending_sends v @ [send_to a s data]" "heap u = (heap v)(a \<mapsto> s\<lparr>last_activity := clock v\<rparr>)"
    "clock u = clock v" "database.truncate u = database.truncate v"
    by (rule eval_sent [OF v(2) A sv s(2) data])
  have body: "retry_send env p a ?w = (Ok (), u)" using v(1) u(1) by (simp add: retry_send_def seq_def bind_def)
  have run: "scoped env a (retry_send env p a) w = (Ok (), u\<lparr>locals := L\<rparr>)"
    by (rule eval_scoped [where m = "retry_send env p a" and w = w]) (use body A u(2) in simp_all)
  have out: "stored (u\<lparr>locals := L\<rparr>) = stored u" by (rule stored_cong) simp
  show ?thesis
    by (rule that [OF run good_leave [OF u(2) A]]) (use u(3-5) v(4) fr p in \<open>simp_all add: st out\<close>)
qed

lemma eval_retry_expired:
  assumes g: "good {} L A w" and data: "Serialize (pm_msg p) = Inr (wire_format (pm_msg p))" and ok: "\<forall>n. step_ok env n"
    and p: "stored w (pm_id p) = Some (pm_msg p, STATUS_SENT)"
  obtains t where "retry_expired env p w = (Ok True, t)" "good {} L A t" "same_receivers w t"
    "stored t = (stored w)(pm_id p \<mapsto> (pm_msg p, after_retry w (pm_msg p)))"
    "pending_sends t = pending_sends w @ retry_frames w p"
proof -
  obtain v where v: "mark_as env STATUS_PENDING (pm_id p) w = (Ok (), v)" "good {} L A v" "database.more v = database.more w"
    "stored v = (stored w)(pm_id p := map_option (\<lambda>(m, old). (m, next_status STATUS_PENDING old)) (stored w (pm_id p)))"
    "correlations v = correlations w"
    by (rule eval_mark [OF g ok])
  note fr = world_frame [OF v(3)]
  have at: "online_at v = online_at w" by (intro online_at_cong fr)
  have pv: "stored v (pm_id p) = Some (pm_msg p, STATUS_PENDING)" using v(4) p by simp
  let ?name = "destination (pm_msg p)"
  have found: "find_online ?name v = (Ok (map_option fst (online_at w ?name)), v)"
    using eval_find_online [OF v(2)] by (simp add: at)
  show ?thesis
  proof (cases "online_at w ?name")
    case None
    have "retry_expired env p w = (Ok True, v)"
      using v(1) found None by (simp add: retry_expired_def seq_def bind_def)
    moreover have "same_receivers w v" using fr by (simp add: same_receivers_def)
    ultimately show ?thesis using that v(2,4) p fr None by (simp add: retry_frames_def after_retry_def)
  next
    case (Some q)
    then obtain a s where q: "q = (a, s)" "map_of A ?name = Some a" "heap w a = Some s" "is_online s"
      using good_unlocked(5) [OF g] by (auto simp: online_at_def split: option.splits if_splits)
    have sv: "heap v a = Some s" using q(3) fr by simp
    obtain t where t: "scoped env a (retry_send env p a) v = (Ok (), t)" "good {} L A t"
      "stored t = (stored v)(pm_id p \<mapsto> (pm_msg p, STATUS_SENT))"
      "pending_sends t = pending_sends v @ [send_to a s (wire_format (pm_msg p))]"
      "heap t = (heap v)(a \<mapsto> s\<lparr>last_activity := clock v\<rparr>)"
      by (rule eval_retry_send [OF v(2) q(2) sv q(4) data ok pv])
    have "retry_expired env p w = (Ok True, t)"
      using v(1) found Some q(1) t(1) by (simp add: retry_expired_def seq_def bind_def)
    moreover have "same_receivers w t"
      using t(5) fr q(3) good_unlocked(5) [OF g] good_unlocked(5) [OF t(2)] by (auto simp: same_receivers_def)
    ultimately show ?thesis using that t(2-4) v(4) fr Some q(1) by (simp add: retry_frames_def after_retry_def)
  qed
qed

section \<open>All of them\<close>

definition retried :: "PendingMessage list \<Rightarrow> world \<Rightarrow> u64 \<Rightarrow> (message \<times> MessageStatus) option" where
  "retried ps w = (\<lambda>i. if i \<in> pm_id ` set ps then map_option (\<lambda>(m, old). (m, after_retry w m)) (stored w i) else stored w i)"

lemma eval_retry_all:
  assumes "good {} L A w" "\<forall>n. step_ok env n"
    and "list_all (\<lambda>p. fits_frame (pm_msg p) \<and> stored w (pm_id p) = Some (pm_msg p, STATUS_SENT)) ps"
    and "distinct (map pm_id ps)"
  obtains t where "for_each (retry_expired env) ps w = (Ok (), t)" "good {} L A t" "stored t = retried ps w"
    "pending_sends t = pending_sends w @ concat (map (retry_frames w) ps)"
  using assms
proof (induction ps arbitrary: w thesis)
  case Nil
  show ?case by (rule Nil(1) [of w]) (simp_all add: Nil retried_def)
next
  case (Cons p ps)
  have data: "Serialize (pm_msg p) = Inr (wire_format (pm_msg p))" using Cons.prems(4) by (simp add: Serialize_fits)
  have p: "stored w (pm_id p) = Some (pm_msg p, STATUS_SENT)" using Cons.prems(4) by simp
  obtain v where v: "retry_expired env p w = (Ok True, v)" "good {} L A v" "same_receivers w v"
    "stored v = (stored w)(pm_id p \<mapsto> (pm_msg p, after_retry w (pm_msg p)))"
    "pending_sends v = pending_sends w @ retry_frames w p"
    by (rule eval_retry_expired [OF Cons.prems(2) data Cons.prems(3) p])
  note same = same_receivers [OF v(3)]
  have rest: "list_all (\<lambda>p. fits_frame (pm_msg p) \<and> stored v (pm_id p) = Some (pm_msg p, STATUS_SENT)) ps"
    using Cons.prems(4,5) by (auto simp: v(4) list.pred_set image_iff)
  have d: "distinct (map pm_id ps)" using Cons.prems(5) by simp
  obtain t where t: "for_each (retry_expired env) ps v = (Ok (), t)" "good {} L A t" "stored t = retried ps v"
    "pending_sends t = pending_sends v @ concat (map (retry_frames v) ps)"
    by (rule Cons.IH [OF _ v(2) Cons.prems(3) rest d])
  have run: "for_each (retry_expired env) (p # ps) w = (Ok (), t)" using v(1) t(1) by (simp add: bind_def)
  have "retried ps v = retried (p # ps) w"
    using Cons.prems(5) p by (auto simp: retried_def v(4) fun_eq_iff same)
  then show ?case
    by (intro Cons.prems(1) [OF run t(2)]) (simp_all add: t(3,4) v(5) same)
qed

section \<open>The timer's check\<close>

text \<open>What the statement selects: the messages that are SENT now and were \<^emph>\<open>created\<close> more than the ACK timeout ago. When
  they were sent is not recorded, and plays no part.\<close>

definition sent_and_old :: "env \<Rightarrow> world \<Rightarrow> (u64 \<times> message) set" where
  "sent_and_old env w = {(i, m). stored w i = Some (m, STATUS_SENT)
     \<and> wall_clock env (db_tick w) - created_at w i > AckTimeout (config env)}"

lemma load_old_sent:
  assumes r: "ready w" and o: "sqlite_orders env" and ok: "\<And>n. step_ok env n"
  obtains ps where "LoadExpiredSent env (AckTimeout (config env)) w = (Ok ps, w\<lparr>db_tick := Suc (db_tick w + length ps)\<rparr>)"
    "distinct (map pm_id ps)" "sorted (map (created_at w \<circ> pm_id) ps)" "(\<lambda>p. (pm_id p, pm_msg p)) ` set ps = sent_and_old env w"
proof -
  let ?T = "AckTimeout (config env)"
  obtain rows where rows: "LoadExpiredSent env ?T w =
       (Ok (map pending_of_row rows), w\<lparr>db_tick := Suc (db_tick w + length rows)\<rparr>)"
    "sorted (map row_created rows)" "distinct rows"
    "set rows = {x \<in> set (messages w). row_status x = STATUS_SENT \<and> wall_clock env (db_tick w) - row_created x > ?T}"
    by (rule load_expired [OF r o ok])
  let ?ps = "map pending_of_row rows"
  have "loads (LoadExpiredSent env ?T)
      (\<lambda>i m st. st = STATUS_SENT \<and> wall_clock env (db_tick w) - created_at w i > ?T) w"
    by (rule loads_rows [where op = "LoadExpiredSent env ?T", OF r rows]) (auto simp: created_at_row [OF r])
  then have "id_and_message ?ps = sent_and_old env w" "distinct (map pm_id ?ps)" "sorted (map (created_at w \<circ> pm_id) ?ps)"
    by (auto simp: loads_def rows(1) sent_and_old_def simp del: map_map)
  moreover have "LoadExpiredSent env ?T w = (Ok ?ps, w\<lparr>db_tick := Suc (db_tick w + length ?ps)\<rparr>)"
    by (simp only: rows(1) length_map)
  ultimately show ?thesis by (intro that [of ?ps]) (simp_all add: id_and_message_def del: map_map)
qed

text \<open>C8. The retry of messages without an acknowledgement: \<open>CheckExpiredAcks\<close> takes the messages that are SENT and
  were created more than the ACK timeout ago (their age counts from \<open>created_at\<close>, not from the moment they were sent),
  each once and oldest first. One whose destination is registered and online is
  queued once more on that client's connection and stays SENT; one whose destination is not goes back to PENDING,
  so that it waits for the client to come online. No other message changes, and nothing else is queued.\<close>

theorem old_sent_retried:
  assumes "settled [] w" "sqlite_orders env" "\<And>n. step_ok env n" "AckTimeout (config env) > 0"
    and "list_all (\<lambda>r. fits_frame (message_of_row r)) (messages w)"
  shows "\<exists>(ps :: PendingMessage list) t. CheckExpiredAcks env w = (Ok (), t) \<and> settled [] t
    \<and> (\<lambda>p. (pm_id p, pm_msg p)) ` set ps = sent_and_old env w
    \<and> distinct (map pm_id ps) \<and> sorted (map (created_at w \<circ> pm_id) ps)
    \<and> pending_sends t = pending_sends w @ concat (map (retry_frames w) ps)
    \<and> stored t = (\<lambda>i. map_option (\<lambda>(m, st). (m, if (i, m) \<in> sent_and_old env w then after_retry w m else st)) (stored w i))"
proof -
  define A where "A = active_clients w"
  have g: "good {} [] A w" using settled_good [OF assms(1)] by (simp add: A_def)
  obtain ps where ps: "LoadExpiredSent env (AckTimeout (config env)) w = (Ok ps, w\<lparr>db_tick := Suc (db_tick w + length ps)\<rparr>)"
    "distinct (map pm_id ps)" "sorted (map (created_at w \<circ> pm_id) ps)" "(\<lambda>p. (pm_id p, pm_msg p)) ` set ps = sent_and_old env w"
    by (rule load_old_sent [OF good_unlocked(4) [OF g] assms(2,3)])
  let ?v = "w\<lparr>db_tick := Suc (db_tick w + length ps), metrics_manager :=
     (if ps = [] then metrics_manager w else map_option IncrementMessagesExpired (metrics_manager w))\<rparr>"
  have steps: "\<forall>n. step_ok env n" using assms(3) by blast
  have gv: "good {} [] A ?v" using g by (simp add: good_def lock_flags_def db_wf_def)
  have same: "stored ?v = stored w" by (rule stored_cong) simp
  have at: "same_receivers w ?v" by (simp add: same_receivers_def)
  have row: "stored w (pm_id p) = Some (pm_msg p, STATUS_SENT)" if "p \<in> set ps" for p
    using ps(4) imageI [OF that, of "\<lambda>p. (pm_id p, pm_msg p)"] by (simp add: sent_and_old_def)
  have fit: "list_all (\<lambda>p. fits_frame (pm_msg p) \<and> stored ?v (pm_id p) = Some (pm_msg p, STATUS_SENT)) ps"
    using row assms(5) by (auto simp: list.pred_set same elim!: stored_SomeD dest!: row)
  obtain t where t: "for_each (retry_expired env) ps ?v = (Ok (), t)" "good {} [] A t" "stored t = retried ps ?v"
    "pending_sends t = pending_sends ?v @ concat (map (retry_frames ?v) ps)"
    by (rule eval_retry_all [OF gv steps fit ps(2)])
  have run: "CheckExpiredAcks env w = (Ok (), t)"
  proof -
    have "w\<lparr>db_tick := n, metrics_manager := metrics_manager w\<rparr> = w\<lparr>db_tick := n\<rparr>" for n by (cases w) simp
    then show ?thesis using assms(4) ps(1) t(1)
      by (cases "ps = []") (simp_all add: CheckExpiredAcks_def Let_def bind_def seq_def metric_def)
  qed
  have mem: "i \<in> pm_id ` set ps \<longleftrightarrow> (i, m) \<in> sent_and_old env w" if "stored w i = Some (m, st)" for i m st
    using that row unfolding ps(4) [symmetric] by force
  have "retried ps ?v = (\<lambda>i. map_option (\<lambda>(m, st). (m, if (i, m) \<in> sent_and_old env w then after_retry w m else st)) (stored w i))"
  proof
    show "retried ps ?v i = map_option (\<lambda>(m, st). (m, if (i, m) \<in> sent_and_old env w then after_retry w m else st)) (stored w i)" for i
    proof (cases "stored w i")
      case (Some q)
      then obtain m st where "stored w i = Some (m, st)" by (cases q) simp
      with mem [OF this] show ?thesis by (simp only: retried_def same same_receivers [OF at] option.map prod.case split: if_split) simp
    qed (simp add: retried_def same)
  qed
  then show ?thesis using run settledI [OF t(2)] ps(2-4) t(3,4)
    by (intro exI [of _ ps] exI [of _ t]) (simp add: same_receivers [OF at])
qed

theorem old_sent_retried_witness:
  "\<exists>t. CheckExpiredAcks demo_env mail_world = (Ok (), t) \<and> stored t 2 = Some (ask_al, STATUS_SENT)
    \<and> stored t 1 = Some (ask_al, STATUS_PENDING) \<and> send_to 0 bob_session (wire_format ask_al) \<in> set (pending_sends t)"
proof -
  have fits: "list_all (\<lambda>r. fits_frame (message_of_row r)) (messages mail_world)"
    using sample_fits by (simp add: mail_world_def)
  have "created_at mail_world 2 = 0"
    by (simp add: created_at_def mail_world_def sample_db_def column_int64_def row_of_message_def)
  then have over: "(2, ask_al) \<in> sent_and_old demo_env mail_world" "(1, ask_al) \<notin> sent_and_old demo_env mail_world"
    by (simp_all add: sent_and_old_def mail_stored sample_stored demo_env_def default_config_def) (simp add: mail_world_def)
  have bob: "online_at mail_world ''bob'' = Some (0, bob_session)" "destination ask_al = ''bob''"
    by (simp_all add: online_at_def mail_world_def bob_world_def bob_session_def ask_al_def)
  have pos: "AckTimeout (config demo_env) > 0" by (simp add: demo_env_def default_config_def)
  obtain ps :: "PendingMessage list" and t where t: "CheckExpiredAcks demo_env mail_world = (Ok (), t)"
    "(\<lambda>p. (pm_id p, pm_msg p)) ` set ps = sent_and_old demo_env mail_world"
    "pending_sends t = pending_sends mail_world @ concat (map (retry_frames mail_world) ps)"
    "stored t = (\<lambda>i. map_option (\<lambda>(m, st). (m, if (i, m) \<in> sent_and_old demo_env mail_world then after_retry mail_world m else st))
       (stored mail_world i))"
    using old_sent_retried [OF mail_settled demo_orders(1,3) pos fits] by blast
  obtain p where p: "p \<in> set ps" "pm_msg p = ask_al" using over(1) [folded t(2)] by auto
  have "send_to 0 bob_session (wire_format ask_al) \<in> set (pending_sends t)"
    using p bob by (auto simp: t(3) retry_frames_def intro!: bexI [of _ p])
  then show ?thesis using t(1) over bob by (simp add: t(4) mail_stored sample_stored after_retry_def)
qed

end
