(* ===== verification/Replies.thy ===== *)
theory Replies
  imports Retry
begin

text \<open>
  Replies: \<open>ReplyHandler\<close> (src/message_handler.cpp) finds the client that asked by the correlation id, saves
  the reply for it and sends it when that client is online. The correlation id leads to the reply from then on.
\<close>

section \<open>Saving\<close>

definition redirected :: "message \<Rightarrow> string \<Rightarrow> message" where
  "redirected m orig = m\<lparr>destination := orig\<rparr>"

lemma eval_save_reply:
  assumes g: "good {} L A w" and o: "sqlite_orders env" and ok: "sqlite_works env w" and m: "proper_type (msg_type m)"
    and c: "only_record w (correlation_id m) c" "cr_sender c = orig" "c_str orig = orig" "orig \<noteq> []"
  obtains i c' t where "save_reply env m w = (Ok (Some (redirected m orig, i)), t)" "good {} L A t" "stored w i = None"
    "stored t = (stored w)(i \<mapsto> (stored_form (redirected m orig), STATUS_PENDING))"
    "heap t = heap w" "pending_sends t = pending_sends w" "clock t = clock w"
    "only_record t (correlation_id m) c'" "cr_message_id c' = bind_int64 i" "cr_sender c' = orig"
proof -
  have steps: "\<forall>n. step_ok env n" "\<And>n. step_ok env n" using ok by (simp_all add: sqlite_works_def)
  let ?w = "bump_tick w" and ?m = "redirected m orig"
  have g1: "good {} L A ?w" using g by (simp add: good_def lock_flags_def bump_tick_def db_wf_def)
  have ok1: "sqlite_works env ?w" using ok by (simp add: sqlite_works_def bump_tick_def)
  have same: "stored ?w = stored w" by (rule stored_cong) (simp add: bump_tick_def)
  have find: "FindOriginalSenderByCorrelation env (correlation_id m) w = (Ok orig, ?w)"
    using eval_lookups(1) [OF good_unlocked(4) [OF g] o steps(2) c(1)] c(2,3) by simp
  obtain i v where v: "SaveMessage env ?m ?w = (Ok i, v)" "good {} L A v" "database.more v = database.more ?w"
    "stored ?w i = None" "stored v = (stored ?w)(i \<mapsto> (stored_form ?m, STATUS_PENDING))"
    "correlations v = correlations ?w" "seq_correlations v = seq_correlations ?w" "bind_int64 i \<in> row_id ` set (messages v)"
    by (rule eval_save [OF g1 ok1, of ?m]) (use m in \<open>simp_all add: redirected_def\<close>)
  have room: "seq_correlations v < MAX_ROWID" using v(7) ok1 by (simp add: sqlite_works_def)
  obtain t where t: "SaveCorrelation env i (correlation_id m) orig v = (Ok (), t)" "good {} L A t"
    "database.more t = database.more v" "stored t = stored v"
    "correlations t = filter (\<lambda>c. \<not> (cr_corr c = bind_int64 (correlation_id m) \<and> cr_sender c = c_str orig)) (correlations v)
       @ [correlation_row v env i (correlation_id m) orig]"
    by (rule eval_correlation [OF v(2) steps(1) room v(8)])
  have run: "save_reply env m w = (Ok (Some (?m, i)), t)"
    using find v(1) t(1) c(4) by (simp add: save_reply_def Let_def seq_def bind_def try_catch_def redirected_def)
  have "correlations ?w = correlations w" by (simp add: bump_tick_def)
  moreover have "x = c" if "x \<in> set (correlations w)" "cr_corr x = bind_int64 (correlation_id m)" for x
  proof -
    have "x \<in> set (filter (\<lambda>c. cr_corr c = bind_int64 (correlation_id m)) (correlations w))" using that by simp
    then show ?thesis using c(1) by (simp add: only_record_def del: set_filter)
  qed
  ultimately have "filter (\<lambda>c. cr_corr c = bind_int64 (correlation_id m)) (correlations t)
      = [correlation_row v env i (correlation_id m) orig]"
    using c(2,3) by (auto simp: t(5) v(6) filter_empty_conv correlation_row_def)
  then have one: "only_record t (correlation_id m) (correlation_row v env i (correlation_id m) orig)"
    by (simp add: only_record_def)
  note fr = world_frame [OF t(3)] world_frame [OF v(3)] and st = v(4,5) [unfolded same]
  show ?thesis
    by (rule that [OF run t(2) _ _ _ _ _ one]) (use st t(4) fr c(3) in \<open>simp_all add: correlation_row_def bump_tick_def\<close>)
qed

section \<open>Sending\<close>

lemma eval_send_reply:
  assumes g: "good {} L A w" and a: "a \<in> snd ` set A" and s: "heap w a = Some s" "is_online s"
    and data: "Serialize m = Inr data" and ok: "\<forall>n. step_ok env n"
    and p: "stored w i = Some (m', STATUS_PENDING)"
  obtains t where "send_reply env m a i w = (Ok (), t)" "good {} L A t"
    "stored t = (stored w)(i \<mapsto> (m', after_delivery m))" "pending_sends t = pending_sends w @ [send_to a s data]"
    "correlations t = correlations w"
proof (cases "NeedsAck m")
  case True
  obtain v where v: "mark_as env STATUS_SENT i w = (Ok (), v)" "good {} L A v" "database.more v = database.more w"
    "stored v = (stored w)(i := map_option (\<lambda>(m, old). (m, next_status STATUS_SENT old)) (stored w i))"
    "correlations v = correlations w"
    by (rule eval_mark [OF g ok])
  note fr = world_frame [OF v(3)]
  have sv: "heap v a = Some s" using s(1) fr(3) by simp
  obtain t where t: "SendMessage env a m v = (Ok True, t)" "good {} L A t" "stored t = stored v"
    "pending_sends t = pending_sends v @ [send_to a s data]" "heap t = (heap v)(a \<mapsto> s\<lparr>last_activity := clock v\<rparr>)"
    "clock t = clock v" "database.truncate t = database.truncate v"
    by (rule eval_sent [OF v(2) a sv s(2) data])
  have "send_reply env m a i w = (Ok (), t)"
    using True v(1) t(1) by (simp add: send_reply_def seq_def bind_def try_catch_def)
  moreover have "correlations t = correlations v" using t(7) by (simp add: database.truncate_def)
  ultimately show ?thesis using that t v(4,5) fr p True by (simp add: after_delivery_def)
next
  case False
  obtain v where v: "SendMessage env a m w = (Ok True, v)" "good {} L A v" "stored v = stored w"
    "pending_sends v = pending_sends w @ [send_to a s data]" "heap v = (heap w)(a \<mapsto> s\<lparr>last_activity := clock w\<rparr>)"
    "clock v = clock w" "database.truncate v = database.truncate w"
    by (rule eval_sent [OF g a s data])
  obtain t where t: "mark_as env STATUS_DELIVERED i v = (Ok (), t)" "good {} L A t" "database.more t = database.more v"
    "stored t = (stored v)(i := map_option (\<lambda>(m, old). (m, next_status STATUS_DELIVERED old)) (stored v i))"
    "correlations t = correlations v"
    by (rule eval_mark [OF v(2) ok])
  have "send_reply env m a i w = (Ok (), t)"
    using False v(1) t(1) by (simp add: send_reply_def seq_def bind_def try_catch_def)
  moreover have "correlations v = correlations w" using v(7) by (simp add: database.truncate_def)
  ultimately show ?thesis using that t v(3,4) world_frame(8) [OF t(3)] p False by (simp add: after_delivery_def)
qed

section \<open>The handler\<close>

lemma eval_ReplyHandler:
  assumes g: "good {} [] A w" and ok: "sqlite_orders env" "sqlite_works env w" and m: "proper_type (msg_type m)"
    and c: "only_record w (correlation_id m) c" "cr_sender c = orig" "c_str orig = orig" "orig \<noteq> []"
    and data: "fits_frame (redirected m orig)"
  obtains i c' t where "ReplyHandler env m w = (Ok (), t)" "good {} [] A t" "stored w i = None"
    "stored t = (stored w)(i \<mapsto> (stored_form (redirected m orig),
       if online_at w orig = None then STATUS_PENDING else after_delivery m))"
    "pending_sends t = pending_sends w @ (case online_at w orig of None \<Rightarrow> []
       | Some (a, s) \<Rightarrow> [send_to a s (wire_format (redirected m orig))])"
    "only_record t (correlation_id m) c'" "cr_message_id c' = bind_int64 i" "cr_sender c' = orig"
proof -
  let ?m = "redirected m orig"
  have ack: "after_delivery ?m = after_delivery m"
    by (simp add: redirected_def after_delivery_def NeedsAck_def HasFlag_def)
  have dest: "destination ?m = orig" by (simp add: redirected_def)
  have steps: "\<forall>n. step_ok env n" using ok by (simp add: sqlite_works_def)
  obtain i c' v where v: "save_reply env m w = (Ok (Some (?m, i)), v)" "good {} [] A v" "stored w i = None"
    "stored v = (stored w)(i \<mapsto> (stored_form ?m, STATUS_PENDING))"
    "heap v = heap w" "pending_sends v = pending_sends w" "clock v = clock w"
    "only_record v (correlation_id m) c'" "cr_message_id c' = bind_int64 i" "cr_sender c' = orig"
    by (rule eval_save_reply [OF g ok m c])
  have at: "online_at v = online_at w"
    using good_unlocked(5) [OF g] good_unlocked(5) [OF v(2)] v(5) by (intro online_at_cong) simp_all
  have find: "FindSession orig v = (Ok (map_of A orig), v)" by (rule eval_FindSession [OF v(2)])
  show ?thesis
  proof (cases "map_of A orig")
    case None
    then have "online_at w orig = None" using good_unlocked(5) [OF g] by (simp add: online_at_def)
    moreover have "ReplyHandler env m w = (Ok (), v)"
      using v(1) find None by (simp add: ReplyHandler_def bind_def dest)
    ultimately show ?thesis using that [OF _ v(2,3) _ _ v(8-10)] v(4,6) by simp
  next
    case (Some a)
    note A = registered [OF Some]
    let ?v = "v\<lparr>locals := a # locals v\<rparr>"
    let ?body = "bind (IsOnline a) (\<lambda>online. if online then send_reply env ?m a i else ret ())"
    have g0: "good {} [a] A ?v" using A by (intro good_scope_enter [OF v(2)]) simp
    have st: "stored ?v = stored v" by (rule stored_cong) simp
    obtain s where s: "heap v a = Some s" by (rule good_live [OF v(2), of a]) (simp add: A)
    have at_a: "online_at w orig = (if is_online s then Some (a, s) else None)"
      using good_unlocked(5) [OF g] Some s v(5) by (simp add: online_at_def)
    have run: "ReplyHandler env m w = scoped env a ?body v"
      using v(1) find Some by (simp add: ReplyHandler_def bind_def [where m = "save_reply env m"] bind_def [where m = "FindSession orig"] dest)
    show ?thesis
    proof (cases "is_online s")
      case True
      have sv: "heap ?v a = Some s" and pv: "stored ?v i = Some (stored_form ?m, STATUS_PENDING)"
        using s v(4) by (simp_all add: st)
      obtain t where t: "send_reply env ?m a i ?v = (Ok (), t)" "good {} [a] A t"
        "stored t = (stored ?v)(i \<mapsto> (stored_form ?m, after_delivery ?m))"
        "pending_sends t = pending_sends ?v @ [send_to a s (wire_format ?m)]" "correlations t = correlations ?v"
        by (rule eval_send_reply [OF g0 A sv True Serialize_fits [OF data] steps pv])
      have body: "?body ?v = (Ok (), t)" using s True t(1) by (simp add: bind_def IsOnline_def deref_def)
      have end_: "scoped env a ?body v = (Ok (), t\<lparr>locals := []\<rparr>)"
        by (rule eval_scoped [where m = ?body and w = v]) (use body A t(2) in simp_all)
      have out: "stored (t\<lparr>locals := []\<rparr>) = stored t" by (rule stored_cong) simp
      have one: "only_record (t\<lparr>locals := []\<rparr>) (correlation_id m) c'" using v(8) t(5) by (simp add: only_record_def)
      show ?thesis
        by (rule that [OF _ good_leave [OF t(2) A] v(3) _ _ one v(9,10)])
           (use run end_ t(3,4) v(4,6) at_a True in \<open>simp_all add: out st ack\<close>)
    next
      case False
      have body: "?body ?v = (Ok (), ?v)" using s False by (simp add: bind_def IsOnline_def deref_def)
      have end_: "scoped env a ?body v = (Ok (), ?v\<lparr>locals := []\<rparr>)"
        by (rule eval_scoped [where m = ?body and w = v]) (use body A g0 in simp_all)
      have out: "stored (v\<lparr>locals := []\<rparr>) = stored v" by (rule stored_cong) simp
      have one: "only_record (?v\<lparr>locals := []\<rparr>) (correlation_id m) c'" using v(8) by (simp add: only_record_def)
      show ?thesis
        by (rule that [OF _ good_leave [OF g0 A] v(3) _ _ one v(9,10)])
           (use run end_ v(4,6) at_a False in \<open>simp_all add: out\<close>)
    qed
  qed
qed

text \<open>C7. A reply reaches the client that asked: when the correlation id of a reply leads to one client, \<open>ReplyHandler\<close>
  saves the reply addressed to that client, whatever destination the frame named; when the client is online the
  reply is queued on its connection and becomes SENT or DELIVERED as its acknowledgement flag asks, and otherwise it stays PENDING.
  Nothing else in the store changes, but the correlation id now leads to the reply and no longer to the request.\<close>

theorem reply_reaches_requester:
  assumes "settled [] w" "sqlite_orders env" "sqlite_works env w" "proper_type (msg_type m)"
    and "only_record w (correlation_id m) c" "cr_sender c = orig" "c_str orig = orig" "orig \<noteq> []"
    and "fits_frame (redirected m orig)"
  shows "\<exists>i c' t. ReplyHandler env m w = (Ok (), t) \<and> settled [] t \<and> stored w i = None
    \<and> stored t = (stored w)(i \<mapsto> (stored_form (redirected m orig),
         if online_at w orig = None then STATUS_PENDING else after_delivery m))
    \<and> pending_sends t = pending_sends w @ (case online_at w orig of None \<Rightarrow> []
         | Some (a, s) \<Rightarrow> [send_to a s (wire_format (redirected m orig))])
    \<and> only_record t (correlation_id m) c' \<and> cr_message_id c' = bind_int64 i \<and> cr_sender c' = orig"
proof -
  have g: "good {} [] (active_clients w) w" by (rule settled_good [OF assms(1)])
  obtain i c' t where t: "ReplyHandler env m w = (Ok (), t)" "good {} [] (active_clients w) t" "stored w i = None"
    "stored t = (stored w)(i \<mapsto> (stored_form (redirected m orig),
       if online_at w orig = None then STATUS_PENDING else after_delivery m))"
    "pending_sends t = pending_sends w @ (case online_at w orig of None \<Rightarrow> []
       | Some (a, s) \<Rightarrow> [send_to a s (wire_format (redirected m orig))])"
    "only_record t (correlation_id m) c'" "cr_message_id c' = bind_int64 i" "cr_sender c' = orig"
    by (rule eval_ReplyHandler [OF g assms(2-9)])
  show ?thesis
    by (intro exI [of _ i] exI [of _ c'] exI [of _ t] conjI t settledI [OF t(2)])
qed

theorem reply_reaches_requester_witness:
  "\<exists>i t. ReplyHandler demo_env answer_bob (boot sample_db) = (Ok (), t)
    \<and> stored t = (stored (boot sample_db))(i \<mapsto> (answer_bob, STATUS_PENDING)) \<and> pending_sends t = []"
proof -
  have c: "only_record (boot sample_db) (correlation_id answer_bob) sample_record" "cr_sender sample_record = ''al''" "c_str ''al'' = ''al''"
    by (simp_all add: boot_sample answer_bob_def c_str_def)
  have m: "redirected answer_bob ''al'' = answer_bob" "proper_type (msg_type answer_bob)" "fits_frame answer_bob"
    by (simp_all add: redirected_def answer_bob_def fits_frame_def)
  have off: "online_at (boot sample_db) ''al'' = None" "pending_sends (boot sample_db) = []"
    by (simp_all add: online_at_def boot_def)
  show ?thesis
    using reply_reaches_requester [OF settled_boot [OF sample_ready(1)] demo_orders(1) boot_sample(2) m(2) c(1,2,3)] m off
    by (auto simp: sample_names)
qed

section \<open>An acknowledgement after a reply\<close>

lemma eval_no_ack:
  assumes "ready w" "\<And>n. step_ok env n" "stored w i = Some (m, st)" "\<not> NeedsAck m"
  shows "Storage_NeedsAck env i w = (Ok False, bump_tick w)"
proof -
  obtain r where "filter (\<lambda>r. row_id r = bind_int64 i) (messages w) = [r]" "message_of_row r = m"
    by (rule ready_row [OF assms(1,3)])
  moreover from this assms(4) have "(word_of_int (row_flags r) :: u8) AND FlagNeedsAck = 0"
    by (auto simp: NeedsAck_def HasFlag_def message_of_row_def)
  ultimately show ?thesis using readyD(2) [OF assms(1)] assms(2) by (simp add: reads_apply sql_select_needs_ack_def)
qed

text \<open>C9. An acknowledgement that comes after the reply is lost: the reply has taken over the correlation id, so that
  \<open>AckHandler\<close> finds the reply, which asks for no acknowledgement, and does nothing. The request stays SENT, and
  once it is older than the timeout it is sent again.\<close>

theorem ack_after_reply_lost:
  assumes "settled [] w" "sqlite_orders env" "sqlite_works env w" "proper_type (msg_type m)"
    and "only_record w (correlation_id m) c" "cr_sender c = orig" "c_str orig = orig" "orig \<noteq> []"
    and "fits_frame (redirected m orig)" "\<not> NeedsAck m" "correlation_id k = correlation_id m" "correlation_id m \<noteq> 0"
    and "stored w i = Some (request, STATUS_SENT)"
  shows "\<exists>t. seq (ReplyHandler env m) (AckHandler env k) w = (Ok (), t) \<and> stored t i = Some (request, STATUS_SENT)"
proof -
  have g: "good {} [] (active_clients w) w" by (rule settled_good [OF assms(1)])
  have steps: "\<And>n. step_ok env n" using assms(3) by (simp add: sqlite_works_def)
  obtain j c' v where v: "ReplyHandler env m w = (Ok (), v)" "good {} [] (active_clients w) v" "stored w j = None"
    "stored v = (stored w)(j \<mapsto> (stored_form (redirected m orig),
       if online_at w orig = None then STATUS_PENDING else after_delivery m))"
    "pending_sends v = pending_sends w @ (case online_at w orig of None \<Rightarrow> []
       | Some (a, s) \<Rightarrow> [send_to a s (wire_format (redirected m orig))])"
    "only_record v (correlation_id m) c'" "cr_message_id c' = bind_int64 j" "cr_sender c' = orig"
    by (rule eval_ReplyHandler [OF g assms(2-9)])
  let ?st = "if online_at w orig = None then STATUS_PENDING else after_delivery m"
  let ?v1 = "bump_tick v" and ?v2 = "bump_tick (bump_tick v)"
  note r = good_unlocked(4) [OF v(2)]
  have rs: "ready ?v1" "ready ?v2" using r by (simp_all add: ready_def bump_tick_def)
  have rec: "only_record ?v1 (correlation_id m) c'" using v(6) by (simp add: only_record_def bump_tick_def)
  have st: "stored ?v2 = stored v" "stored (bump_tick ?v2) = stored v" by (rule stored_cong, simp add: bump_tick_def)+
  have new: "stored v j = Some (stored_form (redirected m orig), ?st)" by (simp add: v(4))
  then have j: "j \<noteq> 0" using ready_row [OF r] by metis
  have plain: "\<not> NeedsAck (stored_form (redirected m orig))"
    using assms(10) by (simp add: stored_form_def redirected_def NeedsAck_def HasFlag_def)
  have "Storage_NeedsAck env j ?v2 = (Ok False, bump_tick ?v2)"
    by (rule eval_no_ack [OF rs(2) steps new [folded st(1)] plain])
  then have "AckHandler env k v = (Ok (), bump_tick ?v2)"
    using j assms(11,12) eval_lookups(1) [OF r assms(2) steps v(6)] eval_lookups(2) [OF rs(1) assms(2) steps rec] v(7)
    by (simp add: AckHandler_def Let_def bind_def)
  then have "seq (ReplyHandler env m) (AckHandler env k) w = (Ok (), bump_tick ?v2)"
    using v(1) by (simp add: seq_def bind_def)
  moreover have "stored (bump_tick ?v2) i = Some (request, STATUS_SENT)" using assms(13) v(3) by (auto simp: st v(4))
  ultimately show ?thesis by blast
qed

theorem ack_after_reply_lost_witness:
  "\<exists>t. seq (ReplyHandler demo_env answer_bob) (AckHandler demo_env bob_acks) (boot sample_db) = (Ok (), t)
    \<and> stored t 2 = Some (ask_al, STATUS_SENT)"
proof -
  have c: "only_record (boot sample_db) (correlation_id answer_bob) sample_record" "cr_sender sample_record = ''al''" "c_str ''al'' = ''al''"
    by (simp_all add: boot_sample answer_bob_def c_str_def)
  have m: "redirected answer_bob ''al'' = answer_bob" "proper_type (msg_type answer_bob)" "fits_frame answer_bob"
    "\<not> NeedsAck answer_bob" "correlation_id answer_bob = 7"
    by (simp_all add: redirected_def answer_bob_def fits_frame_def NeedsAck_def HasFlag_def FlagNone_def)
  have q: "stored (boot sample_db) 2 = Some (ask_al, STATUS_SENT)" by (simp add: boot_sample(3) sample_stored)
  show ?thesis
    using ack_after_reply_lost [OF settled_boot [OF sample_ready(1)] demo_orders(1) boot_sample(2) m(2) c(1,2,3), of bob_acks 2 ask_al] m q
    by (simp add: bob_acks_sel)
qed

end
