(* ===== verification/Registration.thy ===== *)
theory Registration
  imports Replies
begin

text \<open>
  What a client gets when it registers: the replies kept for it (\<open>DeliverPendingReplies\<close>), and \<open>RegisterHandler\<close>
  from the new session to the last frame queued for it.
\<close>

section \<open>Pending replies\<close>

lemma marked_after:
  assumes g: "good {} L A t" and t: "served f a s p w t" and ok: "\<forall>n. step_ok env n"
  obtains u where "MarkDelivered env (pm_id p) t = (Ok (), u)" "good {} L A u" "served (\<lambda>_. STATUS_DELIVERED) a s p w u"
proof -
  obtain u where u: "mark_as env STATUS_DELIVERED (pm_id p) t = (Ok (), u)" "good {} L A u" "database.more u = database.more t"
    "stored u = (stored t)(pm_id p := map_option (\<lambda>(m, old). (m, next_status STATUS_DELIVERED old)) (stored t (pm_id p)))"
    "correlations u = correlations t"
    by (rule eval_mark [OF g ok])
  have "served (\<lambda>_. STATUS_DELIVERED) a s p w u"
    using t u(4,5) mark_created [OF u(1) good_unlocked(3) [OF g]] world_frame(3,8) [OF u(3)]
    by (simp add: served_def touched_def)
  then show ?thesis using that u(1,2) by simp
qed

interpretation replies: delivery deliver_one_reply "\<lambda>old. old \<noteq> STATUS_DELIVERED" "\<lambda>_. STATUS_DELIVERED"
proof
  fix L A w a s old and p :: PendingMessage and env :: env
  assume pre: "good {} L A w" "a \<in> snd ` set A" "heap w a = Some s" "is_online s" "fits_frame (pm_msg p)"
    "stored w (pm_id p) = Some (pm_msg p, old)" and ok: "\<forall>n. step_ok env n"
  show "\<exists>t. deliver_one_reply env a p w = (Ok True, t) \<and> good {} L A t \<and> served (\<lambda>_. STATUS_DELIVERED) a s p w t"
  proof (cases "NeedsAck (pm_msg p)")
    case True
    obtain v t where t: "mark_as env STATUS_SENT (pm_id p) w = (Ok (), v)" "heap v = heap w"
      "SendMessage env a (pm_msg p) v = (Ok True, t)" "good {} L A t"
      "served (\<lambda>_. next_status STATUS_SENT old) a s p w t" "heap t a = Some (s\<lparr>last_activity := clock w\<rparr>)"
      by (rule mark_then_send [OF pre ok])
    obtain u where u: "MarkDelivered env (pm_id p) t = (Ok (), u)" "good {} L A u" "served (\<lambda>_. STATUS_DELIVERED) a s p w u"
      by (rule marked_after [OF t(4,5) ok])
    have "deliver_one_reply env a p w = (Ok True, u)"
      using True pre(3,4) t(1,3) u(1) by (simp add: deliver_one_reply_def seq_def bind_def IsOnline_def deref_def)
    then show ?thesis using u(2,3) by blast
  next
    case False
    obtain v t where t: "SendMessage env a (pm_msg p) w = (Ok True, v)" "mark_as env STATUS_DELIVERED (pm_id p) v = (Ok (), t)"
      "good {} L A t" "served (\<lambda>_. next_status STATUS_DELIVERED old) a s p w t"
      by (rule send_then_mark [OF pre ok])
    have "deliver_one_reply env a p w = (Ok True, t)"
      using False pre(3,4) t(1,2) by (simp add: deliver_one_reply_def seq_def bind_def IsOnline_def deref_def)
    then show ?thesis using t(3,4) by simp
  qed
qed

text \<open>The replies, PENDING or SENT, whose correlation id is recorded for the client; all become DELIVERED.\<close>

definition owed_reply :: "world \<Rightarrow> string \<Rightarrow> message \<Rightarrow> MessageStatus \<Rightarrow> bool" where
  "owed_reply w name m st = (st \<noteq> STATUS_DELIVERED \<and> msg_type m = Reply
     \<and> (bind_int64 (correlation_id m), c_str name) \<in> (\<lambda>c. (cr_corr c, cr_sender c)) ` set (correlations w))"

definition replies_settled :: "world \<Rightarrow> string \<Rightarrow> (u64 \<Rightarrow> (message \<times> MessageStatus) option) \<Rightarrow> u64 \<Rightarrow> (message \<times> MessageStatus) option" where
  "replies_settled w name st = (\<lambda>i. map_option (\<lambda>(m, old). (m, if owed_reply w name m old then STATUS_DELIVERED else old)) (st i))"

lemma load_owed:
  assumes r: "ready w" and o: "sqlite_orders env" and ok: "\<And>n. step_ok env n"
  obtains ps where "LoadPendingRepliesForSenderOnly env name w = (Ok ps, w\<lparr>db_tick := Suc (db_tick w + length ps)\<rparr>)"
    "distinct (map pm_id ps)" "sorted (map (created_at w \<circ> pm_id) ps)"
    "(\<lambda>p. (pm_id p, pm_msg p)) ` set ps = {(i, m). \<exists>st. stored w i = Some (m, st) \<and> owed_reply w name m st}"
    "mark_all (\<lambda>_. STATUS_DELIVERED) ps (stored w) = replies_settled w name (stored w)"
proof -
  obtain rows where rows: "LoadPendingRepliesForSenderOnly env name w =
       (Ok (map pending_of_row rows), w\<lparr>db_tick := Suc (db_tick w + length rows)\<rparr>)"
    "sorted (map row_created rows)" "distinct rows"
    "set rows = {x \<in> set (messages w). row_status x \<noteq> STATUS_DELIVERED \<and> row_type x = uint (type_byte Reply)
      \<and> (\<exists>c \<in> set (correlations w). cr_corr c = row_corr x \<and> cr_sender c = c_str name)}"
    by (rule load_replies [OF r o ok])
  let ?ps = "map pending_of_row rows"
  have "loads (LoadPendingRepliesForSenderOnly env name) (\<lambda>i. owed_reply w name) w"
    by (rule loads_rows [where op = "LoadPendingRepliesForSenderOnly env name", OF r rows])
      (force simp: owed_reply_def row_columns [OF r] image_iff)
  then have ids: "id_and_message ?ps = {(i, m). \<exists>st. stored w i = Some (m, st) \<and> owed_reply w name m st}"
    and d: "distinct (map pm_id ?ps)" "sorted (map (created_at w \<circ> pm_id) ?ps)"
    by (simp_all add: loads_def rows(1) del: map_map)
  then have set: "(\<lambda>p. (pm_id p, pm_msg p)) ` set ?ps = {(i, m). \<exists>st. stored w i = Some (m, st) \<and> owed_reply w name m st}"
    by (simp add: id_and_message_def del: set_map)
  have mem: "i \<in> pm_id ` set ?ps \<longleftrightarrow> (\<exists>m st. stored w i = Some (m, st) \<and> owed_reply w name m st)" for i
  proof -
    have "i \<in> pm_id ` set ?ps \<longleftrightarrow> (\<exists>m. (i, m) \<in> (\<lambda>p. (pm_id p, pm_msg p)) ` set ?ps)" by force
    then show ?thesis by (simp only: set) simp
  qed
  have "mark_all (\<lambda>_. STATUS_DELIVERED) ?ps (stored w) = replies_settled w name (stored w)"
  proof
    show "mark_all (\<lambda>_. STATUS_DELIVERED) ?ps (stored w) i = replies_settled w name (stored w) i" for i
      by (cases "stored w i") (auto simp: mark_all_def replies_settled_def mem simp del: set_map)
  qed
  moreover have "LoadPendingRepliesForSenderOnly env name w = (Ok ?ps, w\<lparr>db_tick := Suc (db_tick w + length ?ps)\<rparr>)"
    by (simp only: rows(1) length_map)
  ultimately show ?thesis by (intro that [of ?ps] d set)
qed

lemma eval_deliver_replies:
  assumes g: "good {} L A w" and a: "a \<in> snd ` set A" and s: "heap w a = Some s" "is_online s" and ok: "\<forall>n. step_ok env n"
    and load: "LoadPendingRepliesForSenderOnly env name w = (Ok ps, w\<lparr>db_tick := Suc (db_tick w + length ps)\<rparr>)"
    and ids: "distinct (map pm_id ps)"
    and ps: "list_all (\<lambda>p. fits_frame (pm_msg p) \<and> (\<exists>old. stored w (pm_id p) = Some (pm_msg p, old) \<and> old \<noteq> STATUS_DELIVERED)) ps"
  shows "\<exists>t. deliver_replies env a name w = (Ok (), t) \<and> good {} L A t \<and> served_all (\<lambda>_. STATUS_DELIVERED) a s ps w t"
proof (cases "ps = []")
  case True
  let ?t = "w\<lparr>db_tick := Suc (db_tick w + length ps)\<rparr>"
  have "deliver_replies env a name w = (Ok (), ?t)" using load True by (simp add: deliver_replies_def bind_def seq_def)
  moreover have "good {} L A ?t" using g by (simp add: good_def lock_flags_def db_wf_def)
  moreover have "served_all (\<lambda>_. STATUS_DELIVERED) a s ps w ?t" using touched_same [OF s(1), of ?t] True
    by (simp add: served_all_def mark_all_def stored_def created_at_def fun_eq_iff)
  ultimately show ?thesis by blast
next
  case False
  let ?s = "s\<lparr>last_activity := clock w, last_receive := clock w\<rparr>"
  let ?v = "w\<lparr>db_tick := Suc (db_tick w + length ps)\<rparr>"
  let ?w = "?v\<lparr>heap := (heap w)(a \<mapsto> ?s)\<rparr>"
  have gv: "good {} L A ?v" using g by (simp add: good_def lock_flags_def db_wf_def)
  have "stored ?v = stored w" by (rule stored_cong) simp
  moreover have "created_at ?v = created_at w" by (simp add: created_at_def fun_eq_iff)
  moreover note times = eval_times [OF gv a, of s, simplified, OF s(1)]
  ultimately have same: "stored ?w = stored w" "created_at ?w = created_at w" "touched a w ?w"
    by (simp_all add: touched_def)
  have sw: "heap ?w a = Some ?s" "is_online ?s" using s(2) by simp_all
  have ps': "list_all (\<lambda>p. fits_frame (pm_msg p) \<and> (\<exists>old. stored ?w (pm_id p) = Some (pm_msg p, old) \<and> old \<noteq> STATUS_DELIVERED)) ps"
    using ps by (simp only: same)
  obtain t where t: "for_each (deliver_one_reply env a) ps ?w = (Ok (), t)" "good {} L A t"
    "served_all (\<lambda>_. STATUS_DELIVERED) a ?s ps ?w t"
    using replies.serves_all [OF times(2) a sw ok ps' ids] by blast
  have tt: "touched a ?w t" using t(3) by (simp add: served_all_def)
  have "deliver_replies env a name w = seq (UpdateLastActivity a) (seq (UpdateLastReceive a)
      (for_each (deliver_one_reply env a) ps)) ?v"
    using False by (simp add: deliver_replies_def bind_Ok [where m = "LoadPendingRepliesForSenderOnly env name", OF load])
  then have run: "deliver_replies env a name w = (Ok (), t)" using t(1) by (simp add: times(1))
  have "served_all (\<lambda>_. STATUS_DELIVERED) a s ps w t" using t(3) touched_trans [OF same(3) tt] by (simp add: served_all_def same)
  then show ?thesis using run t(2) by blast
qed

lemma eval_DeliverPendingReplies:
  assumes g: "good {} L A w" and o: "sqlite_orders env" and ok: "\<forall>n. step_ok env n"
    and s: "map_of A name = Some a" "heap w a = Some s" "is_online s"
    and fits: "\<And>i m st. stored w i = Some (m, st) \<Longrightarrow> fits_frame m"
  obtains ps t where "DeliverPendingReplies env name w = (Ok (), t)" "good {} L A t" "served_all (\<lambda>_. STATUS_DELIVERED) a s ps w t"
    "(\<lambda>p. (pm_id p, pm_msg p)) ` set ps = {(i, m). \<exists>st. stored w i = Some (m, st) \<and> owed_reply w name m st}"
    "distinct (map pm_id ps)" "sorted (map (created_at w \<circ> pm_id) ps)"
    "mark_all (\<lambda>_. STATUS_DELIVERED) ps (stored w) = replies_settled w name (stored w)"
proof -
  have a: "a \<in> snd ` set A" by (rule registered [OF s(1)])
  have steps: "\<And>n. step_ok env n" using ok by blast
  let ?w = "w\<lparr>locals := a # locals w\<rparr>"
  have g0: "good {} (a # L) A ?w" using a by (intro good_scope_enter [OF g]) simp
  have same: "stored ?w = stored w" "created_at ?w = created_at w" "owed_reply ?w = owed_reply w" "replies_settled ?w = replies_settled w"
    by (rule stored_cong, simp) (simp_all add: created_at_def owed_reply_def replies_settled_def fun_eq_iff)
  obtain ps where ps: "LoadPendingRepliesForSenderOnly env name ?w = (Ok ps, ?w\<lparr>db_tick := Suc (db_tick ?w + length ps)\<rparr>)"
    "distinct (map pm_id ps)" "sorted (map (created_at ?w \<circ> pm_id) ps)"
    "(\<lambda>p. (pm_id p, pm_msg p)) ` set ps = {(i, m). \<exists>st. stored ?w i = Some (m, st) \<and> owed_reply ?w name m st}"
    "mark_all (\<lambda>_. STATUS_DELIVERED) ps (stored ?w) = replies_settled ?w name (stored ?w)"
    by (rule load_owed [OF good_unlocked(4) [OF g0] o steps])
  have row: "\<exists>st. stored w (pm_id p) = Some (pm_msg p, st) \<and> st \<noteq> STATUS_DELIVERED" if "p \<in> set ps" for p
    using ps(4) imageI [OF that, of "\<lambda>p. (pm_id p, pm_msg p)"] by (auto simp: same owed_reply_def)
  have fit: "list_all (\<lambda>p. fits_frame (pm_msg p) \<and> (\<exists>old. stored ?w (pm_id p) = Some (pm_msg p, old) \<and> old \<noteq> STATUS_DELIVERED)) ps"
    unfolding same list.pred_set using row fits by blast
  have s': "heap ?w a = Some s" using s(2) by simp
  obtain v where v: "deliver_replies env a name ?w = (Ok (), v)" "good {} (a # L) A v" "served_all (\<lambda>_. STATUS_DELIVERED) a s ps ?w v"
    using eval_deliver_replies [OF g0 a s' s(3) ok ps(1,2) fit] by blast
  have "DeliverPendingReplies env name w = scoped env a (deliver_replies env a name) w"
    using eval_FindSession [OF g, of name] s(1) by (simp add: DeliverPendingReplies_def FindSession_def bind_def)
  also have "\<dots> = (Ok (), v\<lparr>locals := L\<rparr>)"
    by (rule eval_scoped [where w = w and m = "deliver_replies env a name"]) (use v a in simp_all)
  finally have run: "DeliverPendingReplies env name w = (Ok (), v\<lparr>locals := L\<rparr>)" .
  have out: "stored (v\<lparr>locals := L\<rparr>) = stored v" "created_at (v\<lparr>locals := L\<rparr>) = created_at v"
    by (rule stored_cong, simp) (simp add: created_at_def fun_eq_iff)
  have "served_all (\<lambda>_. STATUS_DELIVERED) a s ps w (v\<lparr>locals := L\<rparr>)"
    using v(3) by (simp add: served_all_def out same touched_def)
  then show ?thesis by (rule that [OF run good_leave [OF v(2) a]]) (use ps(2-5) in \<open>simp_all add: same\<close>)
qed

section \<open>The listing of the clients\<close>

lemma eval_GetQueueSize:
  assumes "heap w a = Some s" "\<not> queue_mutex s"
  shows "GetQueueSize a w = (Ok (length (outgoing_queue s)), w)"
proof -
  have "s\<lparr>queue_mutex := False\<rparr> = s" using assms(2) by (cases s) simp
  then have "(heap w)(a \<mapsto> s\<lparr>queue_mutex := False\<rparr>) = heap w" using assms(1) by (simp add: fun_upd_idem)
  then have "w\<lparr>heap := (heap w)(a \<mapsto> s\<lparr>queue_mutex := False\<rparr>)\<rparr> = w" by (cases w) simp
  then show ?thesis using assms
    by (simp add: GetQueueSize_def queue_locked_def locked_def deref_def seq_def bind_def)
qed

lemma eval_PrintActiveClients:
  assumes g: "good {} L A w" and k: "keeps_entries env"
  shows "PrintActiveClients env w = (Ok (), w)"
proof -
  define f :: "string \<times> nat \<Rightarrow> (world, bool) action"
    where "f = (\<lambda>(name, a). bind (deref a identity) (\<lambda>ident. bind (GetQueueSize a) (\<lambda>size. ret True)))"
  have eq: "PrintActiveClients env = registry_locked (bind (ask (\<lambda>w. map_order env (active_clients w))) (for_each f))"
    by (simp only: PrintActiveClients_def f_def)
  let ?w = "w\<lparr>registry_mutex := True\<rparr>"
  have one: "f (n, a) ?w = (Ok True, ?w)" if "(n, a) \<in> set A" for n a
  proof -
    have "a \<in> snd ` set A" using that by force
    then obtain s where s: "heap w a = Some s" "queue_mutex s \<longleftrightarrow> QueueLock a \<in> {}" using good_live [OF g, of a] by blast
    have "GetQueueSize a ?w = (Ok (length (outgoing_queue s)), ?w)" by (rule eval_GetQueueSize) (use s in simp_all)
    then show ?thesis using s by (simp add: f_def bind_def deref_def)
  qed
  have loop: "set xs \<subseteq> set A \<Longrightarrow> for_each f xs ?w = (Ok (), ?w)" for xs
    by (induction xs) (auto simp: one bind_def)
  have "set (map_order env A) = set A" using k by (metis keeps_entries_def set_mset_mset)
  then have "for_each f (map_order env A) ?w = (Ok (), ?w)" by (intro loop) simp
  moreover have "?w\<lparr>registry_mutex := False\<rparr> = w" using good_unlocked(1) [OF g] by (cases w) simp
  ultimately show ?thesis using good_unlocked(1,5) [OF g]
    by (simp add: eq registry_locked_def locked_def bind_def)
qed

section \<open>Registration\<close>

definition fresh_session :: "string \<Rightarrow> string \<Rightarrow> int \<Rightarrow> session" where
  "fresh_session ident name now = (new_session ident now)\<lparr>session_name := name, persist_callback := True\<rparr>"

text \<open>The state after the new session is in the registry under a name nobody held.\<close>

definition entered :: "string \<Rightarrow> string \<Rightarrow> world \<Rightarrow> world" where
  "entered ident name w = w\<lparr>heap := (heap w)(next_addr w \<mapsto> fresh_session ident name (clock w)), next_addr := Suc (next_addr w),
     locals := next_addr w # locals w, active_clients := AList.update name (next_addr w) (active_clients w),
     identity_to_name := AList.update ident name (identity_to_name w),
     metrics_manager := map_option (IncrementClientsRegistered
       \<circ> SetActiveSessions (length (AList.update name (next_addr w) (active_clients w)))) (metrics_manager w)\<rparr>"

lemma triple_Ok: "triple P m Q E \<Longrightarrow> P w \<Longrightarrow> m w = (Ok x, t) \<Longrightarrow> Q x t"
  by (auto simp: triple_def)

lemma eval_enter:
  fixes ident name :: string and w :: world
  assumes g: "good {} L A w" and new: "map_of A name = None"
  defines "a \<equiv> next_addr w"
  defines "v \<equiv> w\<lparr>heap := (heap w)(a \<mapsto> new_session ident (clock w)), next_addr := Suc a, locals := a # locals w\<rparr>"
  shows "seq (prepare_session name a) (UpsertClient env name (Some a)) v = (Ok None, entered ident name w)"
    and "good {} (a # L) (AList.update name a A) (entered ident name w)"
proof -
  note un = good_unlocked [OF g]
  define u where "u = v\<lparr>heap := (heap w)(a \<mapsto> fresh_session ident name (clock w))\<rparr>"
  have prep: "prepare_session name a v = (Ok (), u)"
    by (simp add: prepare_session_def SetName_def UpdateLastActivity_def UpdateLastReceive_def SetPersistCallback_def assign_def
        seq_def bind_def v_def u_def fresh_session_def new_session_def)
  have up: "UpsertClient env name (Some a) u = (Ok None, entered ident name w)"
  proof -
    have "metrics_manager w = None \<or> (\<exists>k. metrics_manager w = Some k)" by auto
    then show ?thesis using un(1,5,6) new
      by (auto simp: UpsertClient_def registry_locked_def locked_def install_session_def registration_metrics_def metric_def
          deref_def seq_def bind_def u_def v_def entered_def a_def fresh_session_def new_session_def)
  qed
  show "seq (prepare_session name a) (UpsertClient env name (Some a)) v = (Ok None, entered ident name w)"
    using prep up by (simp add: seq_def bind_def)
  have h: "heap_ok (snd ` set A) (set L) (heap w) a" and "registry_ok A (identity_to_name w) (heap w)"
    using g by (simp_all add: good_def a_def)
  have fresh: "a \<notin> snd ` set A" "a \<notin> set L" using h unfolding heap_ok_def by auto
  then have "registry_ok A (identity_to_name w) ((heap w)(a \<mapsto> new_session ident (clock w)))"
    using g by (intro registry_ok_other) (simp_all add: good_def)
  then have gv: "good {} (a # L) A v" "\<exists>s. heap v a = Some s \<and> identity s = ident"
    using g heap_ok_alloc [OF h, of "new_session ident (clock w)"]
    by (auto simp: good_def lock_flags_def db_wf_def new_session_def v_def)
  have "a \<in> set (a # L)" by simp
  from triple_Ok [OF good_prepare_session [OF this fresh(1)] _ prep] gv
  have "good {} (a # L) A u \<and> newcomer (a # L) A name ident a u" by blast
  from triple_Ok [OF good_UpsertClient this up]
  have "upserted {} (a # L) A name ident a None (entered ident name w)" .
  then show "good {} (a # L) (AList.update name a A) (entered ident name w)"
    by (auto simp: upserted_def with_old_def good_def lock_flags_def db_wf_def)
qed

text \<open>The frames of the messages \<open>ps\<close> on the connection \<open>ident\<close> of a newcomer.\<close>

definition mail_frames :: "string \<Rightarrow> string \<Rightarrow> nat \<Rightarrow> PendingMessage list \<Rightarrow> PendingSend list" where
  "mail_frames ident name a = map (\<lambda>p. \<lparr>ps_identity = ident, ps_data = wire_format (pm_msg p), ps_callback = Some (a, name)\<rparr>)"

lemma mail_frames_send: "identity s = ident \<Longrightarrow> session_name s = name
    \<Longrightarrow> map (\<lambda>p. send_to a s (wire_format (pm_msg p))) ps = mail_frames ident name a ps"
  by (simp add: mail_frames_def send_to_def)

text \<open>C6. Registration: a client that registers under a name nobody holds gets a session that is online, known by its
  name and by its connection, and everything that was kept for it: first the PENDING messages for that name, then
  the replies to it that were not delivered, each once and oldest first, as frames on the new connection. The messages become
  SENT or DELIVERED as their acknowledgement flag asks, the replies DELIVERED, and no other row changes.\<close>

theorem newcomer_served:
  assumes "settled [] w" "sqlite_orders env" "keeps_entries env" "\<And>n. step_ok env n"
    and "sender m = name" "name \<noteq> []" "map_of (active_clients w) name = None"
    and "list_all (\<lambda>r. fits_frame (message_of_row r)) (messages w)"
  shows "\<exists>(ps :: PendingMessage list) (rs :: PendingMessage list) s t. RegisterHandler env m ident w = (Ok (), t) \<and> settled [] t
    \<and> online_at t name = Some (next_addr w, s) \<and> identity s = ident
    \<and> (\<lambda>p. (pm_id p, pm_msg p)) ` set ps = {(i, m). stored w i = Some (m, STATUS_PENDING) \<and> destination m = c_str name \<and> msg_type m \<noteq> Reply}
    \<and> (\<lambda>p. (pm_id p, pm_msg p)) ` set rs = {(i, m). \<exists>st. stored w i = Some (m, st) \<and> owed_reply w name m st}
    \<and> distinct (map pm_id ps) \<and> sorted (map (created_at w \<circ> pm_id) ps)
    \<and> distinct (map pm_id rs) \<and> sorted (map (created_at w \<circ> pm_id) rs)
    \<and> pending_sends t = pending_sends w @ mail_frames ident name (next_addr w) (ps @ rs)
    \<and> stored t = replies_settled w name (delivered_to name (stored w))"
proof -
  define A where "A = active_clients w"
  define a where "a = next_addr w"
  define A' where "A' = AList.update name a A"
  let ?s = "fresh_session ident name (clock w)" and ?w = "entered ident name w"
  have g: "good {} [] A w" using settled_good [OF assms(1)] by (simp add: A_def)
  have new: "map_of A name = None" using assms(7) by (simp add: A_def)
  note enter = eval_enter [OF g new, where ident = ident, folded a_def, folded A'_def]
  have steps: "\<forall>n. step_ok env n" using assms(4) by blast
  have at: "map_of A' name = Some a" by (simp add: A'_def update_conv)
  have s: "heap ?w a = Some ?s" "is_online ?s" "outgoing_queue ?s = []" "identity ?s = ident" "session_name ?s = name"
    by (simp_all add: entered_def a_def fresh_session_def new_session_def)
  have same: "stored ?w = stored w" "created_at ?w = created_at w" "correlations ?w = correlations w" "pending_sends ?w = pending_sends w"
    by (rule stored_cong, simp add: entered_def) (simp_all add: entered_def created_at_def fun_eq_iff)
  have fits: "list_all (\<lambda>r. fits_frame (message_of_row r)) (messages ?w)" using assms(8) by (simp add: entered_def)
  obtain ps v where v: "DeliverOfflineMessages env name ?w = (Ok (), v)" "good {} [a] A' v" "served_all after_delivery a ?s ps ?w v"
    "(\<lambda>p. (pm_id p, pm_msg p)) ` set ps = {(i, m). stored ?w i = Some (m, STATUS_PENDING) \<and> destination m = c_str name \<and> msg_type m \<noteq> Reply}"
    "distinct (map pm_id ps)" "sorted (map (created_at ?w \<circ> pm_id) ps)"
    "mark_all after_delivery ps (stored ?w) = delivered_to name (stored ?w)"
    by (rule eval_DeliverOfflineMessages [OF enter(2) assms(2) steps at s(1-3) fits])
  have sv: "stored v = delivered_to name (stored w)" "touched a ?w v" "correlations v = correlations w" "created_at v = created_at w"
    "pending_sends v = pending_sends w @ mail_frames ident name a ps"
    using v(3,7) mail_frames_send [OF s(4,5)] by (simp_all add: served_all_def same)
  obtain x y where h: "heap v a = Some (?s\<lparr>last_activity := x, last_receive := y\<rparr>)" by (rule touchedE [OF sv(2) s(1)])
  let ?r = "?s\<lparr>last_activity := x, last_receive := y\<rparr>"
  have r: "is_online ?r" "identity ?r = ident" "session_name ?r = name" using s by simp_all
  have owed: "owed_reply v name = owed_reply w name" using sv(3) by (simp add: owed_reply_def fun_eq_iff)
  have fit: "fits_frame m" if row: "stored v i = Some (m, st)" for i m st
  proof -
    obtain st' where "stored w i = Some (m, st')" using row by (auto simp: sv(1) delivered_to_def)
    then show ?thesis using assms(8) by (auto simp: list.pred_set elim!: stored_SomeD)
  qed
  obtain rs t where t: "DeliverPendingReplies env name v = (Ok (), t)" "good {} [a] A' t" "served_all (\<lambda>_. STATUS_DELIVERED) a ?r rs v t"
    "(\<lambda>p. (pm_id p, pm_msg p)) ` set rs = {(i, m). \<exists>st. stored v i = Some (m, st) \<and> owed_reply v name m st}"
    "distinct (map pm_id rs)" "sorted (map (created_at v \<circ> pm_id) rs)"
    "mark_all (\<lambda>_. STATUS_DELIVERED) rs (stored v) = replies_settled v name (stored v)"
    by (rule eval_DeliverPendingReplies [OF v(2) assms(2) steps at h r(1) fit])
  have kept: "(\<exists>st. stored v i = Some (m, st) \<and> owed_reply w name m st) \<longleftrightarrow> (\<exists>st. stored w i = Some (m, st) \<and> owed_reply w name m st)" for i m
    by (cases "stored w i") (auto simp: sv(1) delivered_to_def owed_reply_def)
  have st: "stored t = replies_settled w name (delivered_to name (stored w))"
    using t(3,7) by (simp add: served_all_def sv(1) replies_settled_def owed)
  have sends: "pending_sends t = pending_sends w @ mail_frames ident name a (ps @ rs)"
    using t(3) mail_frames_send [OF r(2,3)] by (simp add: served_all_def sv(5) mail_frames_def)
  have "touched a v t" using t(3) by (simp add: served_all_def)
  then obtain x' y' where ht: "heap t a = Some (?r\<lparr>last_activity := x', last_receive := y'\<rparr>)" using touchedE [OF _ h] by blast
  let ?q = "?r\<lparr>last_activity := x', last_receive := y'\<rparr>"
  let ?m = "seq (prepare_session name a) (bind (UpsertClient env name (Some a)) (\<lambda>old. scoped_opt env old (deliver_all env name)))"
  let ?v = "w\<lparr>heap := (heap w)(a \<mapsto> new_session ident (clock w)), next_addr := Suc a\<rparr>"
  have "seq (prepare_session name a) (UpsertClient env name (Some a)) (?v\<lparr>locals := a # locals ?v\<rparr>) = (Ok None, ?w)"
    using enter(1) by simp
  moreover have "?m = bind (seq (prepare_session name a) (UpsertClient env name (Some a))) (\<lambda>old. scoped_opt env old (deliver_all env name))"
    by (simp add: seq_def bind_assoc)
  ultimately have "?m (?v\<lparr>locals := a # locals ?v\<rparr>) = deliver_all env name ?w"
    by (simp only: bind_Ok scoped_opt_def option.case)
  also have "\<dots> = (Ok (), t)"
    using v(1) t(1) eval_PrintActiveClients [OF t(2) assms(3)] by (simp add: seq_def bind_def)
  finally have body: "?m (?v\<lparr>locals := a # locals ?v\<rparr>) = (Ok (), t)" .
  have mem: "a \<in> snd ` set A'" by (rule registered [OF at])
  have "scoped env a ?m ?v = (Ok (), t\<lparr>locals := []\<rparr>)"
    by (rule eval_scoped [where m = ?m and w = ?v]) (use body t(2) mem in simp_all)
  then have run: "RegisterHandler env m ident w = (Ok (), t\<lparr>locals := []\<rparr>)"
    using assms(5,6) by (simp add: RegisterHandler_def Let_def prepare_session_def seq_assoc make_session_def bind_Ok a_def)
  have gt: "good {} [] A' (t\<lparr>locals := []\<rparr>)" by (rule good_leave [OF t(2) mem])
  have at': "online_at (t\<lparr>locals := []\<rparr>) name = Some (a, ?q)"
    using good_unlocked(5) [OF t(2)] at ht r by (simp add: online_at_def)
  have out: "stored (t\<lparr>locals := []\<rparr>) = stored t" by (rule stored_cong) simp
  show ?thesis
    by (intro exI [of _ ps] exI [of _ rs] exI [of _ ?q] exI [of _ "t\<lparr>locals := []\<rparr>"] conjI run settledI [OF gt])
      (use at' r v(4-6) t(4-6) st sends in \<open>simp_all add: same sv(4) owed kept out a_def\<close>)
qed

text \<open>\<open>bob\<close> and \<open>al\<close> register with the broker that has kept the sample rows.\<close>

theorem newcomer_served_witness:
  "\<exists>t. RegisterHandler demo_env hello_bob ''X'' (boot sample_db) = (Ok (), t) \<and> pending_sends t \<noteq> []
    \<and> stored t 1 = Some (ask_al, STATUS_SENT) \<and> stored t 3 = Some (answer_bob, STATUS_PENDING)"
proof -
  have fits: "list_all (\<lambda>r. fits_frame (message_of_row r)) (messages (boot sample_db))"
    using sample_fits by (simp add: boot_def)
  have hello: "sender hello_bob = ''bob''" "(''bob'' :: string) \<noteq> []" "map_of (active_clients (boot sample_db)) ''bob'' = None"
    by (simp_all add: hello_bob_def boot_def)
  note same = boot_sample(3)
  have cs: "c_str ''bob'' = ''bob''" "destination answer_bob = ''al''" by (simp_all add: c_str_def answer_bob_def)
  have owed: "\<not> owed_reply (boot sample_db) ''bob'' m st" for m st
    by (simp add: owed_reply_def boot_def sample_db_def cs)
  obtain ps rs :: "PendingMessage list" and t where t: "RegisterHandler demo_env hello_bob ''X'' (boot sample_db) = (Ok (), t)"
    "(\<lambda>p. (pm_id p, pm_msg p)) ` set ps = {(i, m). stored (boot sample_db) i = Some (m, STATUS_PENDING) \<and> destination m = c_str ''bob'' \<and> msg_type m \<noteq> Reply}"
    "pending_sends t = pending_sends (boot sample_db) @ mail_frames ''X'' ''bob'' (next_addr (boot sample_db)) (ps @ rs)"
    "stored t = replies_settled (boot sample_db) ''bob'' (delivered_to ''bob'' (stored (boot sample_db)))"
    using newcomer_served [OF settled_boot [OF sample_ready(1)] demo_orders hello fits, of "''X''"] by blast
  have "(1, ask_al) \<in> {(i, m). stored (boot sample_db) i = Some (m, STATUS_PENDING) \<and> destination m = c_str ''bob'' \<and> msg_type m \<noteq> Reply}"
    by (simp add: same sample_stored cs)
  then have "ps \<noteq> []" unfolding t(2) [symmetric] by auto
  moreover have "stored t 1 = Some (ask_al, STATUS_SENT)" "stored t 3 = Some (answer_bob, STATUS_PENDING)"
    by (simp_all add: t(4) replies_settled_def delivered_to_def same sample_stored cs owed after_delivery_def)
  ultimately show ?thesis using t(1,3) by (simp add: mail_frames_def)
qed

end
