(* ===== verification/Send_Threads.thy ===== *)
theory Send_Threads
  imports Broker_Queue
begin

text \<open>
  The send queue under concurrency: src/server.cpp once more, for the worker threads and the threads that
  stop the server, interleaved at the granularity of what is atomic in the code: a critical section of
  \<open>pending_sends_mutex_\<close>, one access to an atomic flag, one call on the socket (with the callback and the
  counter that follow it). The rest of a handler appears as the calls of \<open>SendToClient\<close> it makes. Threads that run the same
  steps alone do what theory Server says; together they keep the queue live and send nothing twice, but can mix
  the frames of two messages. What ZeroMQ does with a socket that two threads use at once is not modelled; frames
  are taken to go out in the order of the calls.
\<close>

section \<open>Threads\<close>

text \<open>Where a thread is; the flag of a place inside \<open>ProcessPendingSends\<close> or \<open>SendToClient\<close> says whether it was
  called from \<open>OnZmqEvent\<close>. \<open>Sending\<close> carries the frames left of the first send and the sends left.\<close>

datatype place = Idle | Receiving | Entering | Pushed bool | Dequeued | Unflagged | Taking bool
  | Sending bool "(bytes \<times> bool) list" "PendingSend list" | Finishing bool | Measuring bool | Stopping

definition resting :: "bool \<Rightarrow> place" where
  "resting b = (if b then Receiving else Idle)"

definition next_send :: "bool \<Rightarrow> PendingSend list \<Rightarrow> place" where
  "next_send b sends = (case sends of [] \<Rightarrow> Finishing b | p # _ \<Rightarrow> Sending b (frames_of p) sends)"

definition push_send :: "PendingSend \<Rightarrow> (world, unit) action" where
  "push_send p = pending_locked (update (\<lambda>w. w\<lparr>pending_sends := pending_sends w @ [p]\<rparr>))"

definition send_next_frame :: "env \<Rightarrow> bool \<Rightarrow> bytes \<Rightarrow> bool \<Rightarrow> (bytes \<times> bool) list \<Rightarrow> PendingSend \<Rightarrow> PendingSend list \<Rightarrow> (world, place) action" where
  "send_next_frame env b frame sndmore frames p sends = try_catch
     (bind (send_part env frame sndmore) (\<lambda>result.
        if \<not> result then seq (run_callback (ps_callback p) False)
          (seq (if sndmore then ret () else metric IncrementMessagesFailed) (ret (next_send b sends)))
        else if sndmore then ret (Sending b frames (p # sends))
        else seq (run_callback (ps_callback p) True) (seq (metric IncrementMessagesSent) (ret (next_send b sends)))))
     (\<lambda>_. seq (run_callback (ps_callback p) False) (seq (metric IncrementMessagesFailed) (ret (next_send b sends))))"

definition finish_sends :: "(world, unit) action" where
  "finish_sends = pending_locked (seq (update (\<lambda>w. w\<lparr>sending_in_progress := False\<rparr>))
     (bind (ask pending_sends) (\<lambda>queue. if queue \<noteq> [] then ScheduleSendProcessing else ret ())))"

definition drop_pending :: "(world, unit) action" where
  "drop_pending = pending_locked (bind (ask pending_sends)
     (for_each (\<lambda>send. seq (run_callback (ps_callback send) False)
        (seq (update (\<lambda>w. w\<lparr>pending_sends := tl (pending_sends w)\<rparr>)) (ret True)))))"

text \<open>The next atomic step of a thread.\<close>

fun advance :: "env \<Rightarrow> place \<Rightarrow> (world, place) action" where
  "advance env Idle = ret Idle"
| "advance env Receiving = ret Receiving"
| "advance env Entering = seq UpdateQueueMetrics (ret (Taking True))"
| "advance env (Pushed b) = seq ScheduleSendProcessing (ret (resting b))"
| "advance env Dequeued = bind (ask running) (\<lambda>go. ret (if go then Unflagged else Idle))"
| "advance env Unflagged = bind (ask sending_in_progress) (\<lambda>busy. ret (if busy then Idle else Taking False))"
| "advance env (Taking b) = bind take_pending (\<lambda>sends. ret (if sends = [] then resting b else next_send b sends))"
| "advance env (Sending b ((frame, sndmore) # frames) (p # sends)) = send_next_frame env b frame sndmore frames p sends"
| "advance env (Sending b frames sends) = ret (next_send b (tl sends))"
| "advance env (Finishing b) = seq finish_sends (ret (Measuring b))"
| "advance env (Measuring b) = seq UpdateQueueMetrics (ret (resting b))"
| "advance env Stopping = seq drop_pending (ret Idle)"

section \<open>A thread that runs alone\<close>

text \<open>The steps are those of the operations of theory Server: a thread nobody interrupts does what they do.\<close>

fun alone :: "env \<Rightarrow> nat \<Rightarrow> place \<Rightarrow> (world, place) action" where
  "alone env 0 c = ret c"
| "alone env (Suc n) c = bind (advance env c) (alone env n)"

lemma alone_resting [simp]: "alone env n (resting b) w = (Ok (resting b), w)"
  by (cases b; induction n) (simp_all add: resting_def)

lemma SendToClient_steps: "SendToClient ident data callback
    = seq (push_send \<lparr>ps_identity = ident, ps_data = data, ps_callback = callback\<rparr>) ScheduleSendProcessing"
  by (simp add: SendToClient_def push_send_def)

lemma Stop_steps: "Stop = bind (ask running) (\<lambda>was_running. if \<not> was_running then ret ()
     else seq (update (\<lambda>w. w\<lparr>running := False\<rparr>)) drop_pending)"
  by (simp only: Stop_def drop_pending_def)

text \<open>What remains of \<open>ProcessPendingSends\<close> from a place on.\<close>

definition rest_of :: "env \<Rightarrow> bool \<Rightarrow> PendingSend list \<Rightarrow> (world, place) action" where
  "rest_of env b sends = seq (process_sends env sends) (seq finish_sends (seq UpdateQueueMetrics (ret (resting b))))"

lemma rest_of_Cons: "rest_of env b (p # sends) = bind (process_send env p) (\<lambda>result.
     seq (case result of None \<Rightarrow> ret () | Some success \<Rightarrow> metric (if success then IncrementMessagesSent else IncrementMessagesFailed))
       (rest_of env b sends))"
  by (simp add: rest_of_def seq_def bind_assoc)

lemma metric_total: "metric f w = (Ok (), w\<lparr>metrics_manager := map_option f (metrics_manager w)\<rparr>)"
  by (simp add: metric_def)

lemma callback_eval:
  obtains t where "run_callback c b w = (Ok (), t)" | t where "run_callback c b w = (Fault UseAfterFree, t)"
proof -
  have "fst (run_callback c b w) \<in> {Ok (), Fault UseAfterFree}"
    by (simp add: run_callback_def MarkOffline_def assign_def split: option.split prod.split)
  then show ?thesis using that by (cases "run_callback c b w") auto
qed

lemma part_eval:
  obtains v where "send_part env f m w = (Ok True, v)" | v where "send_part env f m w = (Ok False, v)"
    | v where "send_part env f m w = (Throw ZmqError, v)"
proof (cases "send_frame env (frames_tried w)")
  case FrameSent
  show ?thesis by (rule that(1) [OF send_part_apply(1) [OF FrameSent]])
next
  case WouldBlock
  show ?thesis by (rule that(2) [OF send_part_apply(2) [OF WouldBlock]])
next
  case FrameError
  show ?thesis by (rule that(3) [OF send_part_apply(3) [OF FrameError]])
qed

lemma alone_sends: "3 * length sends + 2 \<le> n \<Longrightarrow> alone env n (next_send b sends) w = rest_of env b sends w"
proof (induction sends arbitrary: n w)
  case Nil
  then have "2 \<le> n" by simp
  then obtain k where n: "n = Suc (Suc k)" by (metis add_2_eq_Suc le_Suc_ex)
  obtain r t where rt: "finish_sends w = (r, t)" by (cases "finish_sends w")
  obtain q v where qv: "UpdateQueueMetrics t = (q, v)" by (cases "UpdateQueueMetrics t")
  show ?case by (cases r; cases q) (simp_all add: n rt qv next_send_def rest_of_def seq_def bind_def)
next
  case (Cons p sends)
  let ?k = "n - 3"
  have n: "n = Suc (Suc (Suc ?k))" and k: "3 * length sends + 2 \<le> ?k" using Cons.prems by simp_all
  let ?id = "map byte_of_char (ps_identity p)"
  have ih: "?k \<le> m \<Longrightarrow> alone env m (next_send b sends) v = rest_of env b sends v" for m v
    using Cons.IH [of m v] k by simp
  have steps: "alone env n (next_send b (p # sends)) = bind (send_next_frame env b ?id True [([], True), (ps_data p, False)] p sends)
      (alone env (Suc (Suc ?k)))"
    "alone env (Suc (Suc ?k)) (Sending b [([], True), (ps_data p, False)] (p # sends))
       = bind (send_next_frame env b [] True [(ps_data p, False)] p sends) (alone env (Suc ?k))"
    "alone env (Suc ?k) (Sending b [(ps_data p, False)] (p # sends))
       = bind (send_next_frame env b (ps_data p) False [] p sends) (alone env ?k)"
    by (subst n) (simp_all only: next_send_def list.case frames_of_def alone.simps advance.simps)
  have more: "alone env (Suc (Suc ?k)) (next_send b sends) v = rest_of env b sends v"
    "alone env (Suc ?k) (next_send b sends) v = rest_of env b sends v"
    "alone env ?k (next_send b sends) v = rest_of env b sends v" for v
    by (rule ih, simp)+
  note rules = steps more send_next_frame_def process_send_def rest_of_Cons metric_total try_catch_def bind_def
    seq_def callback_ok
  show ?case
  proof (cases rule: part_eval [of env ?id True w])
    case one: (1 v)
    show ?thesis
    proof (cases rule: part_eval [of env "[]" True v])
      case two: (1 u)
      show ?thesis
      proof (cases rule: part_eval [of env "ps_data p" False u])
        case (1 t)
        then show ?thesis using one two by (simp add: rules del: alone.simps)
      next
        case (2 t)
        then show ?thesis using one two
          by (cases rule: callback_eval [of "ps_callback p" False t]) (simp_all add: rules del: alone.simps)
      next
        case (3 t)
        then show ?thesis using one two
          by (cases rule: callback_eval [of "ps_callback p" False t]) (simp_all add: rules del: alone.simps)
      qed
    next
      case (2 u)
      then show ?thesis using one
        by (cases rule: callback_eval [of "ps_callback p" False u]) (simp_all add: rules del: alone.simps)
    next
      case (3 u)
      then show ?thesis using one
        by (cases rule: callback_eval [of "ps_callback p" False u]) (simp_all add: rules del: alone.simps)
    qed
  next
    case (2 v)
    then show ?thesis
      by (cases rule: callback_eval [of "ps_callback p" False v]) (simp_all add: rules del: alone.simps)
  next
    case (3 v)
    then show ?thesis
      by (cases rule: callback_eval [of "ps_callback p" False v]) (simp_all add: rules del: alone.simps)
  qed
qed

lemma alone_process:
  assumes "3 * length (pending_sends w) + 3 \<le> n"
  shows "alone env n (Taking b) w = bind (ProcessPendingSends env) (\<lambda>_. ret (resting b)) w"
proof (cases "pending_sends_mutex w")
  case True
  then have "take_pending w = (Fault SelfDeadlock, w)" by (simp add: take_pending_def pending_locked_def locked_def)
  moreover obtain m where "n = Suc m" using assms by (cases n) simp_all
  ultimately show ?thesis by (simp add: ProcessPendingSends_def bind_def)
next
  case False
  let ?v = "w\<lparr>pending_sends := [], sending_in_progress := pending_sends w \<noteq> [], pending_sends_mutex := False\<rparr>"
  have take: "take_pending w = (Ok (pending_sends w), ?v)"
    using False by (simp add: take_pending_def pending_locked_def locked_def bind_def seq_def)
  obtain m where n: "n = Suc m" and m: "3 * length (pending_sends w) + 2 \<le> m" using assms by (cases n) simp_all
  have step: "alone env n (Taking b) w
      = alone env m (if pending_sends w = [] then resting b else next_send b (pending_sends w)) ?v"
    by (simp add: n bind_Ok [where m = take_pending, OF take] bind_assoc)
  show ?thesis
  proof (cases "pending_sends w = []")
    case True
    then have "ProcessPendingSends env w = (Ok (), ?v)"
      unfolding ProcessPendingSends_def bind_Ok [where m = take_pending, OF take] by simp
    then show ?thesis using step True by (simp add: bind_def)
  next
    case False
    then have "ProcessPendingSends env w = seq (process_sends env (pending_sends w)) (seq finish_sends UpdateQueueMetrics) ?v"
      unfolding ProcessPendingSends_def bind_Ok [where m = take_pending, OF take] by (simp add: finish_sends_def)
    then have "bind (ProcessPendingSends env) (\<lambda>_. ret (resting b)) w = rest_of env b (pending_sends w) ?v"
      by (simp add: rest_of_def seq_def bind_def split: prod.splits outcome.splits)
    then show ?thesis using step False alone_sends [OF m, of env b ?v] by simp
  qed
qed

section \<open>Threads together\<close>

record cluster =
  shared :: world
  threads :: "place list"
  zmq_waits :: bool

text \<open>Who moves, and where it is not determined, with what: a handler calls \<open>SendToClient\<close>, a worker takes a posted
  task or the socket's wait that completed, a thread goes on, \<open>OnZmqEvent\<close> returns and waits again, a
  thread calls \<open>Stop\<close>.\<close>

datatype move = Call nat PendingSend | Dequeue nat | SocketReady nat | Advance nat | Rearm nat | RequestStop nat

definition goes :: "nat \<Rightarrow> cluster \<Rightarrow> (world, place) action \<Rightarrow> cluster option" where
  "goes i C m = (case m (shared C) of
     (Ok c, w) \<Rightarrow> Some (C\<lparr>shared := w, threads := (threads C)[i := c]\<rparr>)
   | (Throw e, w) \<Rightarrow> None | (Fault x, w) \<Rightarrow> None)"

text \<open>The entries of the posted task, of \<open>OnZmqEvent\<close> when the wait completed without an error (its error paths are in
  theory Broker), and of \<open>Stop\<close>.\<close>

definition enter_task :: "(world, place) action" where
  [simp]: "enter_task = seq (update (\<lambda>w. w\<lparr>posted_sends := posted_sends w - 1\<rparr>)) (ret Dequeued)"

definition enter_event :: "(world, place) action" where
  [simp]: "enter_event = bind (ask running) (\<lambda>go. ret (if go then Entering else Idle))"

definition enter_stop :: "(world, place) action" where
  [simp]: "enter_stop = bind (ask running) (\<lambda>was_running. if \<not> was_running then ret Idle
     else seq (update (\<lambda>w. w\<lparr>running := False\<rparr>)) (ret Stopping))"

fun moves :: "env \<Rightarrow> move \<Rightarrow> cluster \<Rightarrow> cluster option" where
  "moves env (Call i p) C = (if i < length (threads C) \<and> (threads C ! i = Idle \<or> threads C ! i = Receiving)
     then goes i C (seq (push_send p) (ret (Pushed (threads C ! i = Receiving)))) else None)"
| "moves env (Dequeue i) C = (if i < length (threads C) \<and> threads C ! i = Idle \<and> posted_sends (shared C) > 0
     then goes i C enter_task else None)"
| "moves env (SocketReady i) C = (if i < length (threads C) \<and> threads C ! i = Idle \<and> zmq_waits C
     then goes i (C\<lparr>zmq_waits := False\<rparr>) enter_event else None)"
| "moves env (Advance i) C = (if i < length (threads C) then goes i C (advance env (threads C ! i)) else None)"
| "moves env (Rearm i) C = (if i < length (threads C) \<and> threads C ! i = Receiving
     then Some (C\<lparr>threads := (threads C)[i := Idle], zmq_waits := running (shared C)\<rparr>) else None)"
| "moves env (RequestStop i) C = (if i < length (threads C) \<and> threads C ! i = Idle
     then goes i C enter_stop else None)"

inductive interleaves :: "env \<Rightarrow> cluster \<Rightarrow> move list \<Rightarrow> cluster \<Rightarrow> bool" where
  no_move: "interleaves env C [] C"
| a_move: "moves env m C = Some C' \<Longrightarrow> interleaves env C' ms C'' \<Longrightarrow> interleaves env C (m # ms) C''"

inductive_simps interleaves_simps: "interleaves env C [] C'" "interleaves env C (m # ms) C'"

text \<open>After the constructor: \<open>n\<close> threads that do nothing yet.\<close>

definition cluster_of :: "nat \<Rightarrow> database \<Rightarrow> cluster" where
  "cluster_of n db = \<lparr>shared = boot db, threads = replicate n Idle, zmq_waits = True\<rparr>"

lemma goes_Some:
  assumes "goes i C m = Some C'"
  obtains c w where "m (shared C) = (Ok c, w)" "C' = C\<lparr>shared := w, threads := (threads C)[i := c]\<rparr>"
  using assms by (auto simp: goes_def split: prod.splits outcome.splits)

section \<open>What the steps do to the queue\<close>

lemma same_queue_frame: "always same_queue (send_next_frame env b f m fs p ps)"
proof -
  have part: "always same_queue (send_part env f m)"
    by (simp add: always_def send_part_def Let_def same_queue_def split: frame_result.split)
  show ?thesis unfolding send_next_frame_def
    by (intro same_queue.combinators part same_queue_callback same_queue_metric)
qed

lemma frame_place:
  assumes "send_next_frame env b f m fs p ps w = (Ok c, t)"
  obtains "m" "c = Sending b fs (p # ps)" "wire t = wire w @ [(f, m)]" "pending_sends t = pending_sends w"
    | "\<not> m" "c = next_send b ps" "wire t = wire w @ [(f, m)]" "pending_sends t = pending_sends w"
    | "c = next_send b ps" "wire t = wire w" "pending_sends t = pending_sends w" "\<exists>n. send_frame env n \<noteq> FrameSent"
proof -
  have q: "pending_sends t = pending_sends w"
    using alwaysD [OF same_queue_frame assms] by (simp add: same_queue_def)
  have cb: "wire u = wire v" if "run_callback x b v = (r, u)" for x b v r u
    using that by (auto simp: run_callback_def MarkOffline_def assign_def split: option.splits prod.splits if_splits)
  show ?thesis
  proof (cases "send_frame env (frames_tried w)")
    case FrameSent
    then show ?thesis using that(1,2) q assms
      by (cases m) (auto simp: send_next_frame_def try_catch_def bind_def seq_def send_part_apply callback_ok metric_total)
  next
    case WouldBlock
    then have "c = next_send b ps \<and> wire t = wire w" using assms
      by (cases m) (auto simp: send_next_frame_def try_catch_def bind_def seq_def send_part_apply metric_total
          dest!: cb split: prod.splits outcome.splits)
    then show ?thesis using that(3) q WouldBlock by force
  next
    case FrameError
    then have "c = next_send b ps \<and> wire t = wire w" using assms
      by (auto simp: send_next_frame_def try_catch_def bind_def seq_def send_part_apply metric_total
          dest!: cb split: prod.splits outcome.splits)
    then show ?thesis using that(3) q FrameError by force
  qed
qed

lemma take_place:
  assumes "advance env (Taking b) w = (Ok c, t)"
  shows "c = (if pending_sends w = [] then resting b else next_send b (pending_sends w)) \<and> pending_sends t = []
    \<and> sending_in_progress t = (pending_sends w \<noteq> []) \<and> wire t = wire w \<and> running t = running w \<and> posted_sends t = posted_sends w"
  using assms by (auto simp: take_pending_def pending_locked_def locked_def seq_def bind_def split: if_splits)

lemma finish_place:
  assumes "advance env (Finishing b) w = (Ok c, t)"
  shows "c = Measuring b \<and> pending_sends t = pending_sends w \<and> \<not> sending_in_progress t \<and> wire t = wire w
    \<and> running t = running w \<and> posted_sends t = posted_sends w + (if pending_sends w = [] then 0 else 1)"
  using assms by (auto simp: finish_sends_def pending_locked_def locked_def seq_def bind_def ScheduleSendProcessing_def split: if_splits)

lemma drop_place:
  assumes "advance env Stopping w = (Ok c, t)"
  shows "c = Idle \<and> pending_sends t = [] \<and> sending_in_progress t = sending_in_progress w \<and> wire t = wire w
    \<and> running t = running w \<and> posted_sends t = posted_sends w"
proof -
  let ?f = "\<lambda>send. seq (run_callback (ps_callback send) False)
     (seq (update (\<lambda>w. w\<lparr>pending_sends := tl (pending_sends w)\<rparr>)) (ret True))"
  have cb: "pending_sends u = pending_sends v \<and> sending_in_progress u = sending_in_progress v \<and> wire u = wire v
      \<and> running u = running v \<and> posted_sends u = posted_sends v" if "run_callback x b v = (r, u)" for x b v r u
    using that by (auto simp: run_callback_def MarkOffline_def assign_def split: option.splits prod.splits if_splits)
  have pops: "for_each ?f ps v = (Ok (), u) \<Longrightarrow> pending_sends u = drop (length ps) (pending_sends v)
      \<and> sending_in_progress u = sending_in_progress v \<and> wire u = wire v \<and> running u = running v \<and> posted_sends u = posted_sends v" for ps u v
  proof (induction ps arbitrary: v)
    case (Cons p ps)
    obtain r x where rx: "run_callback (ps_callback p) False v = (r, x)" by (cases "run_callback (ps_callback p) False v")
    from Cons rx cb [OF rx] show ?case by (cases r) (auto simp: seq_def bind_def drop_Suc)
  qed simp
  have "\<not> pending_sends_mutex w" using assms by (auto simp: drop_pending_def pending_locked_def locked_def seq_def bind_def split: if_splits)
  then obtain u where "for_each ?f (pending_sends w) (w\<lparr>pending_sends_mutex := True\<rparr>) = (Ok (), u)"
    "t = u\<lparr>pending_sends_mutex := False\<rparr>" "c = Idle"
    using assms by (auto simp: drop_pending_def pending_locked_def locked_def seq_def bind_def split: prod.splits outcome.splits)
  then show ?thesis using pops by force
qed

lemma measure_place:
  assumes "seq UpdateQueueMetrics (ret c') w = (Ok c, t)"
  shows "c = c' \<and> same_queue w t \<and> wire t = wire w"
  using assms by (auto simp: UpdateQueueMetrics_def pending_locked_def locked_def seq_def bind_def metric_def same_queue_def split: if_splits)

section \<open>No send is stranded between threads\<close>

fun busy :: "place \<Rightarrow> bool" where
  "busy (Sending b frames sends) = True"
| "busy (Finishing b) = True"
| "busy _ = False"

text \<open>A thread that will look at the queue, or cause someone to.\<close>

fun active :: "place \<Rightarrow> bool" where
  "active (Pushed b) = True"
| "active Dequeued = True"
| "active Unflagged = True"
| "active (Taking b) = True"
| "active c = busy c"

lemma places [simp]:
  "\<not> busy (resting b)" "\<not> active (resting b)" "busy (next_send b ps)" "active (next_send b ps)"
  by (simp_all add: resting_def next_send_def split: list.split)

lemma busy_active: "busy c \<Longrightarrow> active c"
  by (cases c) simp_all

definition covered :: "cluster \<Rightarrow> bool" where
  "covered C = ((sending_in_progress (shared C) \<longrightarrow> (\<exists>j < length (threads C). busy (threads C ! j)))
     \<and> (running (shared C) \<and> pending_sends (shared C) \<noteq> []
        \<longrightarrow> posted_sends (shared C) > 0 \<or> (\<exists>j < length (threads C). active (threads C ! j))))"

lemma covered_step:
  assumes "covered C" "i < length (threads C)" "shared C' = w" "threads C' = (threads C)[i := c]"
    and flag: "sending_in_progress w \<Longrightarrow> busy c \<or> (sending_in_progress (shared C) \<and> \<not> busy (threads C ! i))"
    and queue: "running w \<Longrightarrow> pending_sends w \<noteq> [] \<Longrightarrow> posted_sends w > 0 \<or> active c
      \<or> (running (shared C) \<and> pending_sends (shared C) \<noteq> [] \<and> posted_sends (shared C) \<le> posted_sends w \<and> \<not> active (threads C ! i))
      \<or> (sending_in_progress (shared C) \<and> \<not> busy (threads C ! i))"
  shows "covered C'"
proof -
  have other: "\<exists>j < length (threads C'). P (threads C' ! j)"
    if "\<exists>j < length (threads C). P (threads C ! j)" "P (threads C ! i) \<Longrightarrow> P c" for P
    using that assms(2) by (metis assms(4) length_list_update nth_list_update)
  have self: "P c \<Longrightarrow> \<exists>j < length (threads C'). P (threads C' ! j)" for P
    using assms(2) by (auto simp: assms(4) intro!: exI [of _ i])
  have still: "\<exists>j < length (threads C'). busy (threads C' ! j)" if "sending_in_progress (shared C)" "\<not> busy (threads C ! i)"
    using that assms(1) by (intro other) (simp_all add: covered_def)
  have "sending_in_progress w \<Longrightarrow> \<exists>j < length (threads C'). busy (threads C' ! j)"
    using flag self [of busy] still by blast
  moreover have "posted_sends w > 0 \<or> (\<exists>j < length (threads C'). active (threads C' ! j))"
    if "running w" "pending_sends w \<noteq> []"
    using queue [OF that]
  proof (elim disjE)
    assume o: "running (shared C) \<and> pending_sends (shared C) \<noteq> [] \<and> posted_sends (shared C) \<le> posted_sends w \<and> \<not> active (threads C ! i)"
    then have "posted_sends (shared C) > 0 \<or> (\<exists>j < length (threads C). active (threads C ! j))"
      using assms(1) by (simp add: covered_def)
    then show ?thesis using other [of active] o by auto
  qed (use self [of active] still busy_active in auto)
  ultimately show ?thesis by (simp add: covered_def assms(3))
qed

lemma covered_advance:
  assumes "covered C" "i < length (threads C)" "advance env (threads C ! i) (shared C) = (Ok c, w)"
  shows "covered (C\<lparr>shared := w, threads := (threads C)[i := c]\<rparr>)"
proof (rule covered_step [OF assms(1,2)])
  let ?c = "threads C ! i"
  note st = assms(3)
  have "(sending_in_progress w \<longrightarrow> busy c \<or> (sending_in_progress (shared C) \<and> \<not> busy ?c))
    \<and> (running w \<and> pending_sends w \<noteq> [] \<longrightarrow> posted_sends w > 0 \<or> active c
      \<or> (running (shared C) \<and> pending_sends (shared C) \<noteq> [] \<and> posted_sends (shared C) \<le> posted_sends w \<and> \<not> active ?c)
      \<or> (sending_in_progress (shared C) \<and> \<not> busy ?c))"
  proof (cases ?c)
    case Entering
    then show ?thesis using st measure_place [of "Taking True" "shared C" c w] by (auto simp: same_queue_def)
  next
    case (Measuring b)
    then show ?thesis using st measure_place [of "resting b" "shared C" c w] by (auto simp: same_queue_def)
  next
    case (Pushed b)
    then show ?thesis using st by (auto simp: ScheduleSendProcessing_def)
  next
    case (Taking b)
    with st have "advance env (Taking b) (shared C) = (Ok c, w)" by simp
    from take_place [OF this] show ?thesis by auto
  next
    case (Sending b fs ps)
    show ?thesis
    proof (cases "fs = [] \<or> ps = []")
      case True
      then have "advance env (Sending b fs ps) = ret (next_send b (tl ps))" by (cases fs; cases ps) auto
      then show ?thesis using st Sending by auto
    next
      case False
      then obtain f m fs' p ps' where "fs = (f, m) # fs'" "ps = p # ps'" by (cases fs; cases ps) auto
      then have "send_next_frame env b f m fs' p ps' (shared C) = (Ok c, w)" using st Sending by simp
      from frame_place [OF this] have "busy c" by cases auto
      then show ?thesis using busy_active by blast
    qed
  next
    case (Finishing b)
    with st have "advance env (Finishing b) (shared C) = (Ok c, w)" by simp
    from finish_place [OF this] show ?thesis by auto
  next
    case Stopping
    with st have "advance env Stopping (shared C) = (Ok c, w)" by simp
    from drop_place [OF this] Stopping show ?thesis by auto
  qed (use st in \<open>auto simp: bind_def\<close>)
  then show "sending_in_progress w \<Longrightarrow> busy c \<or> (sending_in_progress (shared C) \<and> \<not> busy ?c)"
    "running w \<Longrightarrow> pending_sends w \<noteq> [] \<Longrightarrow> posted_sends w > 0 \<or> active c
      \<or> (running (shared C) \<and> pending_sends (shared C) \<noteq> [] \<and> posted_sends (shared C) \<le> posted_sends w \<and> \<not> active ?c)
      \<or> (sending_in_progress (shared C) \<and> \<not> busy ?c)" by auto
qed simp_all

lemma push_place:
  assumes "seq (push_send p) (ret c') w = (Ok c, t)"
  shows "c = c' \<and> pending_sends t = pending_sends w @ [p] \<and> wire t = wire w \<and> running t = running w
    \<and> posted_sends t = posted_sends w \<and> sending_in_progress t = sending_in_progress w"
  using assms by (auto simp: push_send_def pending_locked_def locked_def seq_def bind_def split: if_splits)

lemma covered_moves:
  assumes "moves env m C = Some C'" "covered C"
  shows "covered C'"
proof (cases m)
  case (Call i p)
  with assms(1) have i: "i < length (threads C)" "threads C ! i = Idle \<or> threads C ! i = Receiving"
    and "goes i C (seq (push_send p) (ret (Pushed (threads C ! i = Receiving)))) = Some C'" by (simp_all split: if_splits)
  from goes_Some [OF this(3)] obtain c w where
    cw: "seq (push_send p) (ret (Pushed (threads C ! i = Receiving))) (shared C) = (Ok c, w)"
    "C' = C\<lparr>shared := w, threads := (threads C)[i := c]\<rparr>" .
  show ?thesis using push_place [OF cw(1)] i cw(2) by (intro covered_step [OF assms(2) i(1)]) auto
next
  case (Dequeue i)
  then show ?thesis using assms by (auto simp: goes_def seq_def intro!: covered_step [OF assms(2), of i] split: if_splits)
next
  case (SocketReady i)
  then have i: "i < length (threads C)" "threads C ! i = Idle" "C' = C\<lparr>zmq_waits := False, threads := (threads C)[i :=
      (if running (shared C) then Entering else Idle)]\<rparr>"
    using assms(1) by (auto simp: goes_def split: if_splits)
  show ?thesis using i by (intro covered_step [OF assms(2) i(1)]) auto
next
  case (Advance i)
  with assms(1) have i: "i < length (threads C)" and "goes i C (advance env (threads C ! i)) = Some C'" by (simp_all split: if_splits)
  from goes_Some [OF this(2)] obtain c w where "advance env (threads C ! i) (shared C) = (Ok c, w)"
    "C' = C\<lparr>shared := w, threads := (threads C)[i := c]\<rparr>" .
  then show ?thesis using covered_advance [OF assms(2) i] by simp
next
  case (Rearm i)
  then have i: "i < length (threads C)" "threads C ! i = Receiving"
    "C' = C\<lparr>threads := (threads C)[i := Idle], zmq_waits := running (shared C)\<rparr>"
    using assms(1) by (auto split: if_splits)
  show ?thesis using i by (intro covered_step [OF assms(2) i(1)]) auto
next
  case (RequestStop i)
  then have i: "i < length (threads C)" "threads C ! i = Idle" and
    g: "goes i C (bind (ask running) (\<lambda>was_running. if \<not> was_running then ret Idle
       else seq (update (\<lambda>w. w\<lparr>running := False\<rparr>)) (ret Stopping))) = Some C'" using assms(1) by (simp_all split: if_splits)
  from g obtain c where C': "C' = C\<lparr>shared := (shared C)\<lparr>running := False\<rparr>, threads := (threads C)[i := c]\<rparr> \<or> C' = C"
    using i by (auto simp: goes_def list_update_same_conv split: if_splits)
  then show ?thesis
  proof
    assume "C' = C\<lparr>shared := (shared C)\<lparr>running := False\<rparr>, threads := (threads C)[i := c]\<rparr>"
    then show ?thesis using i by (intro covered_step [OF assms(2) i(1)]) auto
  qed (use assms(2) in simp)
qed

lemma covered_interleaves: "interleaves env C ms C' \<Longrightarrow> covered C \<Longrightarrow> covered C'"
  by (induction rule: interleaves.induct) (auto dest: covered_moves)

section \<open>No send is lost or sent twice\<close>

fun local_sends :: "place \<Rightarrow> PendingSend list" where
  "local_sends (Sending b frames sends) = sends"
| "local_sends _ = []"

fun proper :: "place \<Rightarrow> bool" where
  "proper (Sending b frames sends) = (case sends of [] \<Rightarrow> False
     | p # _ \<Rightarrow> frames = frames_of p \<or> frames = drop 1 (frames_of p) \<or> frames = drop 2 (frames_of p))"
| "proper _ = True"

text \<open>The data parts that went out, and these with what still waits, in the queue or in the hands of a thread.\<close>

definition sent_parts :: "world \<Rightarrow> bytes multiset" where
  "sent_parts w = mset (map fst (filter (\<lambda>(part, sndmore). \<not> sndmore) (wire w)))"

definition held :: "cluster \<Rightarrow> bytes multiset" where
  "held C = sent_parts (shared C) + image_mset ps_data (mset (pending_sends (shared C)))
     + image_mset ps_data (mset (concat (map local_sends (threads C))))"

fun called :: "move \<Rightarrow> bytes multiset" where
  "called (Call i p) = {#ps_data p#}"
| "called _ = {#}"

fun is_stop :: "move \<Rightarrow> bool" where
  "is_stop (RequestStop i) = True"
| "is_stop _ = False"

lemma mset_concat_update:
  "i < length xs \<Longrightarrow> mset (concat (map f (xs[i := x]))) + mset (f (xs ! i)) = mset (concat (map f xs)) + mset (f x)"
proof (induction xs arbitrary: i)
  case (Cons y xs)
  show ?case
  proof (cases i)
    case (Suc j)
    then show ?thesis using Cons.IH [of j] Cons.prems by (simp add: union_assoc)
  qed simp
qed simp

lemma held_step:
  assumes "i < length (threads C)" "shared C' = w" "threads C' = (threads C)[i := c]"
    and "sent_parts w + image_mset ps_data (mset (pending_sends w)) + image_mset ps_data (mset (local_sends c)) + lost
      = sent_parts (shared C) + image_mset ps_data (mset (pending_sends (shared C)))
        + image_mset ps_data (mset (local_sends (threads C ! i))) + new"
  shows "held C' + lost = held C + new"
proof -
  let ?D = "\<lambda>ts. image_mset ps_data (mset (concat (map local_sends ts)))"
  let ?d = "\<lambda>c. image_mset ps_data (mset (local_sends c))"
  have eq: "?D ((threads C)[i := c]) + ?d (threads C ! i) = ?D (threads C) + ?d c"
    using mset_concat_update [OF assms(1), of local_sends c] by (metis image_mset_union)
  have "held C' + lost + ?d (threads C ! i) + ?d c
      = (sent_parts w + image_mset ps_data (mset (pending_sends w)) + ?d c + lost) + (?D ((threads C)[i := c]) + ?d (threads C ! i))"
    by (simp add: held_def assms(2,3) ac_simps)
  also have "\<dots> = held C + new + ?d (threads C ! i) + ?d c"
    unfolding eq assms(4) by (simp add: held_def ac_simps)
  finally show ?thesis by simp
qed

lemma local_rest [simp]: "local_sends (resting b) = []" "local_sends (next_send b ps) = ps"
  "proper (resting b)" "proper (next_send b ps)"
  by (simp_all add: resting_def next_send_def split: list.split)

lemma held_advance:
  assumes "i < length (threads C)" "proper (threads C ! i)" "advance env (threads C ! i) (shared C) = (Ok c, w)"
  shows "proper c \<and> (c = Stopping \<longrightarrow> threads C ! i = Stopping)
    \<and> (\<exists>lost. held (C\<lparr>shared := w, threads := (threads C)[i := c]\<rparr>) + lost = held C
       \<and> ((\<forall>n. send_frame env n = FrameSent) \<and> threads C ! i \<noteq> Stopping \<longrightarrow> lost = {#}))"
proof -
  let ?c = "threads C ! i" and ?s = "shared C" and ?ok = "(\<forall>n. send_frame env n = FrameSent) \<and> threads C ! i \<noteq> Stopping"
  let ?out = "\<lambda>w c lost. sent_parts w + image_mset ps_data (mset (pending_sends w)) + image_mset ps_data (mset (local_sends c)) + lost
      = sent_parts ?s + image_mset ps_data (mset (pending_sends ?s)) + image_mset ps_data (mset (local_sends ?c)) + {#}"
  note st = assms(3)
  have "proper c \<and> (c = Stopping \<longrightarrow> ?c = Stopping) \<and> (\<exists>lost. ?out w c lost \<and> (?ok \<longrightarrow> lost = {#}))"
  proof (cases ?c)
    case Entering
    then show ?thesis using st measure_place [of "Taking True" ?s c w] by (auto simp: same_queue_def sent_parts_def)
  next
    case (Measuring b)
    then show ?thesis using st measure_place [of "resting b" ?s c w] by (auto simp: same_queue_def sent_parts_def resting_def)
  next
    case (Pushed b)
    then show ?thesis using st by (auto simp: ScheduleSendProcessing_def sent_parts_def resting_def split: if_splits)
  next
    case (Taking b)
    with st have "advance env (Taking b) ?s = (Ok c, w)" by simp
    from take_place [OF this] Taking show ?thesis
      by (auto simp: sent_parts_def resting_def next_send_def split: list.splits)
  next
    case (Sending b fs ps)
    then obtain p qs where ps: "ps = p # qs" "fs = frames_of p \<or> fs = drop 1 (frames_of p) \<or> fs = drop 2 (frames_of p)"
      using assms(2) by (cases ps) simp_all
    then obtain f m fs' where fs: "fs = (f, m) # fs'" "m \<Longrightarrow> proper (Sending b fs' ps)" "\<not> m \<Longrightarrow> f = ps_data p"
      by (auto simp: frames_of_def)
    then have "send_next_frame env b f m fs' p qs ?s = (Ok c, w)" using st Sending ps by simp
    from frame_place [OF this] show ?thesis
    proof cases
      case 1
      then show ?thesis using fs Sending ps by (auto simp: sent_parts_def)
    next
      case 2
      then show ?thesis using fs Sending ps by (auto simp: sent_parts_def next_send_def split: list.splits)
    next
      case 3
      then show ?thesis using Sending ps
        by (intro conjI exI [of _ "{#ps_data p#}"]) (auto simp: sent_parts_def next_send_def split: list.splits)
    qed
  next
    case (Finishing b)
    with st have "advance env (Finishing b) ?s = (Ok c, w)" by simp
    from finish_place [OF this] Finishing show ?thesis by (auto simp: sent_parts_def)
  next
    case Stopping
    with st have "advance env Stopping ?s = (Ok c, w)" by simp
    from drop_place [OF this] Stopping show ?thesis
      by (intro conjI exI [of _ "image_mset ps_data (mset (pending_sends ?s))"]) (auto simp: sent_parts_def)
  qed (use st in \<open>auto simp: bind_def split: if_splits\<close>)
  then obtain lost where "proper c" "c = Stopping \<longrightarrow> ?c = Stopping" and out: "?out w c lost" and "?ok \<longrightarrow> lost = {#}" by blast
  moreover from held_step [OF assms(1) _ _ out, of "C\<lparr>shared := w, threads := (threads C)[i := c]\<rparr>"]
  have "held (C\<lparr>shared := w, threads := (threads C)[i := c]\<rparr>) + lost = held C" by simp
  ultimately show ?thesis by blast
qed

lemma proper_update: "list_all proper (threads C) \<Longrightarrow> proper c \<Longrightarrow> list_all proper ((threads C)[i := c])"
  by (auto simp: list.pred_set dest: subsetD [OF set_update_subset_insert])

lemma held_moves:
  assumes "moves env m C = Some C'" "list_all proper (threads C)"
  shows "list_all proper (threads C') \<and> (Stopping \<in> set (threads C') \<longrightarrow> Stopping \<in> set (threads C) \<or> is_stop m)
    \<and> (\<exists>lost. held C' + lost = held C + called m
       \<and> ((\<forall>n. send_frame env n = FrameSent) \<and> Stopping \<notin> set (threads C) \<longrightarrow> lost = {#}))"
proof -
  have step: ?thesis if i: "i < length (threads C)" "threads C' = (threads C)[i := c]" "proper c"
      "c = Stopping \<Longrightarrow> Stopping \<in> set (threads C) \<or> is_stop m"
      and lost: "held C' + lost = held C + called m"
        "(\<forall>n. send_frame env n = FrameSent) \<and> Stopping \<notin> set (threads C) \<longrightarrow> lost = {#}" for i c lost
    using that proper_update [OF assms(2), of c i] subsetD [OF set_update_subset_insert, of Stopping "threads C" i c] by auto
  show ?thesis
  proof (cases m)
    case (Call i p)
    with assms(1) have i: "i < length (threads C)" "threads C ! i = Idle \<or> threads C ! i = Receiving"
      and g: "goes i C (seq (push_send p) (ret (Pushed (threads C ! i = Receiving)))) = Some C'" by (simp_all split: if_splits)
    from goes_Some [OF g] obtain c w where
      cw: "seq (push_send p) (ret (Pushed (threads C ! i = Receiving))) (shared C) = (Ok c, w)"
      "C' = C\<lparr>shared := w, threads := (threads C)[i := c]\<rparr>" .
    have "held C' + {#} = held C + {#ps_data p#}"
      using push_place [OF cw(1)] i cw(2) by (intro held_step [OF i(1)]) (auto simp: sent_parts_def)
    then show ?thesis using push_place [OF cw(1)] cw(2) Call by (intro step [OF i(1), of _ "{#}"]) auto
  next
    case (Dequeue i)
    then have i: "i < length (threads C)" "threads C ! i = Idle"
      "C' = C\<lparr>shared := (shared C)\<lparr>posted_sends := posted_sends (shared C) - 1\<rparr>, threads := (threads C)[i := Dequeued]\<rparr>"
      using assms(1) by (auto simp: goes_def seq_def split: if_splits)
    have "held C' + {#} = held C + {#}" using i by (intro held_step [OF i(1)]) (auto simp: sent_parts_def)
    then show ?thesis using i(3) Dequeue by (intro step [OF i(1), of Dequeued "{#}"]) simp_all
  next
    case (SocketReady i)
    then have i: "i < length (threads C)" "threads C ! i = Idle" "C' = C\<lparr>zmq_waits := False, threads := (threads C)[i :=
        (if running (shared C) then Entering else Idle)]\<rparr>"
      using assms(1) by (auto simp: goes_def split: if_splits)
    have "held C' + {#} = held C + {#}" using i by (intro held_step [OF i(1)]) auto
    then show ?thesis using i(3) SocketReady by (intro step [OF i(1), of _ "{#}"]) (auto split: if_splits)
  next
    case (Advance i)
    with assms(1) have i: "i < length (threads C)" and "goes i C (advance env (threads C ! i)) = Some C'" by (simp_all split: if_splits)
    from goes_Some [OF this(2)] obtain c w where cw: "advance env (threads C ! i) (shared C) = (Ok c, w)"
      "C' = C\<lparr>shared := w, threads := (threads C)[i := c]\<rparr>" .
    have "proper (threads C ! i)" using assms(2) i by (simp add: list_all_length)
    from held_advance [OF i this cw(1)] obtain lost where l: "proper c" "c = Stopping \<longrightarrow> threads C ! i = Stopping"
      "held C' + lost = held C" "(\<forall>n. send_frame env n = FrameSent) \<and> threads C ! i \<noteq> Stopping \<longrightarrow> lost = {#}"
      by (auto simp: cw(2))
    have mem: "threads C ! i = Stopping \<Longrightarrow> Stopping \<in> set (threads C)" using i by (metis nth_mem)
    show ?thesis using l mem cw(2) Advance by (intro step [OF i, of c lost]) auto
  next
    case (Rearm i)
    then have i: "i < length (threads C)" "threads C ! i = Receiving"
      "C' = C\<lparr>threads := (threads C)[i := Idle], zmq_waits := running (shared C)\<rparr>"
      using assms(1) by (auto split: if_splits)
    have "held C' + {#} = held C + {#}" using i by (intro held_step [OF i(1)]) auto
    then show ?thesis using i(3) Rearm by (intro step [OF i(1), of Idle "{#}"]) simp_all
  next
    case (RequestStop i)
    then have i: "i < length (threads C)" "threads C ! i = Idle" and
      g: "goes i C (bind (ask running) (\<lambda>was_running. if \<not> was_running then ret Idle
         else seq (update (\<lambda>w. w\<lparr>running := False\<rparr>)) (ret Stopping))) = Some C'" using assms(1) by (simp_all split: if_splits)
    from goes_Some [OF g] obtain c w where cw: "(bind (ask running) (\<lambda>was_running. if \<not> was_running then ret Idle
         else seq (update (\<lambda>w. w\<lparr>running := False\<rparr>)) (ret Stopping))) (shared C) = (Ok c, w)"
      "C' = C\<lparr>shared := w, threads := (threads C)[i := c]\<rparr>" .
    then have c: "proper c" "local_sends c = []" "wire w = wire (shared C)" "pending_sends w = pending_sends (shared C)"
      by (auto simp: run_act split: if_splits)
    have "held C' + {#} = held C + {#}" using i cw(2) c by (intro held_step [OF i(1)]) (auto simp: sent_parts_def)
    then show ?thesis using cw(2) c(1) RequestStop by (intro step [OF i(1), of _ "{#}"]) auto
  qed
qed

lemma held_interleaves:
  assumes "interleaves env C ms C'" "list_all proper (threads C)"
  shows "list_all proper (threads C') \<and> (\<exists>lost. held C' + lost = held C + \<Sum>\<^sub># (mset (map called ms))
    \<and> ((\<forall>n. send_frame env n = FrameSent) \<and> Stopping \<notin> set (threads C) \<and> list_all (\<lambda>m. \<not> is_stop m) ms \<longrightarrow> lost = {#}))"
  using assms
proof (induction rule: interleaves.induct)
  case (a_move env m C C' ms C'')
  from held_moves [OF a_move.hyps(1) a_move.prems] obtain lost where l: "list_all proper (threads C')"
    "Stopping \<in> set (threads C') \<longrightarrow> Stopping \<in> set (threads C) \<or> is_stop m" "held C' + lost = held C + called m"
    "(\<forall>n. send_frame env n = FrameSent) \<and> Stopping \<notin> set (threads C) \<longrightarrow> lost = {#}" by blast
  from a_move.IH [OF l(1)] obtain lost' where l': "list_all proper (threads C'')"
    "held C'' + lost' = held C' + \<Sum>\<^sub># (mset (map called ms))"
    "(\<forall>n. send_frame env n = FrameSent) \<and> Stopping \<notin> set (threads C') \<and> list_all (\<lambda>m. \<not> is_stop m) ms \<longrightarrow> lost' = {#}" by blast
  have "held C'' + (lost' + lost) = (held C'' + lost') + lost" by (simp add: ac_simps)
  also have "\<dots> = (held C' + lost) + \<Sum>\<^sub># (mset (map called ms))" unfolding l'(2) by (simp add: ac_simps)
  also have "\<dots> = held C + \<Sum>\<^sub># (mset (map called (m # ms)))" unfolding l(3) by (simp add: ac_simps)
  finally show ?case using l(2,4) l'(1,3) by (intro conjI exI [of _ "lost' + lost"]) auto
qed simp

section \<open>Properties\<close>

text \<open>C22. The steps are the code's: a thread that takes a posted task and is not interrupted does, in at most five
  steps and three per queued send, exactly what \<open>posted_task\<close> does, faults included, and one that enters
  \<open>ProcessPendingSends\<close> what \<open>ProcessPendingSends\<close> does.\<close>

theorem uninterrupted_thread:
  assumes "3 * length (pending_sends w) + 5 \<le> n"
  shows "alone env n Dequeued (w\<lparr>posted_sends := posted_sends w - 1\<rparr>) = bind (posted_task env) (\<lambda>_. ret Idle) w
    \<and> alone env n (Taking b) w = bind (ProcessPendingSends env) (\<lambda>_. ret (resting b)) w"
proof
  let ?w = "w\<lparr>posted_sends := posted_sends w - 1\<rparr>"
  obtain m where n: "n = Suc (Suc m)" and m: "3 * length (pending_sends ?w) + 3 \<le> m"
    using assms by (cases n; cases "n - 1") auto
  have idle: "alone env k Idle v = (Ok Idle, v)" for k v
    using alone_resting [of env k False v] by (simp add: resting_def)
  obtain r v where rv: "ProcessPendingSends env ?w = (r, v)" by (cases "ProcessPendingSends env ?w")
  have taking: "alone env m (Taking False) ?w = bind (ProcessPendingSends env) (\<lambda>_. ret Idle) ?w"
    using alone_process [OF m, of env False] by (simp add: resting_def)
  show "alone env n Dequeued ?w = bind (posted_task env) (\<lambda>_. ret Idle) w" using taking rv
    by (cases "running w"; cases "sending_in_progress w"; cases r)
      (simp_all add: n posted_task_def seq_def bind_def run_act idle del: One_nat_def)
qed (rule alone_process, use assms in simp)

theorem uninterrupted_thread_witness:
  "alone (full_socket 3) 11 (Taking False) two_sends = bind (ProcessPendingSends (full_socket 3)) (\<lambda>_. ret Idle) two_sends"
  using uninterrupted_thread [of two_sends 11 "full_socket 3" False] by (simp add: two_sends_def boot_def resting_def del: alone.simps)

text \<open>C20. No send is stranded between threads: however the workers, the callers of \<open>SendToClient\<close> and the threads that
  stop the server interleave, when no thread is inside the sending code of a running server,
  \<open>sending_in_progress_\<close> is off, and as long as a send waits a task is posted that will find it.\<close>

theorem threads_strand_nothing:
  assumes "interleaves env (cluster_of n db) ms C" "running (shared C)"
    and "list_all (\<lambda>c. c = Idle \<or> c = Receiving) (threads C)"
  shows "\<not> sending_in_progress (shared C) \<and> (pending_sends (shared C) = [] \<or> posted_sends (shared C) > 0)"
proof -
  have "covered (cluster_of n db)" by (simp add: covered_def cluster_of_def boot_def)
  with assms(1) have "covered C" by (rule covered_interleaves)
  moreover have "\<not> busy (threads C ! j) \<and> \<not> active (threads C ! j)" if "j < length (threads C)" for j
    using assms(3) that by (auto simp: list_all_length)
  ultimately show ?thesis using assms(2) by (auto simp: covered_def)
qed

definition to_X :: PendingSend where
  "to_X = \<lparr>ps_identity = ''X'', ps_data = [1], ps_callback = None\<rparr>"

definition to_Y :: PendingSend where
  "to_Y = \<lparr>ps_identity = ''Y'', ps_data = [2], ps_callback = None\<rparr>"

lemmas run_threads = goes_def push_send_def pending_locked_def locked_def seq_def bind_def ScheduleSendProcessing_def
  resting_def next_send_def take_pending_def finish_sends_def frames_of_def send_next_frame_def try_catch_def send_part_def Let_def
  run_callback_def metric_def cluster_of_def boot_def UpdateQueueMetrics_def SetPendingSendQueueSize_def IncrementMessagesSent_def zero_metrics_def

lemma call_run: "\<exists>C. interleaves (full_socket 9) (cluster_of 1 empty_database) [Call 0 to_X, Advance 0] C
    \<and> threads C = [Idle] \<and> running (shared C) \<and> pending_sends (shared C) = [to_X]"
  by (simp add: interleaves_simps run_threads)

theorem threads_strand_nothing_witness:
  "\<exists>C. interleaves (full_socket 9) (cluster_of 1 empty_database) [Call 0 to_X, Advance 0] C
    \<and> pending_sends (shared C) = [to_X] \<and> posted_sends (shared C) > 0"
proof -
  obtain C where C: "interleaves (full_socket 9) (cluster_of 1 empty_database) [Call 0 to_X, Advance 0] C" "threads C = [Idle]"
    "running (shared C)" "pending_sends (shared C) = [to_X]" using call_run by blast
  then show ?thesis using threads_strand_nothing [OF C(1,3)] by auto
qed

text \<open>C21. Every send goes out at most once, in every interleaving: the data parts on the wire, those in the queue
  and those in the hands of a thread are, together and with multiplicity, among the data that was passed to
  \<open>SendToClient\<close>; and they are all of it as long as the socket takes every frame and nobody stops the server.\<close>

theorem each_send_once:
  assumes "interleaves env (cluster_of n db) ms C"
  shows "held C \<subseteq># \<Sum>\<^sub># (mset (map called ms))
    \<and> ((\<forall>k. send_frame env k = FrameSent) \<and> list_all (\<lambda>m. \<not> is_stop m) ms \<longrightarrow> held C = \<Sum>\<^sub># (mset (map called ms)))"
proof -
  have start: "list_all proper (threads (cluster_of n db))" "Stopping \<notin> set (threads (cluster_of n db))" "held (cluster_of n db) = {#}"
    by (auto simp: cluster_of_def held_def sent_parts_def boot_def list.pred_set)
  from held_interleaves [OF assms start(1)] obtain lost where l: "held C + lost = \<Sum>\<^sub># (mset (map called ms))"
    "(\<forall>k. send_frame env k = FrameSent) \<and> list_all (\<lambda>m. \<not> is_stop m) ms \<longrightarrow> lost = {#}"
    using start(2,3) by auto
  then show ?thesis using mset_subset_eq_add_left [of "held C" lost] by auto
qed

theorem each_send_once_witness:
  "\<exists>C. interleaves (full_socket 9) (cluster_of 1 empty_database) [Call 0 to_X, Advance 0] C \<and> held C \<subseteq># {#[1]#}"
proof -
  obtain C where C: "interleaves (full_socket 9) (cluster_of 1 empty_database) [Call 0 to_X, Advance 0] C" using call_run by blast
  then show ?thesis using each_send_once [OF C] by (auto simp: to_X_def)
qed

text \<open>C23. Two threads on one socket: \<open>OnZmqEvent\<close> processes the queue without looking at \<open>sending_in_progress_\<close>, so that a
  worker in the posted task and one in the event handler can send at the same time, and their frames mix: the
  parts of the message for \<open>X\<close> and of the one for \<open>Y\<close> alternate, and neither arrives as it was sent.\<close>

theorem frames_mix:
  "\<exists>ms C. interleaves (full_socket 99) (cluster_of 2 empty_database) ms C \<and> list_all (\<lambda>m. \<not> is_stop m) ms
    \<and> \<Sum>\<^sub># (mset (map called ms)) = {#ps_data to_X, ps_data to_Y#}
    \<and> wire (shared C) = [([88], True), ([89], True), ([], True), ([], True), (ps_data to_X, False), (ps_data to_Y, False)]"
proof -
  let ?ms = "[Call 0 to_X, Advance 0, Dequeue 0, Advance 0, Advance 0, Advance 0,
     Call 1 to_Y, Advance 1, SocketReady 1, Advance 1, Advance 1,
     Advance 0, Advance 1, Advance 0, Advance 1, Advance 0, Advance 1]"
  have "\<exists>C. interleaves (full_socket 99) (cluster_of 2 empty_database) ?ms C
    \<and> wire (shared C) = [([88], True), ([89], True), ([], True), ([], True), (ps_data to_X, False), (ps_data to_Y, False)]"
    by (simp add: interleaves_simps run_threads to_X_def to_Y_def full_socket_def numeral_2_eq_2 byte_of_char_def)
  then show ?thesis by (intro exI [of _ ?ms]) auto
qed

end
