(* ===== verification/Spec2Isabelle.thy ===== *)
theory Spec2Isabelle
  imports Client_Properties Process Wire_Typing Registration Send_Threads
begin

text \<open>
  A model of the asynchronous message broker and of its example client. Clients register under a
  name over a ZeroMQ ROUTER socket and send each other messages, replies and acknowledgements;
  the broker writes every message to SQLite before it forwards it, keeps what can not be delivered,
  and sends a message that is still SENT some time after it was created again.

  \<^bold>\<open>How code is modelled.\<close> A C++ function is an action (Prelude): it maps a state to an outcome and the
  state after it, where the outcome is a value, an exception (\<open>Throw\<close>) or a fault, that is, something the
  language gives no meaning to: a thread that locks a \<open>std::mutex\<close> it holds, an exception that leaves
  a destructor or a thread, the use of a destroyed object. \<open>try\<close>, \<open>lock_guard\<close>, loops and destructors
  are combinators on actions. What the code does not decide is in the environment: the answers of
  SQLite and of the sockets, call by call, the order of hash maps, the clock. Every theorem about the
  broker holds for all of them unless it names an assumption.

  \<^bold>\<open>The parts.\<close>
  \<^item> Message, Codec: include/message.hpp, src/message.cpp. The frame, \<open>Serialize\<close>, \<open>Deserialize\<close>, the
    flags; the contract \<open>wire_codec\<close> of a codec and the documented layout.
  \<^item> Storage, Storage_Facts, Store_Contract, Storage_Queries, Store_Properties: src/storage.cpp on the
    two tables. Each SQL text is a function on the rows; each method of \<open>Storage\<close> is an action that
    steps it. The contract \<open>message_store\<close> is the abstract store, a map from ids to messages with a
    status. Storage_Open: the constructor with its pragmas, \<open>CreateTables\<close> and the prepared statements.
  \<^item> Broker_State: the state of a running broker, record \<open>world\<close>: the fields of \<open>Router\<close> (\<open>active_clients\<close>,
    \<open>identity_to_name\<close>, \<open>registry_mutex\<close>), of \<open>Server\<close> (\<open>pending_sends\<close>, \<open>sending_in_progress\<close>,
    \<open>running\<close>), the metrics counters, a heap of \<open>Session\<close> objects named by address, the sessions
    held by local variables, the frames the socket accepted (\<open>wire\<close>) and the database.
  \<^item> Session, Router, Handlers, Server: src/session.cpp, src/router.cpp, src/message_handler.cpp and
    src/server.cpp, operation by operation.
  \<^item> Broker: the server as a machine. Its state adds which waits the \<open>io_context\<close> holds; a step is one
    handler run by a worker thread: a socket event with arbitrary frames or errors of the socket, a posted send task, a timer,
    time passing, \<open>Stop\<close>. \<open>runs\<close> are sequences of steps, \<open>crashes\<close> a handler that ends in a fault.
  \<^item> Send_Threads: the sending code at a finer grain. A \<open>cluster\<close> is the shared state and the program point of
    each thread; a step is one critical section, one access to a flag or one call on the socket.
  \<^item> Config: include/config.hpp, the command line.
  \<^item> Metrics_Export: the rest of \<open>MetricsManager\<close>, src/metrics.cpp: the series the counters are published to,
    \<open>UpdateMetrics\<close> and its thread, as calls on the Prometheus objects with their arguments rounded to \<open>double\<close>; once
    in sequence and once as single steps between which the workers count.
  \<^item> Process: the constructor and the destructor of \<open>Server\<close>, \<open>SetupZmqSocket\<close>, \<open>SetupAsioIntegration\<close> and src/main.cpp,
    \<open>main\<close> from the command line to the exit status, its wait on the condition variable and the signal handler with every lock
    it takes, those of the log sinks included. Record \<open>process\<close> holds the terminal, the database file, the exporter, the
    logger, the globals and, while it serves, the machine of Broker.
  \<^item> Client_Codec, Client, Client_Properties, Text_Input: examples/universal_client.cpp, with its own
    codec, its commands, receiver loop and table of pending requests.

  \<^bold>\<open>What the lemmas show.\<close>
  \<^item> Codec and Client_Codec: both codecs invert each other and accept the same frames, the client's up
    to the length of the payload; which frames are refused, and how.
  \<^item> Storage_Facts to Store_Properties: the store implements its abstract specification; no call loses
    a message; the queries return exactly what they should, in order.
  \<^item> Broker_Invariant, Session_Facts, Router_Facts, Registry_Frame, Handler_Facts: one invariant \<open>good\<close>
    (lock flags, registry and heap agree, tables well formed, every session is owned) kept by every
    operation, as contracts (\<open>triple\<close>, \<open>keeps\<close>, \<open>tolerates\<close>) that also say which faults are possible.
  \<^item> Broker_Log: two-state properties of every operation at once, through the locales \<open>handler_relation\<close>
    and \<open>world_relation\<close>: a relation kept by the few primitive operations is kept by all handlers. They
    are interpreted for the growth of the log, for ids, for metrics, for the send queue and, in Wire_Typing,
    for the frames: everything the broker sends in a run is a frame of the protocol.
  \<^item> Message_Flow: what \<open>MessageHandler\<close> does, and that nothing is sent before it is saved; Acknowledge: what
    \<open>AckHandler\<close> does, and the exchange of message, acknowledgement and notification; Delivery: what a client
    that comes online is sent from the store, through the contract \<open>delivery\<close> of the body of a delivery loop;
    Retry: which messages \<open>CheckExpiredAcks\<close> sends again, by the time they were created; Replies: where a reply goes, and why an acknowledgement after it
    is lost; Registration: the replies kept for a client, and a registration from the new session to the last
    frame queued.
  \<^item> Send_Queue, Timers, Event_Loop: the loops of the server against reference descriptions.
  \<^item> Broker_Properties, Broker_Queue, Shutdown: what holds in every run; Known_Faults: runs that end
    badly, found while proving the former. Send_Threads: no interleaving strands a send or sends one twice,
    but two threads can mix their frames. Storage_Open, Process: opening the store is all or nothing; under which conditions
    \<open>main\<close> serves, and with which configuration; when a signal deadlocks the process, and that it wakes the main thread if not.
    Metrics_Export: counts up to \<open>2 ^ 53\<close> reach the exporter exactly.

  \<^bold>\<open>Bounds and termination.\<close> The loops that empty a queue (\<open>persist_rounds\<close>, \<open>flush_rounds\<close>) take the
  length of the queue as their bound, which is enough because each round removes an element; all other
  loops are structural. Machine integers have their width: 8-, 16- and 64-bit words in messages, 64-bit
  columns in the tables, a 32-bit \<open>int\<close> for numbers on the command line. Times are integers.

  \<^bold>\<open>Not modelled.\<close> The libraries: SQLite, ZeroMQ, Asio and Prometheus enter by their answers, in the
  records of the environment. The text of log lines (of the logger there are
  the level and, where a signal handler may need them, the mutexes of the sinks), and the locks inside library functions; the
  division of durations into seconds; failures to allocate memory or to start a thread; the HTTP server
  of the metrics, and the empty \<open>MetricsManager\<close> of a build without them; the abstract base classes of
  include/interfaces.hpp, whose implementations are modelled. In theory Broker a step is a whole handler: threads
  are interleaved within a handler only for the sending code, in Send_Threads, and not
  at all for the two threads of the client, nor a signal with the handler it interrupts, but for the mutexes that handler
  may hold.
\<close>

end
